(* ===== verification/Prelude.thy ===== *)
theory Prelude
  imports Main "HOL-Library.Word" "HOL-Library.Monad_Syntax"
begin

text \<open>
  Shared vocabulary of the development: the machine integer types of the C code, bounds-checked
  array access, the C counting loop, and the interface of a cyclic index.

  A C function that may bring the kernel down (a failing \<^verbatim>\<open>BUG_ON\<close>, a NULL or wild pointer
  dereference, an array access out of range) returns an \<^typ>\<open>'a option\<close>: \<open>None\<close> is the crash.
  Error codes (\<^verbatim>\<open>-EINVAL\<close> and the like) are ordinary \<^typ>\<open>int\<close> results. A loop that may not
  terminate is a \<^theory_text>\<open>partial_function (option)\<close> of its own, so that its \<open>None\<close> is divergence.
\<close>

unbundle bit_operations_syntax

named_theorems desc_simps \<open>unfolding rules of the descriptor operations\<close>
named_theorems eng_simps \<open>unfolding rules of the engine operations\<close>
named_theorems world_simps \<open>effect of the kernel and register primitives on the world\<close>
named_theorems const_defs \<open>numeric constants of the headers\<close>

type_synonym u8 = "8 word"
type_synonym u16 = "16 word"
type_synonym u32 = "32 word"
type_synonym u64 = "64 word"

section \<open>Error codes of the kernel\<close>

abbreviation EIO :: int where "EIO \<equiv> 5"
abbreviation EAGAIN :: int where "EAGAIN \<equiv> 11"
abbreviation ENOMEM :: int where "ENOMEM \<equiv> 12"
abbreviation EFAULT :: int where "EFAULT \<equiv> 14"
abbreviation EBUSY :: int where "EBUSY \<equiv> 16"
abbreviation ENODEV :: int where "ENODEV \<equiv> 19"
abbreviation EINVAL :: int where "EINVAL \<equiv> 22"
abbreviation ENOTTY :: int where "ENOTTY \<equiv> 25"
abbreviation EPROTO :: int where "EPROTO \<equiv> 71"
abbreviation ERESTARTSYS :: int where "ERESTARTSYS \<equiv> 512"
abbreviation EIOCBQUEUED :: int where "EIOCBQUEUED \<equiv> 529"

section \<open>C assertions and array accesses\<close>

text \<open>\<^verbatim>\<open>BUG_ON(c)\<close>: the kernel stops when \<open>c\<close> holds.\<close>

definition BUG_ON :: "bool \<Rightarrow> unit option" where
  "BUG_ON c = (if c then None else Some ())"

lemma BUG_ON_simps [simp]:
  "BUG_ON True = None" "BUG_ON False = Some ()"
  by (simp_all add: BUG_ON_def)

lemma BUG_ON_bind_Some [simp]:
  "(BUG_ON c \<bind> f = Some r) \<longleftrightarrow> \<not> c \<and> f () = Some r"
  by (simp add: BUG_ON_def)

definition arr_get :: "'a list \<Rightarrow> nat \<Rightarrow> 'a option" where
  "arr_get xs i = (if i < length xs then Some (xs ! i) else None)"

definition arr_set :: "'a list \<Rightarrow> nat \<Rightarrow> 'a \<Rightarrow> 'a list option" where
  "arr_set xs i v = (if i < length xs then Some (xs[i := v]) else None)"

lemma arr_get_in [simp]: "i < length xs \<Longrightarrow> arr_get xs i = Some (xs ! i)"
  and arr_get_out [simp]: "length xs \<le> i \<Longrightarrow> arr_get xs i = None"
  and arr_set_in [simp]: "i < length xs \<Longrightarrow> arr_set xs i v = Some (xs[i := v])"
  and arr_set_out [simp]: "length xs \<le> i \<Longrightarrow> arr_set xs i v = None"
  by (simp_all add: arr_get_def arr_set_def)

section \<open>Small numbers as machine words\<close>

lemma unat_small32 [simp]: "n < 2 ^ 32 \<Longrightarrow> unat (of_nat n :: u32) = n"
  by (simp add: unsigned_of_nat take_bit_nat_eq_self)

lemma unat_small64 [simp]: "n < 2 ^ 64 \<Longrightarrow> unat (of_nat n :: u64) = n"
  by (simp add: unsigned_of_nat take_bit_nat_eq_self)

lemma sint_small32 [simp]: "n < 2 ^ 31 \<Longrightarrow> sint (of_nat n :: u32) = int n"
  by (simp add: signed_of_nat signed_take_bit_int_eq_self)

lemma less_small32: "a < 2 ^ 32 \<Longrightarrow> b < 2 ^ 32 \<Longrightarrow> (of_nat a :: u32) < of_nat b \<longleftrightarrow> a < b"
  by (simp add: word_less_nat_alt)

lemma le_small32: "a \<le> b \<Longrightarrow> b < 2 ^ 32 \<Longrightarrow> (of_nat a :: u32) \<le> of_nat b"
  by (simp add: word_le_nat_alt)

lemma unat_and_mask: "unat (x AND mask k) = unat x mod 2 ^ k"
  by (metis take_bit_eq_mask take_bit_eq_mod unsigned_take_bit_eq)

section \<open>The counting loop\<close>

text \<open>
  \<open>for_range i n f s\<close> is the loop \<^verbatim>\<open>for (k = i; k < i + n; k++) s = f(k, s);\<close> over a body that
  may crash. Its rules give total correctness: an invariant that every iteration re-establishes
  makes the loop return and holds at its end.
\<close>

fun for_range :: "nat \<Rightarrow> nat \<Rightarrow> (nat \<Rightarrow> 's \<Rightarrow> 's option) \<Rightarrow> 's \<Rightarrow> 's option" where
  "for_range i 0 f s = Some s"
| "for_range i (Suc n) f s = do { s' \<leftarrow> f i s; for_range (Suc i) n f s' }"

lemma for_range_total:
  assumes "P i s"
    and "\<And>k s. i \<le> k \<Longrightarrow> k < i + n \<Longrightarrow> P k s \<Longrightarrow> \<exists>s'. f k s = Some s' \<and> P (Suc k) s'"
  shows "\<exists>s'. for_range i n f s = Some s' \<and> P (i + n) s'"
  using assms
proof (induction n arbitrary: i s)
  case 0
  then show ?case by simp
next
  case (Suc n)
  from Suc.prems(2)[of i s] Suc.prems(1) obtain s1 where s1: "f i s = Some s1" "P (Suc i) s1"
    by auto
  have "\<exists>s'. for_range (Suc i) n f s1 = Some s' \<and> P (Suc i + n) s'"
    by (rule Suc.IH[OF s1(2)]) (use Suc.prems(2) in auto)
  with s1(1) show ?case by simp
qed

lemma for_range_inv:
  assumes "for_range i n f s = Some s'" and "P i s"
    and "\<And>k s s'. i \<le> k \<Longrightarrow> k < i + n \<Longrightarrow> P k s \<Longrightarrow> f k s = Some s' \<Longrightarrow> P (Suc k) s'"
  shows "P (i + n) s'"
  using assms
proof (induction n arbitrary: i s)
  case 0
  then show ?case by simp
next
  case (Suc n)
  from Suc.prems(1) obtain s1 where s1: "f i s = Some s1" "for_range (Suc i) n f s1 = Some s'"
    by (auto simp: bind_eq_Some_conv)
  have "P (Suc i) s1"
    by (rule Suc.prems(3)[OF _ _ Suc.prems(2) s1(1)]) auto
  from Suc.IH[OF s1(2) this] Suc.prems(3) show ?case by simp
qed

lemma for_range_append:
  "for_range i (m + n) f s = do { s' \<leftarrow> for_range i m f s; for_range (i + m) n f s' }"
  by (induction m arbitrary: i s) (auto split: bind_splits)

text \<open>The same loop with a \<^verbatim>\<open>break\<close> or \<^verbatim>\<open>goto\<close>: a body that returns \<open>Some e\<close> beside the state ends it.\<close>

fun for_try :: "nat \<Rightarrow> nat \<Rightarrow> (nat \<Rightarrow> 's \<Rightarrow> ('e option \<times> 's) option) \<Rightarrow> 's \<Rightarrow> ('e option \<times> 's) option" where
  "for_try i 0 f s = Some (None, s)"
| "for_try i (Suc n) f s = do {
     (r, s) \<leftarrow> f i s;
     (case r of None \<Rightarrow> for_try (Suc i) n f s | Some e \<Rightarrow> Some (Some e, s)) }"

lemma for_try_total:
  assumes "P i s"
    and "\<And>k s. i \<le> k \<Longrightarrow> k < i + n \<Longrightarrow> P k s \<Longrightarrow>
       \<exists>r s'. f k s = Some (r, s') \<and> (case r of None \<Rightarrow> P (Suc k) s' | Some e \<Rightarrow> Q e s')"
  shows "\<exists>r s'. for_try i n f s = Some (r, s') \<and> (case r of None \<Rightarrow> P (i + n) s' | Some e \<Rightarrow> Q e s')"
  using assms
proof (induction n arbitrary: i s)
  case 0
  then show ?case by simp
next
  case (Suc n)
  from Suc.prems(2)[of i s] Suc.prems(1) obtain r s1 where
    s1: "f i s = Some (r, s1)" "case r of None \<Rightarrow> P (Suc i) s1 | Some e \<Rightarrow> Q e s1" by auto
  show ?case
  proof (cases r)
    case None
    with s1 have "\<exists>r s'. for_try (Suc i) n f s1 = Some (r, s') \<and>
        (case r of None \<Rightarrow> P (Suc i + n) s' | Some e \<Rightarrow> Q e s')"
      by (intro Suc.IH) (use Suc.prems(2) in auto)
    then obtain r' s2 where "for_try (Suc i) n f s1 = Some (r', s2)"
      "case r' of None \<Rightarrow> P (i + Suc n) s2 | Some e \<Rightarrow> Q e s2" unfolding add_Suc_shift by blast
    with s1(1) None show ?thesis by (intro exI[of _ r'] exI[of _ s2]) simp
  next
    case (Some e)
    with s1 show ?thesis by auto
  qed
qed

section \<open>What holds after a call\<close>

text \<open>
  \<open>ensures m Q\<close>: when the call \<open>m\<close> returns, \<open>Q\<close> holds of its result. The rules push \<open>ensures\<close> through the
  constructs of the functions, a called function is replaced by what is known of it (\<open>ensures_mono\<close>), and a loop by
  an invariant.
\<close>

definition ensures :: "'a option \<Rightarrow> ('a \<Rightarrow> bool) \<Rightarrow> bool" where
  "ensures m Q \<longleftrightarrow> (\<forall>r. m = Some r \<longrightarrow> Q r)"

lemma ensures_simps [simp]:
  "ensures None Q" "ensures (Some x) Q \<longleftrightarrow> Q x"
  "ensures (Option.bind n f) Q \<longleftrightarrow> ensures n (\<lambda>x. ensures (f x) Q)"
  "ensures (if c then m else m') Q \<longleftrightarrow> (if c then ensures m Q else ensures m' Q)"
  by (auto simp: ensures_def bind_eq_Some_conv)

lemma ensures_mono: "ensures m P \<Longrightarrow> (\<And>x. P x \<Longrightarrow> Q x) \<Longrightarrow> ensures m Q"
  by (auto simp: ensures_def)

lemma ensuresD: "ensures m Q \<Longrightarrow> m = Some r \<Longrightarrow> Q r"
  by (simp add: ensures_def)

lemma ensures_BUG_ON [simp]: "ensures (BUG_ON c) Q \<longleftrightarrow> (c \<or> Q ())"
  by (cases c) auto

lemma ensures_arr [simp]:
  "ensures (arr_get xs i) Q \<longleftrightarrow> (i < length xs \<longrightarrow> Q (xs ! i))" "ensures (arr_set xs i v) Q' \<longleftrightarrow> (i < length xs \<longrightarrow> Q' (xs[i := v]))"
  by (auto simp: arr_get_def arr_set_def)

lemma ensures_for_range:
  assumes "P i s" and "\<And>k s. i \<le> k \<Longrightarrow> k < i + n \<Longrightarrow> P k s \<Longrightarrow> ensures (f k s) (P (Suc k))"
  shows "ensures (for_range i n f s) (P (i + n))"
  using for_range_inv[of i n f s _ P] assms unfolding ensures_def by blast

lemma ensures_for_try:
  assumes "P i s"
    and "\<And>k s. i \<le> k \<Longrightarrow> k < i + n \<Longrightarrow> P k s \<Longrightarrow> ensures (f k s) (\<lambda>(r, s'). case r of None \<Rightarrow> P (Suc k) s' | Some e \<Rightarrow> Q e s')"
  shows "ensures (for_try i n f s) (\<lambda>(r, s'). case r of None \<Rightarrow> P (i + n) s' | Some e \<Rightarrow> Q e s')"
  using assms
proof (induction n arbitrary: i s)
  case 0
  then show ?case by simp
next
  case (Suc n)
  define R where "R = (\<lambda>(r, s'). case r of None \<Rightarrow> P (i + Suc n) s' | Some e \<Rightarrow> Q e s')"
  have R: "R (Some e, s') = Q e s'" for e s' by (simp add: R_def)
  have rest: "ensures (for_try (Suc i) n f s') R" if "P (Suc i) s'" for s'
    unfolding R_def add_Suc_shift[symmetric] by (rule Suc.IH[OF that]) (use Suc.prems(2) in auto)
  have "ensures (f i s) (\<lambda>(r, s'). case r of None \<Rightarrow> P (Suc i) s' | Some e \<Rightarrow> Q e s')"
    by (rule Suc.prems(2)) (use Suc.prems(1) in auto)
  then have "ensures (for_try i (Suc n) f s) R"
    by (auto simp: R split: option.splits intro: rest elim!: ensures_mono)
  then show ?case unfolding R_def .
qed

section \<open>Cyclic indices\<close>

text \<open>
  The driver walks three rings: the block ring of the WZ extension (\<^verbatim>\<open>(i + 1) & (N - 1)\<close>), the
  result ring of the AXI-ST reader (\<^verbatim>\<open>(i + 1) % N\<close>) and the buffer ring of the DataMover driver
  (\<^verbatim>\<open>if (++i == N) i = 0\<close>). What their clients rely on is the same law, stated here once.
\<close>

lemma mod_shift_eq: "r < N \<Longrightarrow> i < N \<Longrightarrow> j < N \<Longrightarrow> (r + i) mod N = (r + j) mod N \<longleftrightarrow> i = (j :: nat)"
  by (auto simp: mod_if split: if_splits)

locale ring_index =
  fixes N :: nat and nxt :: "nat \<Rightarrow> nat"
  assumes N_pos: "0 < N"
    and nxt_mod: "i < N \<Longrightarrow> nxt i = (i + 1) mod N"
begin

lemma nxt_less: "i < N \<Longrightarrow> nxt i < N"
  by (simp add: nxt_mod N_pos)

lemma nxt_of_mod: "nxt (k mod N) = (k + 1) mod N"
  by (simp add: nxt_mod N_pos mod_simps)

lemma funpow_nxt: "i < N \<Longrightarrow> (nxt ^^ k) i = (i + k) mod N"
  by (induction k) (simp_all add: nxt_of_mod)

definition gap :: "nat \<Rightarrow> nat \<Rightarrow> nat" where
  "gap i j = (j + N - i) mod N"

lemma gap_less: "gap i j < N"
  by (simp add: gap_def N_pos)

lemma gap_self: "i < N \<Longrightarrow> gap i i = 0"
  by (simp add: gap_def)

lemma gap_0_iff: "i < N \<Longrightarrow> j < N \<Longrightarrow> gap i j = 0 \<longleftrightarrow> i = j"
  by (cases "i \<le> j") (auto simp: gap_def mod_if)

lemma gap_nxt: "i < N \<Longrightarrow> j < N \<Longrightarrow> i \<noteq> j \<Longrightarrow> gap i j = Suc (gap (nxt i) j)"
  by (auto simp: gap_def nxt_mod mod_if)

lemma nxt_gap: "i < N \<Longrightarrow> j < N \<Longrightarrow> (i + gap i j) mod N = j"
  by (auto simp: gap_def mod_if)

lemma gap_fwd: "i < N \<Longrightarrow> k < N \<Longrightarrow> gap i ((i + k) mod N) = k"
  by (auto simp: gap_def mod_if)

text \<open>The induction of a loop that walks from \<open>i\<close> to \<open>j\<close>.\<close>

lemma walk_induct [consumes 2, case_names stop step]:
  assumes "i < N" and "j < N"
    and "P j"
    and "\<And>i. i < N \<Longrightarrow> i \<noteq> j \<Longrightarrow> P (nxt i) \<Longrightarrow> P i"
  shows "P i"
  using assms(1)
proof (induction "gap i j" arbitrary: i)
  case 0
  with assms(2,3) show ?case by (auto simp: gap_0_iff)
next
  case (Suc k)
  then have "i \<noteq> j" using gap_self by auto
  with Suc assms(2) show ?case
    by (metis assms(4) gap_nxt nxt_less nat.inject)
qed

text \<open>The indices visited on the way from \<open>i\<close> to \<open>j\<close>, both included.\<close>

definition arc :: "nat \<Rightarrow> nat \<Rightarrow> nat set" where
  "arc i j = {(i + k) mod N | k. k \<le> gap i j}"

lemma arc_self: "i < N \<Longrightarrow> arc i i = {i}"
  by (auto simp: arc_def gap_self)

lemma arc_step:
  assumes "i < N" "j < N" "i \<noteq> j"
  shows "arc i j = insert i (arc (nxt i) j)"
proof -
  have g: "gap i j = Suc (gap (nxt i) j)" by (rule gap_nxt[OF assms])
  have n: "(nxt i + k) mod N = (i + Suc k) mod N" for k
    by (simp add: nxt_mod assms(1) mod_simps)
  show ?thesis
  proof (intro set_eqI iffI)
    fix x assume "x \<in> arc i j"
    then obtain k where k: "x = (i + k) mod N" "k \<le> gap i j" by (auto simp: arc_def)
    show "x \<in> insert i (arc (nxt i) j)"
    proof (cases k)
      case 0
      with k assms(1) show ?thesis by simp
    next
      case (Suc m)
      with k g n[of m] show ?thesis by (auto simp: arc_def)
    qed
  next
    fix x assume "x \<in> insert i (arc (nxt i) j)"
    then consider "x = i" | k where "x = (nxt i + k) mod N" "k \<le> gap (nxt i) j"
      by (auto simp: arc_def)
    then show "x \<in> arc i j"
    proof cases
      case 1
      with assms(1) show ?thesis by (auto simp: arc_def intro!: exI[of _ 0])
    next
      case 2
      with n g show ?thesis by (auto simp: arc_def intro!: exI[of _ "Suc k"])
    qed
  qed
qed

end

end
