(* ===== verification/Xdma_Types.thy ===== *)
theory Xdma_Types
  imports Prelude
begin

text \<open>
  The data of the driver, from \<^verbatim>\<open>xdma-core.h\<close>, \<^verbatim>\<open>wz-xdma.h\<close>, \<^verbatim>\<open>wz-xdma-consts.h\<close> and
  \<^verbatim>\<open>wz-xdma-ioctl.h\<close>: register bit masks, register block layouts, enums and structs.

  Conventions. A pointer is a \<^typ>\<open>u64\<close>, NULL is \<open>0\<close>. A C \<^verbatim>\<open>int\<close> used as a flag is a \<^typ>\<open>bool\<close>, a
  non-negative \<^verbatim>\<open>int\<close> used as a count or an index is a \<^typ>\<open>nat\<close>. The host is little-endian (x86),
  so \<^verbatim>\<open>cpu_to_le32\<close> and \<^verbatim>\<open>le32_to_cpu\<close> are the identity and are left out.
\<close>

section \<open>Constants\<close>

definition WZ_DMA_BUFLEN :: nat where [const_defs]: "WZ_DMA_BUFLEN = 4 * 1024 * 1024"
definition WZ_DMA_NOFBUFS :: nat where [const_defs]: "WZ_DMA_NOFBUFS = 128"

definition XDMA_BAR_NUM :: nat where [const_defs]: "XDMA_BAR_NUM = 6"
definition XDMA_BAR_SIZE :: nat where [const_defs]: "XDMA_BAR_SIZE = 0x8000"
definition XDMA_CHANNEL_NUM_MAX :: nat where [const_defs]: "XDMA_CHANNEL_NUM_MAX = 4"
definition XDMA_ENG_IRQ_NUM :: nat where [const_defs]: "XDMA_ENG_IRQ_NUM = 1"
definition MAX_EXTRA_ADJ :: nat where [const_defs]: "MAX_EXTRA_ADJ = 15"
definition RX_STATUS_EOP :: u32 where [const_defs]: "RX_STATUS_EOP = 1"
definition XDMA_OFS_INT_CTRL :: u64 where [const_defs]: "XDMA_OFS_INT_CTRL = 0x2000"
definition XDMA_OFS_CONFIG :: u64 where [const_defs]: "XDMA_OFS_CONFIG = 0x3000"
definition XDMA_TRANSFER_MAX_BYTES :: nat where [const_defs]: "XDMA_TRANSFER_MAX_BYTES = 2048 * 4096"
definition XDMA_DESC_MAX_BYTES :: nat where [const_defs]: "XDMA_DESC_MAX_BYTES = 2 ^ 18 - 1"

text \<open>Bits of the SG DMA control register.\<close>

definition XDMA_CTRL_RUN_STOP :: u32 where [const_defs]: "XDMA_CTRL_RUN_STOP = 0x1"
definition XDMA_CTRL_IE_DESC_STOPPED :: u32 where [const_defs]: "XDMA_CTRL_IE_DESC_STOPPED = 0x2"
definition XDMA_CTRL_IE_DESC_COMPLETED :: u32 where [const_defs]: "XDMA_CTRL_IE_DESC_COMPLETED = 0x4"
definition XDMA_CTRL_IE_DESC_ALIGN_MISMATCH :: u32 where [const_defs]: "XDMA_CTRL_IE_DESC_ALIGN_MISMATCH = 0x8"
definition XDMA_CTRL_IE_MAGIC_STOPPED :: u32 where [const_defs]: "XDMA_CTRL_IE_MAGIC_STOPPED = 0x10"
definition XDMA_CTRL_IE_IDLE_STOPPED :: u32 where [const_defs]: "XDMA_CTRL_IE_IDLE_STOPPED = 0x40"
definition XDMA_CTRL_IE_READ_ERROR :: u32 where [const_defs]: "XDMA_CTRL_IE_READ_ERROR = 0x3E00"
definition XDMA_CTRL_IE_DESC_ERROR :: u32 where [const_defs]: "XDMA_CTRL_IE_DESC_ERROR = 0xF80000"
definition XDMA_CTRL_NON_INCR_ADDR :: u32 where [const_defs]: "XDMA_CTRL_NON_INCR_ADDR = 0x2000000"
definition XDMA_CTRL_POLL_MODE_WB :: u32 where [const_defs]: "XDMA_CTRL_POLL_MODE_WB = 0x4000000"

text \<open>Bits of the SG DMA status register.\<close>

definition XDMA_STAT_BUSY :: u32 where [const_defs]: "XDMA_STAT_BUSY = 0x1"
definition XDMA_STAT_DESC_STOPPED :: u32 where [const_defs]: "XDMA_STAT_DESC_STOPPED = 0x2"
definition XDMA_STAT_DESC_COMPLETED :: u32 where [const_defs]: "XDMA_STAT_DESC_COMPLETED = 0x4"
definition XDMA_STAT_ALIGN_MISMATCH :: u32 where [const_defs]: "XDMA_STAT_ALIGN_MISMATCH = 0x8"
definition XDMA_STAT_MAGIC_STOPPED :: u32 where [const_defs]: "XDMA_STAT_MAGIC_STOPPED = 0x10"
definition XDMA_STAT_READ_ERROR :: u32 where [const_defs]: "XDMA_STAT_READ_ERROR = 0x3E00"
definition XDMA_STAT_DESC_ERROR :: u32 where [const_defs]: "XDMA_STAT_DESC_ERROR = 0xF80000"

text \<open>Bits of the descriptor control field, the performance counters, identifiers and masks.\<close>

definition XDMA_DESC_STOPPED :: u32 where [const_defs]: "XDMA_DESC_STOPPED = 0x1"
definition XDMA_DESC_COMPLETED :: u32 where [const_defs]: "XDMA_DESC_COMPLETED = 0x2"
definition XDMA_DESC_EOP :: u32 where [const_defs]: "XDMA_DESC_EOP = 0x10"
definition XDMA_PERF_RUN :: u32 where [const_defs]: "XDMA_PERF_RUN = 0x1"
definition XDMA_PERF_CLEAR :: u32 where [const_defs]: "XDMA_PERF_CLEAR = 0x2"
definition XDMA_PERF_AUTO :: u32 where [const_defs]: "XDMA_PERF_AUTO = 0x4"
definition MAGIC_ENGINE :: u64 where [const_defs]: "MAGIC_ENGINE = 0xEEEEEEEE"
definition MAGIC_DEVICE :: u64 where [const_defs]: "MAGIC_DEVICE = 0xDDDDDDDD"
definition MAGIC_CHAR :: u64 where [const_defs]: "MAGIC_CHAR = 0xCCCCCCCC"
definition XDMA_ID_H2C :: u32 where [const_defs]: "XDMA_ID_H2C = 0x1fc0"
definition XDMA_ID_C2H :: u32 where [const_defs]: "XDMA_ID_C2H = 0x1fc1"
definition RX_BUF_BLOCK :: nat where [const_defs]: "RX_BUF_BLOCK = 4096"
definition RX_BUF_PAGES :: nat where [const_defs]: "RX_BUF_PAGES = 256"
definition RX_BUF_SIZE :: nat where [const_defs]: "RX_BUF_SIZE = RX_BUF_PAGES * RX_BUF_BLOCK"
definition RX_RESULT_BUF_SIZE :: nat where [const_defs]: "RX_RESULT_BUF_SIZE = RX_BUF_PAGES * 32"
definition LS_BYTE_MASK :: u32 where [const_defs]: "LS_BYTE_MASK = 0xFF"
definition IRQ_BLOCK_ID :: u32 where [const_defs]: "IRQ_BLOCK_ID = 0x1fc20000"
definition CONFIG_BLOCK_ID :: u32 where [const_defs]: "CONFIG_BLOCK_ID = 0x1fc30000"
definition WB_COUNT_MASK :: u32 where [const_defs]: "WB_COUNT_MASK = 0x00ffffff"
definition WB_ERR_MASK :: u32 where [const_defs]: "WB_ERR_MASK = 0x80000000"
definition MAX_USER_IRQ :: nat where [const_defs]: "MAX_USER_IRQ = 16"
definition DESC_MAGIC :: u32 where [const_defs]: "DESC_MAGIC = 0xAD4B0000"
definition C2H_WB :: u32 where [const_defs]: "C2H_WB = 0x52B4"
definition MAX_NUM_ENGINES :: nat where [const_defs]: "MAX_NUM_ENGINES = XDMA_CHANNEL_NUM_MAX * 2"
definition H2C_CHANNEL_OFFSET :: nat where [const_defs]: "H2C_CHANNEL_OFFSET = 0x1000"
definition SGDMA_OFFSET_FROM_CHANNEL :: nat where [const_defs]: "SGDMA_OFFSET_FROM_CHANNEL = 0x4000"
definition CHANNEL_SPACING :: nat where [const_defs]: "CHANNEL_SPACING = 0x100"
definition TARGET_SPACING :: nat where [const_defs]: "TARGET_SPACING = 0x1000"
definition BYPASS_MODE_SPACING :: nat where [const_defs]: "BYPASS_MODE_SPACING = 0x100"

section \<open>The two halves of a bus address\<close>

definition PCI_DMA_H :: "u64 \<Rightarrow> u64" where
  "PCI_DMA_H addr = drop_bit 16 (drop_bit 16 addr)"

definition PCI_DMA_L :: "u64 \<Rightarrow> u64" where
  "PCI_DMA_L addr = addr AND 0xffffffff"

text \<open>The address a device reads from a pair of 32-bit fields.\<close>

definition addr_of :: "u32 \<Rightarrow> u32 \<Rightarrow> u64" where
  "addr_of hi lo = push_bit 32 (ucast hi) OR ucast lo"

lemma PCI_DMA_L_take: "PCI_DMA_L a = take_bit 32 a"
  by (simp add: PCI_DMA_L_def take_bit_eq_mask mask_eq_exp_minus_1)

lemma addr_of_halves [simp]: "addr_of (ucast (PCI_DMA_H a)) (ucast (PCI_DMA_L a)) = a"
proof (rule bit_word_eqI)
  fix n assume "n < LENGTH(64)"
  then show "bit (addr_of (ucast (PCI_DMA_H a)) (ucast (PCI_DMA_L a))) n \<longleftrightarrow> bit a n"
    by (auto simp: addr_of_def PCI_DMA_H_def PCI_DMA_L_take bit_simps)
qed

section \<open>Register blocks\<close>

text \<open>
  A packed struct of 32-bit registers is the list of its members with their lengths in words;
  padding has no name. \<open>offsetof\<close> is the byte offset of a member.
\<close>

type_synonym 'f layout = "('f option \<times> nat) list"

fun offsetof :: "'f layout \<Rightarrow> 'f \<Rightarrow> nat" where
  "offsetof [] f = 0"
| "offsetof ((g, n) # fs) f = (if g = Some f then 0 else 4 * n + offsetof fs f)"

datatype engine_reg =
    R_identifier | R_control | R_control_w1s | R_control_w1c
  | R_status | R_status_rc | R_completed_desc_count | R_alignments
  | R_poll_mode_wb_lo | R_poll_mode_wb_hi
  | R_interrupt_enable_mask | R_interrupt_enable_mask_w1s | R_interrupt_enable_mask_w1c
  | R_perf_ctrl | R_perf_cyc_lo | R_perf_cyc_hi | R_perf_dat_lo | R_perf_dat_hi
  | R_perf_pnd_lo | R_perf_pnd_hi

definition engine_regs :: "engine_reg layout" where
  "engine_regs =
    [(Some R_identifier, 1), (Some R_control, 1), (Some R_control_w1s, 1), (Some R_control_w1c, 1),
     (None, 12),
     (Some R_status, 1), (Some R_status_rc, 1), (Some R_completed_desc_count, 1),
     (Some R_alignments, 1), (None, 14),
     (Some R_poll_mode_wb_lo, 1), (Some R_poll_mode_wb_hi, 1),
     (Some R_interrupt_enable_mask, 1), (Some R_interrupt_enable_mask_w1s, 1),
     (Some R_interrupt_enable_mask_w1c, 1), (None, 9),
     (Some R_perf_ctrl, 1), (Some R_perf_cyc_lo, 1), (Some R_perf_cyc_hi, 1),
     (Some R_perf_dat_lo, 1), (Some R_perf_dat_hi, 1), (Some R_perf_pnd_lo, 1),
     (Some R_perf_pnd_hi, 1)]"

datatype sgdma_reg = S_identifier | S_first_desc_lo | S_first_desc_hi | S_first_desc_adjacent | S_credits

definition engine_sgdma_regs :: "sgdma_reg layout" where
  "engine_sgdma_regs =
    [(Some S_identifier, 1), (None, 31), (Some S_first_desc_lo, 1), (Some S_first_desc_hi, 1),
     (Some S_first_desc_adjacent, 1), (Some S_credits, 1)]"

datatype irq_reg =
    I_identifier | I_user_int_enable | I_user_int_enable_w1s | I_user_int_enable_w1c
  | I_channel_int_enable | I_channel_int_enable_w1s | I_channel_int_enable_w1c
  | I_user_int_request | I_channel_int_request | I_user_int_pending | I_channel_int_pending
  | I_user_msi_vector | I_channel_msi_vector

definition interrupt_regs :: "irq_reg layout" where
  "interrupt_regs =
    [(Some I_identifier, 1), (Some I_user_int_enable, 1), (Some I_user_int_enable_w1s, 1),
     (Some I_user_int_enable_w1c, 1), (Some I_channel_int_enable, 1),
     (Some I_channel_int_enable_w1s, 1), (Some I_channel_int_enable_w1c, 1), (None, 9),
     (Some I_user_int_request, 1), (Some I_channel_int_request, 1), (Some I_user_int_pending, 1),
     (Some I_channel_int_pending, 1), (None, 12), (Some I_user_msi_vector, 8),
     (Some I_channel_msi_vector, 8)]"

definition er :: "engine_reg \<Rightarrow> u64" where "er r = of_nat (offsetof engine_regs r)"
definition sr :: "sgdma_reg \<Rightarrow> u64" where "sr r = of_nat (offsetof engine_sgdma_regs r)"
definition ir :: "irq_reg \<Rightarrow> u64" where "ir r = of_nat (offsetof interrupt_regs r)"

lemma er_inj [simp]: "er r = er r' \<longleftrightarrow> r = r'"
  by (cases r; cases r') (simp_all add: er_def engine_regs_def)

lemma sr_inj [simp]: "sr r = sr r' \<longleftrightarrow> r = r'"
  by (cases r; cases r') (simp_all add: sr_def engine_sgdma_regs_def)

lemma ir_inj [simp]: "ir r = ir r' \<longleftrightarrow> r = r'"
  by (cases r; cases r') (simp_all add: ir_def interrupt_regs_def)

section \<open>Descriptors, results and transfers\<close>

record xdma_desc =
  control :: u32
  bytes :: u32
  src_addr_lo :: u32
  src_addr_hi :: u32
  dst_addr_lo :: u32
  dst_addr_hi :: u32
  next_lo :: u32
  next_hi :: u32

definition zero_desc :: xdma_desc where
  "zero_desc = \<lparr>control = 0, bytes = 0, src_addr_lo = 0, src_addr_hi = 0, dst_addr_lo = 0,
     dst_addr_hi = 0, next_lo = 0, next_hi = 0\<rparr>"

definition src_addr :: "xdma_desc \<Rightarrow> u64" where "src_addr d = addr_of (src_addr_hi d) (src_addr_lo d)"
definition dst_addr :: "xdma_desc \<Rightarrow> u64" where "dst_addr d = addr_of (dst_addr_hi d) (dst_addr_lo d)"
definition next_addr :: "xdma_desc \<Rightarrow> u64" where "next_addr d = addr_of (next_hi d) (next_lo d)"

record xdma_result =
  res_status :: u32
  res_length :: u32

text \<open>\<^verbatim>\<open>(struct xdma_result *) cur_desc\<close>: the write-back of a completed transfer read through a
  descriptor pointer; its two words lie over \<open>control\<close> and \<open>bytes\<close>.\<close>

definition result_of_desc :: "xdma_desc \<Rightarrow> xdma_result" where
  "result_of_desc d = \<lparr>res_status = control d, res_length = bytes d\<rparr>"

datatype transfer_state =
  TRANSFER_STATE_NEW | TRANSFER_STATE_SUBMITTED | TRANSFER_STATE_COMPLETED | TRANSFER_STATE_FAILED

text \<open>
  An entry of a scatterlist with the bus address and length the DMA mapping gives it, and the
  scatter-gather mapper of \<^verbatim>\<open>xdma-sgm.h\<close>. The mapper and its two arrays are separate allocations.
\<close>

record sg_entry =
  sg_page :: u64
  sg_offset :: u32
  sg_length :: u32
  sg_dma_address :: u64
  sg_dma_len :: u32

definition zero_sg :: sg_entry where
  "zero_sg = \<lparr>sg_page = 0, sg_offset = 0, sg_length = 0, sg_dma_address = 0, sg_dma_len = 0\<rparr>"

record sg_mapping =
  sgm_ptr :: u64
  sgl_ptr :: u64
  pages_ptr :: u64
  sgl :: "sg_entry list"
  pages :: "u64 list"
  max_pages :: nat
  mapped_pages :: nat

record xdma_transfer =
  desc_virt :: u64
  desc_bus :: u64
  desc_adjacent :: nat
  desc_num :: nat
  xfer_dir_to_dev :: bool
  iocb :: u64
  sgl_nents :: nat
  sgm :: "sg_mapping option"
  userspace :: bool
  state :: transfer_state
  cyclic :: bool
  last_in_request :: bool
  size_of_request :: int

definition zero_transfer :: xdma_transfer where
  "zero_transfer = \<lparr>desc_virt = 0, desc_bus = 0, desc_adjacent = 0, desc_num = 0,
     xfer_dir_to_dev = False, iocb = 0, sgl_nents = 0, sgm = None,
     userspace = False, state = TRANSFER_STATE_NEW, cyclic = False, last_in_request = False, size_of_request = 0\<rparr>"

section \<open>The WZ extension of an engine\<close>

record block_desc =
  first_desc :: u32
  last_desc :: u32
  last_len :: u32

record wz_ext =
  buf_dma_t :: "u64 list"
  buf_page :: "u64 list"
  wz_transfer :: u64
  desc_copy :: "(u64 \<times> xdma_desc list) option"
  desc :: "u64 list"
  desc_dma :: "u64 list"
  buf_ready :: bool
  block_first_desc :: nat
  block_scanned_desc :: nat
  kfifo :: "block_desc list option"

text \<open>The extension of a freshly \<^verbatim>\<open>kzalloc\<close>ed engine.\<close>

definition zero_ext :: wz_ext where
  "zero_ext = \<lparr>buf_dma_t = replicate WZ_DMA_NOFBUFS 0, buf_page = replicate WZ_DMA_NOFBUFS 0,
     wz_transfer = 0, desc_copy = None, desc = replicate WZ_DMA_NOFBUFS 0,
     desc_dma = replicate WZ_DMA_NOFBUFS 0, buf_ready = False, block_first_desc = 0,
     block_scanned_desc = 0, kfifo = None\<rparr>"

section \<open>Engines\<close>

definition ENGINE_SHUTDOWN_NONE :: u32 where [const_defs]: "ENGINE_SHUTDOWN_NONE = 0"
definition ENGINE_SHUTDOWN_REQUEST :: u32 where [const_defs]: "ENGINE_SHUTDOWN_REQUEST = 1"
definition ENGINE_SHUTDOWN_IDLE :: u32 where [const_defs]: "ENGINE_SHUTDOWN_IDLE = 2"

record perf_ioctl =
  version :: u32
  transfer_size :: u32
  stopped :: u32
  iterations :: u32
  clock_cycle_count :: u64
  data_cycle_count :: u64
  pending_count :: u64

record xdma_engine =
  magic :: u64
  regs :: u64
  sgdma_regs :: u64
  bypass_offset :: u32
  shutdown :: u32
  running :: bool
  streaming :: bool
  non_incr_addr :: bool
  dir_to_dev :: bool
  addr_align :: u32
  len_granularity :: u32
  addr_bits :: u32
  channel :: nat
  number_in_channel :: nat
  desc_dequeued :: nat
  status :: u32
  interrupt_enable_mask_value :: u32
  transfer_list :: "u64 list"
  rx_tail :: nat
  rx_head :: nat
  rx_overrun :: bool
  rx_buffer :: u64
  rx_transfer_cyclic :: u64
  rx_result_buffer :: "xdma_result list option"
  rx_result_buffer_bus :: u64
  poll_mode_addr_virt :: u64
  poll_mode_bus :: u64
  msix_irq_line :: u32
  irq_bitmask :: u32
  xdma_perf :: "perf_ioctl option"
  eop_found :: bool
  user_buffer_index :: u32
  wz_ext :: wz_ext

definition zero_engine :: xdma_engine where
  "zero_engine = \<lparr>magic = 0, regs = 0, sgdma_regs = 0, bypass_offset = 0, shutdown = 0,
     running = False, streaming = False, non_incr_addr = False, dir_to_dev = False,
     addr_align = 0, len_granularity = 0, addr_bits = 0, channel = 0, number_in_channel = 0,
     desc_dequeued = 0, status = 0, interrupt_enable_mask_value = 0, transfer_list = [],
     rx_tail = 0, rx_head = 0, rx_overrun = False, rx_buffer = 0, rx_transfer_cyclic = 0,
     rx_result_buffer = None, rx_result_buffer_bus = 0, poll_mode_addr_virt = 0,
     poll_mode_bus = 0, msix_irq_line = 0, irq_bitmask = 0, xdma_perf = None, eop_found = False,
     user_buffer_index = 0, wz_ext = zero_ext\<rparr>"

section \<open>The device\<close>

text \<open>
  \<^verbatim>\<open>struct xdma_dev\<close>, without the fields only the disabled SDAccel build uses. The BAR indices are
  \<^verbatim>\<open>-1\<close> when the BAR is absent. Engines and per-engine character devices are indexed by channel and by
  direction (0 is H2C, 1 is C2H). A user interrupt is its latched \<^verbatim>\<open>events_irq\<close> flag. A character device
  is the pointer \<^verbatim>\<open>create_sg_char\<close> returned, \<open>0\<close> when absent.
\<close>

record xdma_dev =
  dev_magic :: u64
  major :: int
  instance_nr :: int
  user_char_dev :: u64
  ctrl_char_dev :: u64
  bypass_char_dev :: "nat \<Rightarrow> nat \<Rightarrow> u64"
  bypass_char_dev_base :: u64
  sgdma_char_dev :: "nat \<Rightarrow> nat \<Rightarrow> u64"
  events_char_dev :: "u64 list"
  bar :: "u64 list"
  user_bar_idx :: int
  config_bar_idx :: int
  bypass_bar_idx :: int
  regions_in_use :: bool
  got_regions :: bool
  irq_count :: nat
  irq_line :: int
  msi_enabled :: bool
  msix_enabled :: bool
  entry_vector :: "u32 list"
  user_irq :: "bool list"
  engines_num :: nat
  engine :: "nat \<Rightarrow> nat \<Rightarrow> xdma_engine option"

definition zero_dev :: xdma_dev where
  "zero_dev = \<lparr>dev_magic = 0, major = 0, instance_nr = 0, user_char_dev = 0, ctrl_char_dev = 0,
     bypass_char_dev = (\<lambda>_ _. 0), bypass_char_dev_base = 0, sgdma_char_dev = (\<lambda>_ _. 0),
     events_char_dev = replicate 16 0, bar = replicate XDMA_BAR_NUM 0, user_bar_idx = 0,
     config_bar_idx = 0, bypass_bar_idx = 0, regions_in_use = False, got_regions = False,
     irq_count = 0, irq_line = 0, msi_enabled = False, msix_enabled = False,
     entry_vector = replicate 32 0, user_irq = replicate 16 False, engines_num = 0,
     engine = (\<lambda>_ _. None)\<rparr>"

text \<open>\<^verbatim>\<open>lro->bar[lro->config_bar_idx]\<close>; the index is only valid after the BARs were identified.\<close>

definition config_bar :: "xdma_dev \<Rightarrow> u64 option" where
  "config_bar lro = (if config_bar_idx lro < 0 then None else arr_get (bar lro) (nat (config_bar_idx lro)))"

datatype chardev_type =
    CHAR_USER | CHAR_CTRL | CHAR_EVENTS | CHAR_XDMA_H2C | CHAR_XDMA_C2H
  | CHAR_BYPASS_H2C | CHAR_BYPASS_C2H | CHAR_BYPASS

text \<open>The numeric values of the enum order it.\<close>

fun chardev_val :: "chardev_type \<Rightarrow> nat" where
  "chardev_val CHAR_USER = 0"
| "chardev_val CHAR_CTRL = 1"
| "chardev_val CHAR_EVENTS = 2"
| "chardev_val CHAR_XDMA_H2C = 3"
| "chardev_val CHAR_XDMA_C2H = 4"
| "chardev_val CHAR_BYPASS_H2C = 5"
| "chardev_val CHAR_BYPASS_C2H = 6"
| "chardev_val CHAR_BYPASS = 7"

lemma chardev_val_inj [simp]: "chardev_val a = chardev_val b \<longleftrightarrow> a = b"
  by (cases a; cases b) simp_all

instantiation chardev_type :: linorder
begin

definition less_eq_chardev_type :: "chardev_type \<Rightarrow> chardev_type \<Rightarrow> bool" where
  "less_eq_chardev_type a b \<longleftrightarrow> chardev_val a \<le> chardev_val b"

definition less_chardev_type :: "chardev_type \<Rightarrow> chardev_type \<Rightarrow> bool" where
  "less_chardev_type a b \<longleftrightarrow> chardev_val a < chardev_val b"

instance
  by standard (auto simp: less_eq_chardev_type_def less_chardev_type_def)

end

text \<open>A user mapping, \<^verbatim>\<open>struct vm_area_struct\<close>; \<open>vm_ops\<close> names the table installed in it.\<close>

record vm_area =
  vm_start :: u64
  vm_end :: u64
  vm_pgoff :: u64
  vm_flags :: u64
  vm_ops :: string

definition VM_PFNMAP :: u64 where [const_defs]: "VM_PFNMAP = 0x400"
definition VM_IO :: u64 where [const_defs]: "VM_IO = 0x4000"
definition VM_DONTEXPAND :: u64 where [const_defs]: "VM_DONTEXPAND = 0x40000"
definition VM_DONTDUMP :: u64 where [const_defs]: "VM_DONTDUMP = 0x4000000"
definition VM_FAULT_NOPAGE :: int where [const_defs]: "VM_FAULT_NOPAGE = 0x100"

end
