(* ===== verification/Kworld.thy ===== *)
theory Kworld
  imports Xdma_Types
begin

text \<open>
  Everything the driver talks to: the device behind its registers, the kernel, user memory, and
  the memory objects shared by pointer.

  The device and the kernel are not part of this repository. They appear as oracles, functions of
  the history of all interactions so far: \<open>hw\<close> answers a register read, \<open>kint\<close> and \<open>kptr\<close> the
  calls that return a status or a pointer, \<open>dalloc\<close> and \<open>xalloc\<close> the two allocators whose objects
  the model keeps in memory, \<open>usr\<close> reads a word of user memory. Every interaction is appended to
  the history \<open>io\<close>, so that a property can speak about the writes a device has seen, their order,
  and about every resource acquired and released.
\<close>

datatype kcall =
    C_dma_alloc_coherent nat | C_dma_free_coherent nat u64 u64
  | C_alloc_pages | C_free_pages u64
  | C_dma_map_page u64 | C_dma_unmap_page u64
  | C_sync_for_device u64 | C_sync_for_cpu u64
  | C_vmalloc nat | C_vfree u64
  | C_kzalloc string | C_kfree u64
  | C_kfifo_alloc nat | C_kfifo_free
  | C_wake_up string | C_schedule_work nat nat | C_wait_event string
  | C_copy_from_user u64 nat | C_copy_to_user u64 "u32 list"
  | C_put_user u64 u32 | C_get_user u64
  | C_vm_insert_pfn u64 u64
  | C_request_irq u32 | C_free_irq u32
  | C_pci_iomap nat nat | C_pci_iounmap u64
  | C_pci string | C_pci_mask string nat
  | C_aio_complete u64 int
  | C_get_user_pages u64 nat | C_put_page u64 | C_set_dirty u64 | C_vmalloc_to_page u64
  | C_dma_map_sg nat | C_dma_unmap_sg nat | C_sg_dma_address nat | C_sg_dma_len nat
  | C_cdev string u64
  | C_remap_pfn u64 u64
  | C_set_reserved u64 | C_clear_reserved u64
  | C_pci_alloc_consistent nat | C_pci_free_consistent nat u64
  | C_copy_block u64 u64 nat | C_time_after
  | C_cfg_read nat | C_cfg_write nat u32 | C_delay nat
  | C_firmware string | C_node string string int int | C_misc string nat

datatype io =
    Rd u64 u32            \<comment> \<open>a register read and the value it returned\<close>
  | Wr u64 u32            \<comment> \<open>a register write\<close>
  | KI kcall int          \<comment> \<open>a kernel call and the status it returned\<close>
  | KP kcall u64          \<comment> \<open>a kernel call and the pointer it returned\<close>
  | KD kcall u64 u64      \<comment> \<open>a coherent allocation: CPU address and bus address\<close>
  | KV kcall              \<comment> \<open>a kernel call without a result\<close>

record world =
  io :: "io list"
  hw :: "io list \<Rightarrow> u64 \<Rightarrow> u32"
  kint :: "io list \<Rightarrow> kcall \<Rightarrow> int"
  kptr :: "io list \<Rightarrow> kcall \<Rightarrow> u64"
  dalloc :: "(u64 \<Rightarrow> xdma_desc option) \<Rightarrow> io list \<Rightarrow> nat \<Rightarrow> (u64 \<times> u64) option"
  xalloc :: "(u64 \<Rightarrow> xdma_transfer option) \<Rightarrow> io list \<Rightarrow> u64"
  usr :: "io list \<Rightarrow> u64 \<Rightarrow> u32"
  dmem :: "u64 \<Rightarrow> xdma_desc option"
  xfers :: "u64 \<Rightarrow> xdma_transfer option"
  poll_mode :: bool
  enable_credit_mp :: bool

definition emit :: "io \<Rightarrow> world \<Rightarrow> world" where
  "emit e w = w\<lparr>io := io w @ [e]\<rparr>"

section \<open>Registers\<close>

definition write_register :: "u32 \<Rightarrow> u64 \<Rightarrow> world \<Rightarrow> world" where
  "write_register value iomem w = emit (Wr iomem value) w"

definition read_register :: "u64 \<Rightarrow> world \<Rightarrow> u32 \<times> world" where
  "read_register iomem w = (let v = hw w (io w) iomem in (v, emit (Rd iomem v) w))"

section \<open>Kernel calls\<close>

definition call_int :: "kcall \<Rightarrow> world \<Rightarrow> int \<times> world" where
  "call_int c w = (let r = kint w (io w) c in (r, emit (KI c r) w))"

definition call_ptr :: "kcall \<Rightarrow> world \<Rightarrow> u64 \<times> world" where
  "call_ptr c w = (let p = kptr w (io w) c in (p, emit (KP c p) w))"

definition call_void :: "kcall \<Rightarrow> world \<Rightarrow> world" where
  "call_void c w = emit (KV c) w"

lemma emit_simps [simp]:
  "io (emit e w) = io w @ [e]" "hw (emit e w) = hw w" "kint (emit e w) = kint w"
  "kptr (emit e w) = kptr w" "dalloc (emit e w) = dalloc w" "xalloc (emit e w) = xalloc w"
  "usr (emit e w) = usr w" "dmem (emit e w) = dmem w" "xfers (emit e w) = xfers w"
  "poll_mode (emit e w) = poll_mode w" "enable_credit_mp (emit e w) = enable_credit_mp w"
  by (simp_all add: emit_def)

lemmas io_prim_defs = write_register_def read_register_def call_int_def call_ptr_def call_void_def

section \<open>Shared memory objects\<close>

text \<open>The descriptors of a coherent allocation are consecutive, 32 bytes apart.\<close>

definition desc_ptr :: "u64 \<Rightarrow> nat \<Rightarrow> u64" where
  "desc_ptr p i = p + 32 * of_nat i"

lemma desc_ptr_0 [simp]: "desc_ptr p 0 = p"
  by (simp add: desc_ptr_def)

lemma desc_ptr_Suc: "desc_ptr p (Suc i) = desc_ptr p i + 32"
  by (simp add: desc_ptr_def algebra_simps)

lemma desc_ptr_inj:
  assumes "i < 2 ^ 59" and "j < 2 ^ 59"
  shows "desc_ptr p i = desc_ptr p j \<longleftrightarrow> i = j"
proof
  assume "desc_ptr p i = desc_ptr p j"
  then have "(of_nat (32 * i) :: u64) = of_nat (32 * j)" by (simp add: desc_ptr_def)
  then have "take_bit 64 (32 * i) = take_bit 64 (32 * j)"
    unfolding word_of_nat_eq_iff by simp
  then have "32 * i mod 2 ^ 64 = 32 * j mod 2 ^ 64"
    by (simp only: take_bit_nat_def)
  with assms show "i = j" by simp
qed simp

fun put_descs :: "u64 \<Rightarrow> xdma_desc list \<Rightarrow> (u64 \<Rightarrow> xdma_desc option) \<Rightarrow> u64 \<Rightarrow> xdma_desc option" where
  "put_descs p [] m = m"
| "put_descs p (d # ds) m = put_descs (p + 32) ds (m(p \<mapsto> d))"

fun drop_descs :: "u64 \<Rightarrow> nat \<Rightarrow> (u64 \<Rightarrow> xdma_desc option) \<Rightarrow> u64 \<Rightarrow> xdma_desc option" where
  "drop_descs p 0 m = m"
| "drop_descs p (Suc n) m = drop_descs (p + 32) n (m(p := None))"

text \<open>Writing through a descriptor pointer; a pointer into unallocated memory is a crash.\<close>

definition desc_upd :: "u64 \<Rightarrow> (xdma_desc \<Rightarrow> xdma_desc) \<Rightarrow> world \<Rightarrow> world option" where
  "desc_upd p f w = do { d \<leftarrow> dmem w p; Some (w\<lparr>dmem := (dmem w)(p \<mapsto> f d)\<rparr>) }"

definition xfer_upd :: "u64 \<Rightarrow> (xdma_transfer \<Rightarrow> xdma_transfer) \<Rightarrow> world \<Rightarrow> world option" where
  "xfer_upd p f w = do { t \<leftarrow> xfers w p; Some (w\<lparr>xfers := (xfers w)(p \<mapsto> f t)\<rparr>) }"

text \<open>
  \<^verbatim>\<open>dma_alloc_coherent\<close> for \<open>n\<close> descriptors: zeroed memory the caller owns. \<open>None\<close> is a NULL return.
\<close>

definition dma_alloc_coherent :: "nat \<Rightarrow> world \<Rightarrow> (u64 \<times> u64) option \<times> world" where
  "dma_alloc_coherent n w =
    (case dalloc w (dmem w) (io w) n of
       None \<Rightarrow> (None, emit (KD (C_dma_alloc_coherent n) 0 0) w)
     | Some (v, b) \<Rightarrow> (Some (v, b),
         emit (KD (C_dma_alloc_coherent n) v b)
           (w\<lparr>dmem := put_descs v (replicate n zero_desc) (dmem w)\<rparr>)))"

definition dma_free_coherent :: "nat \<Rightarrow> u64 \<Rightarrow> u64 \<Rightarrow> world \<Rightarrow> world" where
  "dma_free_coherent n v b w =
    emit (KV (C_dma_free_coherent n v b)) (w\<lparr>dmem := drop_descs v n (dmem w)\<rparr>)"

definition kzalloc_transfer :: "world \<Rightarrow> u64 \<times> world" where
  "kzalloc_transfer w =
    (let p = xalloc w (xfers w) (io w)
     in (p, emit (KP (C_kzalloc ''xdma_transfer'') p)
              (if p = 0 then w else w\<lparr>xfers := (xfers w)(p \<mapsto> zero_transfer)\<rparr>)))"

definition kfree_transfer :: "u64 \<Rightarrow> world \<Rightarrow> world" where
  "kfree_transfer p w = emit (KV (C_kfree p)) (w\<lparr>xfers := (xfers w)(p := None)\<rparr>)"

text \<open>
  What the driver relies on from the two allocators: an object it is given is not NULL and does not
  lie over one that is still in use.
\<close>

definition dalloc_fresh ::
  "((u64 \<Rightarrow> xdma_desc option) \<Rightarrow> io list \<Rightarrow> nat \<Rightarrow> (u64 \<times> u64) option) \<Rightarrow> bool" where
  "dalloc_fresh f \<longleftrightarrow> (\<forall>m l n v b. f m l n = Some (v, b) \<longrightarrow>
     v \<noteq> 0 \<and> (\<forall>i < n. m (desc_ptr v i) = None))"

definition xalloc_fresh ::
  "((u64 \<Rightarrow> xdma_transfer option) \<Rightarrow> io list \<Rightarrow> u64) \<Rightarrow> bool" where
  "xalloc_fresh f \<longleftrightarrow> (\<forall>m l. f m l = 0 \<or> m (f m l) = None)"

lemma desc_ptr_shift: "desc_ptr (p + 32) i = desc_ptr p (Suc i)"
  by (simp add: desc_ptr_def algebra_simps)

lemma put_descs_other:
  assumes "\<And>i. i < length ds \<Longrightarrow> q \<noteq> desc_ptr p i"
  shows "put_descs p ds m q = m q"
  using assms
proof (induction ds arbitrary: p m)
  case Nil
  then show ?case by simp
next
  case (Cons d ds)
  have "q \<noteq> p" using Cons.prems[of 0] by simp
  moreover have "q \<noteq> desc_ptr (p + 32) i" if "i < length ds" for i
    using Cons.prems[of "Suc i"] that by (simp add: desc_ptr_shift)
  ultimately show ?case using Cons.IH[of "p + 32"] by simp
qed

lemma put_descs_at:
  assumes "i < length ds" and "length ds < 2 ^ 59"
  shows "put_descs p ds m (desc_ptr p i) = Some (ds ! i)"
  using assms
proof (induction ds arbitrary: p m i)
  case Nil
  then show ?case by simp
next
  case (Cons d ds)
  show ?case
  proof (cases i)
    case 0
    have "p \<noteq> desc_ptr (p + 32) j" if "j < length ds" for j
      using desc_ptr_inj[of 0 "Suc j" p] that Cons.prems by (simp add: desc_ptr_shift)
    then show ?thesis by (simp add: 0 put_descs_other)
  next
    case (Suc k)
    with Cons show ?thesis by (simp flip: desc_ptr_shift)
  qed
qed

lemma drop_descs_other:
  assumes "\<And>i. i < n \<Longrightarrow> q \<noteq> desc_ptr p i"
  shows "drop_descs p n m q = m q"
  using assms
proof (induction n arbitrary: p m)
  case 0
  then show ?case by simp
next
  case (Suc n)
  have "q \<noteq> p" using Suc.prems[of 0] by simp
  moreover have "q \<noteq> desc_ptr (p + 32) i" if "i < n" for i
    using Suc.prems[of "Suc i"] that by (simp add: desc_ptr_shift)
  ultimately show ?case using Suc.IH[of "p + 32"] by simp
qed

section \<open>A concrete environment\<close>

text \<open>
  One environment in which every hypothesis on the kernel and the device can be met: calls succeed,
  registers read zero, allocators hand out the next page of an address space of their own. Concrete
  instances of the properties run in it or in a variation of it.
\<close>

definition quiet_dalloc ::
  "(u64 \<Rightarrow> xdma_desc option) \<Rightarrow> io list \<Rightarrow> nat \<Rightarrow> (u64 \<times> u64) option" where
  "quiet_dalloc m l n = (let v = 0x1000 * of_nat (Suc (length l)) in
     if v \<noteq> 0 \<and> (\<forall>i < n. m (desc_ptr v i) = None) then Some (v, v) else None)"

definition quiet_xalloc :: "(u64 \<Rightarrow> xdma_transfer option) \<Rightarrow> io list \<Rightarrow> u64" where
  "quiet_xalloc m l = (let p = 0x1000 * of_nat (Suc (length l)) in if m p = None then p else 0)"

definition quiet_world :: world where
  "quiet_world = \<lparr>io = [], hw = (\<lambda>_ _. 0), kint = (\<lambda>_ _. 0),
     kptr = (\<lambda>l _. 0x1000 * of_nat (Suc (length l))), dalloc = quiet_dalloc, xalloc = quiet_xalloc,
     usr = (\<lambda>_ _. 0), dmem = (\<lambda>_. None), xfers = (\<lambda>_. None), poll_mode = False,
     enable_credit_mp = False\<rparr>"

lemma quiet_dalloc_fresh: "dalloc_fresh quiet_dalloc"
  by (auto simp: dalloc_fresh_def quiet_dalloc_def Let_def split: if_splits)

lemma quiet_xalloc_fresh: "xalloc_fresh quiet_xalloc"
  by (auto simp: xalloc_fresh_def quiet_xalloc_def Let_def)

lemma quiet_world_simps [simp]:
  "io quiet_world = []" "hw quiet_world = (\<lambda>_ _. 0)" "kint quiet_world = (\<lambda>_ _. 0)"
  "kptr quiet_world = (\<lambda>l _. 0x1000 * of_nat (Suc (length l)))"
  "dalloc quiet_world = quiet_dalloc" "xalloc quiet_world = quiet_xalloc"
  "usr quiet_world = (\<lambda>_ _. 0)" "dmem quiet_world = (\<lambda>_. None)" "xfers quiet_world = (\<lambda>_. None)"
  "poll_mode quiet_world = False" "enable_credit_mp quiet_world = False"
  by (simp_all add: quiet_world_def)

end
