(* ===== verification/Xdma_Desc.thy ===== *)
theory Xdma_Desc
  imports Kworld
begin

text \<open>
  The descriptor layer of \<^verbatim>\<open>xdma-core.c\<close>: allocation of a linked descriptor array, linking, the
  adjacent count, the control byte, addresses and lengths, and the loops over a transfer's
  descriptors. The locale \<open>desc_op\<close> is the contract all single-descriptor writers share.
\<close>

section \<open>Operations\<close>

text \<open>The body of the loop of \<^verbatim>\<open>xdma_desc_alloc\<close>: link descriptor \<open>i\<close> to the next one.\<close>

fun xdma_desc_alloc_body ::
  "u64 \<Rightarrow> nat \<Rightarrow> world \<times> u64 \<times> nat \<Rightarrow> (world \<times> u64 \<times> nat) option" where
  "xdma_desc_alloc_body virt i (w, next_bus, adj) = do {
     let next_bus = next_bus + 32;
     let (extra_adj, adj) =
       (if adj > 0 then (min (adj - 1) MAX_EXTRA_ADJ, adj - 1) else (0, adj));
     let temp_control = DESC_MAGIC OR push_bit 8 (of_nat extra_adj);
     w \<leftarrow> desc_upd (desc_ptr virt i) (\<lambda>d. d\<lparr>next_lo := ucast (PCI_DMA_L next_bus),
            next_hi := ucast (PCI_DMA_H next_bus), bytes := 0, control := temp_control\<rparr>) w;
     Some (w, next_bus, adj) }"

text \<open>\<^verbatim>\<open>xdma_desc_alloc\<close>: \<open>None\<close> inside the result is the NULL return; otherwise CPU address, bus
  address and the address of the last descriptor.\<close>

definition xdma_desc_alloc :: "nat \<Rightarrow> world \<Rightarrow> ((u64 \<times> u64 \<times> u64) option \<times> world) option" where
  "xdma_desc_alloc number w = do {
     BUG_ON (number < 1);
     (case dma_alloc_coherent number w of
        (None, w) \<Rightarrow> Some (None, w)
      | (Some (virt, bus), w) \<Rightarrow> do {
          (w, _, _) \<leftarrow> for_range 0 (number - 1) (xdma_desc_alloc_body virt) (w, bus, number - 1);
          w \<leftarrow> desc_upd (desc_ptr virt (number - 1))
                 (\<lambda>d. d\<lparr>next_lo := 0, next_hi := 0, bytes := 0, control := DESC_MAGIC\<rparr>) w;
          Some (Some (virt, bus, desc_ptr virt (number - 1)), w) }) }"

text \<open>\<^verbatim>\<open>xdma_desc_link\<close>; \<open>second\<close> is NULL to terminate the list.\<close>

definition xdma_desc_link :: "u64 \<Rightarrow> u64 \<Rightarrow> u64 \<Rightarrow> world \<Rightarrow> world option" where
  "xdma_desc_link first second second_bus w = do {
     d \<leftarrow> dmem w first;
     let ctl = control d AND 0x0000f0ff;
     let (lo, hi) = (if second \<noteq> 0 then (ucast (PCI_DMA_L second_bus), ucast (PCI_DMA_H second_bus))
                     else (0, 0));
     desc_upd first (\<lambda>d. d\<lparr>next_lo := lo, next_hi := hi, control := ctl OR DESC_MAGIC\<rparr>) w }"

definition xdma_desc_adjacent :: "u64 \<Rightarrow> nat \<Rightarrow> world \<Rightarrow> world option" where
  "xdma_desc_adjacent p next_adjacent w = do {
     d \<leftarrow> dmem w p;
     let ctl = control d AND 0x0000f0ff;
     let extra_adj =
       (if next_adjacent > 0 then
          let e = of_nat (min (next_adjacent - 1) MAX_EXTRA_ADJ) :: u32;
              max_adj_4k = (0x1000 - (next_lo d AND 0xFFF)) div 32 - 1;
              e = (if e > max_adj_4k then max_adj_4k else e)
          in (if sint e < 0 then 0 else e)
        else 0);
     desc_upd p (\<lambda>d. d\<lparr>control := ctl OR (0xAD4B0000 OR push_bit 8 extra_adj)\<rparr>) w }"

definition xdma_desc_control :: "u64 \<Rightarrow> u32 \<Rightarrow> world \<Rightarrow> world option" where
  "xdma_desc_control first control_field w = do {
     d \<leftarrow> dmem w first;
     let ctl = control d AND NOT LS_BYTE_MASK;
     BUG_ON (control_field AND NOT LS_BYTE_MASK \<noteq> 0);
     desc_upd first (\<lambda>d. d\<lparr>control := ctl OR control_field\<rparr>) w }"

definition xdma_desc_control_clear :: "u64 \<Rightarrow> u32 \<Rightarrow> world \<Rightarrow> world option" where
  "xdma_desc_control_clear first clear_mask w = do {
     d \<leftarrow> dmem w first;
     BUG_ON (clear_mask AND NOT LS_BYTE_MASK \<noteq> 0);
     desc_upd first (\<lambda>d. d\<lparr>control := control d AND NOT clear_mask\<rparr>) w }"

definition xdma_desc_control_set :: "u64 \<Rightarrow> u32 \<Rightarrow> world \<Rightarrow> world option" where
  "xdma_desc_control_set first set_mask w = do {
     d \<leftarrow> dmem w first;
     BUG_ON (set_mask AND NOT LS_BYTE_MASK \<noteq> 0);
     desc_upd first (\<lambda>d. d\<lparr>control := control d OR set_mask\<rparr>) w }"

definition xdma_desc_free :: "nat \<Rightarrow> u64 \<Rightarrow> u64 \<Rightarrow> world \<Rightarrow> world option" where
  "xdma_desc_free number virt bus w = do {
     BUG_ON (virt = 0);
     Some (dma_free_coherent number virt bus w) }"

definition xdma_desc_set :: "u64 \<Rightarrow> u64 \<Rightarrow> u64 \<Rightarrow> u32 \<Rightarrow> bool \<Rightarrow> world \<Rightarrow> world option" where
  "xdma_desc_set p rc_bus_addr ep_addr len to_dev w =
     desc_upd p (\<lambda>d. (if to_dev
       then d\<lparr>bytes := len,
              src_addr_lo := ucast (PCI_DMA_L rc_bus_addr), src_addr_hi := ucast (PCI_DMA_H rc_bus_addr),
              dst_addr_lo := ucast (PCI_DMA_L ep_addr), dst_addr_hi := ucast (PCI_DMA_H ep_addr)\<rparr>
       else d\<lparr>bytes := len,
              src_addr_lo := ucast (PCI_DMA_L ep_addr), src_addr_hi := ucast (PCI_DMA_H ep_addr),
              dst_addr_lo := ucast (PCI_DMA_L rc_bus_addr), dst_addr_hi := ucast (PCI_DMA_H rc_bus_addr)\<rparr>)) w"

definition xdma_desc_set_source :: "u64 \<Rightarrow> u64 \<Rightarrow> world \<Rightarrow> world option" where
  "xdma_desc_set_source p source w =
     desc_upd p (\<lambda>d. d\<lparr>src_addr_lo := ucast (PCI_DMA_L source), src_addr_hi := ucast (PCI_DMA_H source)\<rparr>) w"

text \<open>The loops over the descriptors of a transfer.\<close>

definition transfer_set_result_addresses :: "xdma_transfer \<Rightarrow> u64 \<Rightarrow> world \<Rightarrow> world option" where
  "transfer_set_result_addresses t result_bus w = do {
     (w, _) \<leftarrow> for_range 0 (desc_num t) (\<lambda>i (w, result_bus). do {
        w \<leftarrow> xdma_desc_set_source (desc_ptr (desc_virt t) i) result_bus w;
        Some (w, result_bus + 32) }) (w, result_bus);
     Some w }"

definition transfer_set_all_control :: "xdma_transfer \<Rightarrow> u32 \<Rightarrow> world \<Rightarrow> world option" where
  "transfer_set_all_control t ctl w =
     for_range 0 (desc_num t) (\<lambda>i w. do {
        w \<leftarrow> xdma_desc_control_clear (desc_ptr (desc_virt t) i) LS_BYTE_MASK w;
        xdma_desc_control_set (desc_ptr (desc_virt t) i) ctl w }) w"

text \<open>\<^verbatim>\<open>xdma_transfer_cyclic\<close> on the transfer object at address \<open>p\<close>.\<close>

definition xdma_transfer_cyclic :: "u64 \<Rightarrow> world \<Rightarrow> world option" where
  "xdma_transfer_cyclic p w = do {
     t \<leftarrow> xfers w p;
     w \<leftarrow> xdma_desc_link (desc_ptr (desc_virt t) (desc_num t - 1)) (desc_virt t) (desc_bus t) w;
     xfer_upd p (\<lambda>t. t\<lparr>cyclic := True\<rparr>) w }"

section \<open>The contract of a single-descriptor writer\<close>

locale desc_op =
  fixes wr :: "u64 \<Rightarrow> 'p \<Rightarrow> world \<Rightarrow> world option"
    and eff :: "'p \<Rightarrow> xdma_desc \<Rightarrow> xdma_desc"
    and ok :: "'p \<Rightarrow> bool"
  assumes wr_eq: "wr p a w =
    (case dmem w p of None \<Rightarrow> None
     | Some d \<Rightarrow> if ok a then Some (w\<lparr>dmem := (dmem w)(p \<mapsto> eff a d)\<rparr>) else None)"
begin

lemma wr_Some_iff:
  "wr p a w = Some w' \<longleftrightarrow>
    (\<exists>d. dmem w p = Some d \<and> ok a \<and> w' = w\<lparr>dmem := (dmem w)(p \<mapsto> eff a d)\<rparr>)"
  by (auto simp: wr_eq split: option.splits)

lemma wr_total: "dmem w p \<noteq> None \<Longrightarrow> ok a \<Longrightarrow> \<exists>w'. wr p a w = Some w'"
  by (auto simp: wr_eq)

lemma wr_frame:
  assumes "wr p a w = Some w'"
  shows "q \<noteq> p \<Longrightarrow> dmem w' q = dmem w q" and "dom (dmem w') = dom (dmem w)"
    and "io w' = io w" and "xfers w' = xfers w" and "w'\<lparr>dmem := m\<rparr> = w\<lparr>dmem := m\<rparr>"
  using assms by (auto simp: wr_Some_iff split: if_splits)

text \<open>The writer applied along an array of descriptors acts on each of them once.\<close>

lemma wr_for_range:
  assumes "\<And>i. i < n \<Longrightarrow> dmem w (desc_ptr p i) \<noteq> None" and "\<And>i. i < n \<Longrightarrow> ok (a i)" and "n < 2 ^ 59"
  shows "\<exists>w'. for_range 0 n (\<lambda>i. wr (desc_ptr p i) (a i)) w = Some w' \<and>
    w'\<lparr>dmem := dmem w\<rparr> = w \<and>
    (\<forall>i < n. dmem w' (desc_ptr p i) = map_option (eff (a i)) (dmem w (desc_ptr p i))) \<and>
    (\<forall>q. (\<forall>i < n. q \<noteq> desc_ptr p i) \<longrightarrow> dmem w' q = dmem w q)"
proof -
  let ?P = "\<lambda>k v. v\<lparr>dmem := dmem w\<rparr> = w \<and>
    (\<forall>i < n. dmem v (desc_ptr p i) =
       (if i < k then map_option (eff (a i)) (dmem w (desc_ptr p i)) else dmem w (desc_ptr p i))) \<and>
    (\<forall>q. (\<forall>i < n. q \<noteq> desc_ptr p i) \<longrightarrow> dmem v q = dmem w q)"
  have "\<exists>w'. for_range 0 n (\<lambda>i. wr (desc_ptr p i) (a i)) w = Some w' \<and> ?P (0 + n) w'"
  proof (rule for_range_total)
    show "?P 0 w" by simp
  next
    fix k v assume k: "0 \<le> k" "k < 0 + n" and P: "?P k v"
    from assms(1)[of k] k obtain d where "dmem w (desc_ptr p k) = Some d" by auto
    with P k assms(2)[of k] have
      "wr (desc_ptr p k) (a k) v = Some (v\<lparr>dmem := (dmem v)(desc_ptr p k \<mapsto> eff (a k) d)\<rparr>)"
      by (simp add: wr_eq)
    moreover have "?P (Suc k) (v\<lparr>dmem := (dmem v)(desc_ptr p k \<mapsto> eff (a k) d)\<rparr>)"
      using P k assms(3) \<open>dmem w (desc_ptr p k) = Some d\<close> by (auto simp: desc_ptr_inj)
    ultimately show "\<exists>w'. wr (desc_ptr p k) (a k) v = Some w' \<and> ?P (Suc k) w'" by blast
  qed
  then show ?thesis by auto
qed

end

text \<open>The operations of the source meet the contract; \<open>eff\<close> is their effect on one descriptor.\<close>

definition in_ls_byte :: "u32 \<Rightarrow> bool" where
  "in_ls_byte m \<longleftrightarrow> m AND NOT LS_BYTE_MASK = 0"

definition link_eff :: "u64 \<times> u64 \<Rightarrow> xdma_desc \<Rightarrow> xdma_desc" where
  "link_eff a d = (case a of (second, second_bus) \<Rightarrow>
     d\<lparr>next_lo := (if second \<noteq> 0 then ucast (PCI_DMA_L second_bus) else 0),
       next_hi := (if second \<noteq> 0 then ucast (PCI_DMA_H second_bus) else 0),
       control := control d AND 0xf0ff OR DESC_MAGIC\<rparr>)"

definition extra_adj :: "nat \<Rightarrow> xdma_desc \<Rightarrow> u32" where
  "extra_adj n d = (if n > 0 then
     (let e = of_nat (min (n - 1) MAX_EXTRA_ADJ);
          m = (0x1000 - (next_lo d AND 0xFFF)) div 32 - 1;
          e' = (if e > m then m else e) in (if sint e' < 0 then 0 else e')) else 0)"

definition adjacent_eff :: "nat \<Rightarrow> xdma_desc \<Rightarrow> xdma_desc" where
  "adjacent_eff n d = d\<lparr>control := control d AND 0xf0ff OR (0xAD4B0000 OR push_bit 8 (extra_adj n d))\<rparr>"

definition set_eff :: "u64 \<times> u64 \<times> u32 \<times> bool \<Rightarrow> xdma_desc \<Rightarrow> xdma_desc" where
  "set_eff a d = (case a of (rc, ep, len, to_dev) \<Rightarrow>
     let src = (if to_dev then rc else ep); dst = (if to_dev then ep else rc)
     in d\<lparr>bytes := len,
          src_addr_lo := ucast (PCI_DMA_L src), src_addr_hi := ucast (PCI_DMA_H src),
          dst_addr_lo := ucast (PCI_DMA_L dst), dst_addr_hi := ucast (PCI_DMA_H dst)\<rparr>)"

interpretation link: desc_op "\<lambda>p (a, b). xdma_desc_link p a b" link_eff "\<lambda>_. True"
  by unfold_locales
    (auto simp: xdma_desc_link_def link_eff_def desc_upd_def Let_def split: option.splits)

interpretation adjacent: desc_op xdma_desc_adjacent adjacent_eff "\<lambda>_. True"
  by unfold_locales
    (auto simp: xdma_desc_adjacent_def adjacent_eff_def extra_adj_def desc_upd_def Let_def
      split: option.splits)

interpretation ctl: desc_op xdma_desc_control
  "\<lambda>m d. d\<lparr>control := control d AND NOT LS_BYTE_MASK OR m\<rparr>" in_ls_byte
  by unfold_locales
    (auto simp: xdma_desc_control_def in_ls_byte_def desc_upd_def BUG_ON_def split: option.splits)

interpretation clr: desc_op xdma_desc_control_clear
  "\<lambda>m d. d\<lparr>control := control d AND NOT m\<rparr>" in_ls_byte
  by unfold_locales
    (auto simp: xdma_desc_control_clear_def in_ls_byte_def desc_upd_def BUG_ON_def split: option.splits)

interpretation setc: desc_op xdma_desc_control_set "\<lambda>m d. d\<lparr>control := control d OR m\<rparr>" in_ls_byte
  by unfold_locales
    (auto simp: xdma_desc_control_set_def in_ls_byte_def desc_upd_def BUG_ON_def split: option.splits)

interpretation dset: desc_op "\<lambda>p (rc, ep, len, to_dev). xdma_desc_set p rc ep len to_dev" set_eff "\<lambda>_. True"
  by unfold_locales (auto simp: xdma_desc_set_def set_eff_def desc_upd_def Let_def split: option.splits)

interpretation srcs: desc_op xdma_desc_set_source
  "\<lambda>s d. d\<lparr>src_addr_lo := ucast (PCI_DMA_L s), src_addr_hi := ucast (PCI_DMA_H s)\<rparr>" "\<lambda>_. True"
  by unfold_locales (auto simp: xdma_desc_set_source_def desc_upd_def split: option.splits)

lemmas desc_op_eqs =
  link.wr_eq[where a = "(x, y)" for x y, simplified] adjacent.wr_eq ctl.wr_eq clr.wr_eq setc.wr_eq
  dset.wr_eq[where a = "(x, y, z, u)" for x y z u, simplified] srcs.wr_eq

declare desc_op_eqs [desc_simps]


section \<open>The descriptor array of an allocation\<close>

lemma desc_upd_eq [desc_simps]:
  "desc_upd p f w = (case dmem w p of None \<Rightarrow> None | Some d \<Rightarrow> Some (w\<lparr>dmem := (dmem w)(p \<mapsto> f d)\<rparr>))"
  by (simp add: desc_upd_def split: option.splits)

text \<open>The \<open>i\<close>-th descriptor of a fresh list of \<open>n\<close> at bus address \<open>bus\<close>.\<close>

definition fresh_desc :: "nat \<Rightarrow> u64 \<Rightarrow> nat \<Rightarrow> xdma_desc" where
  "fresh_desc n bus i = zero_desc\<lparr>
     control := DESC_MAGIC OR push_bit 8 (of_nat (min (n - 2 - i) 15)),
     next_lo := (if Suc i < n then ucast (PCI_DMA_L (desc_ptr bus (Suc i))) else 0),
     next_hi := (if Suc i < n then ucast (PCI_DMA_H (desc_ptr bus (Suc i))) else 0)\<rparr>"

lemma xdma_desc_alloc_run:
  assumes n: "1 \<le> n" "n < 2 ^ 59" and a: "dalloc w (dmem w) (io w) n = Some (v, b)"
  shows "\<exists>w'. xdma_desc_alloc n w = Some (Some (v, b, desc_ptr v (n - 1)), w') \<and>
    io w' = io w @ [KD (C_dma_alloc_coherent n) v b] \<and>
    (\<forall>i < n. dmem w' (desc_ptr v i) = Some (fresh_desc n b i)) \<and>
    (\<forall>q. (\<forall>i < n. q \<noteq> desc_ptr v i) \<longrightarrow> dmem w' q = dmem w q) \<and>
    w'\<lparr>io := io w, dmem := dmem w\<rparr> = w"
proof -
  let ?w0 = "emit (KD (C_dma_alloc_coherent n) v b)
     (w\<lparr>dmem := put_descs v (replicate n zero_desc) (dmem w)\<rparr>)"
  let ?Q = "\<lambda>k u. (\<forall>i < n. dmem u (desc_ptr v i) = Some (if i < k then fresh_desc n b i else zero_desc)) \<and>
     (\<forall>q. (\<forall>i < n. q \<noteq> desc_ptr v i) \<longrightarrow> dmem u q = dmem w q) \<and> u\<lparr>dmem := dmem ?w0\<rparr> = ?w0"
  let ?P = "\<lambda>k (u, db, adj). ?Q k u \<and> db = desc_ptr b k \<and> adj = n - 1 - k"
  let ?f = "xdma_desc_alloc_body v"
  have "\<exists>s. for_range 0 (n - 1) ?f (?w0, b, n - 1) = Some s \<and> ?P (0 + (n - 1)) s"
  proof (rule for_range_total)
    show "?P 0 (?w0, b, n - 1)" using n by (auto simp: put_descs_at intro!: put_descs_other)
  next
    fix k s assume k: "0 \<le> k" "k < 0 + (n - 1)" and P: "?P k s"
    obtain u where s: "s = (u, desc_ptr b k, n - 1 - k)" and Q: "?Q k u"
      using P by (cases s) auto
    have dk: "dmem u (desc_ptr v k) = Some zero_desc" using Q k by auto
    have ne: "i < n \<Longrightarrow> i \<noteq> k \<Longrightarrow> desc_ptr v i \<noteq> desc_ptr v k" for i
      using k n by (simp add: desc_ptr_inj)
    have fd: "zero_desc\<lparr>next_lo := ucast (PCI_DMA_L (desc_ptr b (Suc k))),
       next_hi := ucast (PCI_DMA_H (desc_ptr b (Suc k))), bytes := 0,
       control := DESC_MAGIC OR push_bit 8 (of_nat (min (n - 2 - k) 15))\<rparr> = fresh_desc n b k"
      using k by (auto simp: fresh_desc_def zero_desc_def)
    have "?f k s = Some (u\<lparr>dmem := (dmem u)(desc_ptr v k \<mapsto> fresh_desc n b k)\<rparr>,
        desc_ptr b (Suc k), n - 1 - Suc k)"
      using k less_diff_conv[of k n 1] fd dk
      by (simp add: s desc_simps desc_ptr_Suc[symmetric] MAX_EXTRA_ADJ_def)
    moreover have "?Q (Suc k) (u\<lparr>dmem := (dmem u)(desc_ptr v k \<mapsto> fresh_desc n b k)\<rparr>)"
      using Q k ne by (auto simp: less_Suc_eq)
    ultimately show "\<exists>s'. ?f k s = Some s' \<and> ?P (Suc k) s'" by auto
  qed
  then obtain u db adj where loop: "for_range 0 (n - 1) ?f (?w0, b, n - 1) = Some (u, db, adj)"
    and Q: "?Q (n - 1) u" by auto
  let ?w' = "u\<lparr>dmem := (dmem u)(desc_ptr v (n - 1) \<mapsto> fresh_desc n b (n - 1))\<rparr>"
  have d: "dmem u (desc_ptr v (n - 1)) = Some zero_desc" using Q n by auto
  have fl: "zero_desc\<lparr>next_lo := 0, next_hi := 0, bytes := 0, control := DESC_MAGIC\<rparr> = fresh_desc n b (n - 1)"
    using n by (simp add: fresh_desc_def zero_desc_def)
  have "xdma_desc_alloc n w = Some (Some (v, b, desc_ptr v (n - 1)), ?w')"
    using n loop d fl by (simp add: xdma_desc_alloc_def dma_alloc_coherent_def a desc_simps)
  moreover have "\<forall>i < n. dmem ?w' (desc_ptr v i) = Some (fresh_desc n b i)"
    using Q n by (auto simp: desc_ptr_inj)
  moreover have "\<forall>q. (\<forall>i < n. q \<noteq> desc_ptr v i) \<longrightarrow> dmem ?w' q = dmem w q"
    using Q n by auto
  moreover have "?w'\<lparr>dmem := dmem ?w0\<rparr> = ?w0" using Q by simp
  ultimately show ?thesis
    by (intro exI[of _ ?w']) (auto simp: emit_def world.defs dest: arg_cong[of _ _ io] arg_cong[of _ _ "\<lambda>x. x\<lparr>io := io w, dmem := dmem w\<rparr>"])
qed

section \<open>Properties\<close>

text \<open>C31. \<^verbatim>\<open>xdma_desc_alloc\<close> either reports the failed allocation or returns a terminated linked list:
  descriptor \<open>i\<close> points at the bus address of descriptor \<open>i + 1\<close>, announces \<open>min (n - 2 - i) 15\<close> extra
  adjacent descriptors, the last one has a null next pointer, and no other memory changes.\<close>

theorem xdma_desc_alloc_list:
  assumes "1 \<le> n" and "n < 2 ^ 59"
  shows "case dalloc w (dmem w) (io w) n of
     None \<Rightarrow> xdma_desc_alloc n w = Some (None, emit (KD (C_dma_alloc_coherent n) 0 0) w)
   | Some (v, b) \<Rightarrow> \<exists>w'. xdma_desc_alloc n w = Some (Some (v, b, desc_ptr v (n - 1)), w') \<and>
       (\<forall>i < n. \<exists>d. dmem w' (desc_ptr v i) = Some d \<and> bytes d = 0 \<and>
          next_addr d = (if Suc i < n then desc_ptr b (Suc i) else 0) \<and>
          control d = 0xAD4B0000 OR push_bit 8 (of_nat (min (n - 2 - i) 15))) \<and>
       (\<forall>q. (\<forall>i < n. q \<noteq> desc_ptr v i) \<longrightarrow> dmem w' q = dmem w q) \<and> xfers w' = xfers w"
proof (cases "dalloc w (dmem w) (io w) n")
  case None
  with assms show ?thesis by (simp add: xdma_desc_alloc_def dma_alloc_coherent_def)
next
  case (Some vb)
  then obtain v b where vb: "dalloc w (dmem w) (io w) n = Some (v, b)" by (cases vb) auto
  have f: "bytes (fresh_desc n b i) = 0 \<and>
      next_addr (fresh_desc n b i) = (if Suc i < n then desc_ptr b (Suc i) else 0) \<and>
      control (fresh_desc n b i) = 0xAD4B0000 OR push_bit 8 (of_nat (min (n - 2 - i) 15))" for i
    by (simp add: fresh_desc_def zero_desc_def next_addr_def DESC_MAGIC_def) (simp add: addr_of_def)
  obtain w' where w': "xdma_desc_alloc n w = Some (Some (v, b, desc_ptr v (n - 1)), w')"
    "\<forall>i < n. dmem w' (desc_ptr v i) = Some (fresh_desc n b i)"
    "\<forall>q. (\<forall>i < n. q \<noteq> desc_ptr v i) \<longrightarrow> dmem w' q = dmem w q"
    and x: "w'\<lparr>io := io w, dmem := dmem w\<rparr> = w"
    using xdma_desc_alloc_run[OF assms vb] by blast
  have "xfers w' = xfers w" using arg_cong[OF x, of xfers] by simp
  with w' f show ?thesis by (simp add: vb)
qed


theorem xdma_desc_alloc_list_witness:
  "\<exists>w'. xdma_desc_alloc 3 quiet_world = Some (Some (0x1000, 0x1000, 0x1040), w') \<and>
     (\<exists>d. dmem w' 0x1020 = Some d \<and> next_addr d = 0x1040) \<and>
     (\<exists>d. dmem w' 0x1040 = Some d \<and> next_addr d = 0 \<and> control d = 0xAD4B0000)"
proof -
  have a: "dalloc quiet_world (dmem quiet_world) (io quiet_world) 3 = Some (0x1000, 0x1000)"
    by (simp add: quiet_dalloc_def)
  show ?thesis
    using xdma_desc_alloc_list[of 3 quiet_world] unfolding a
    by (auto simp: numeral_3_eq_3 All_less_Suc desc_ptr_def)
qed

text \<open>The number of extra adjacent descriptors the device reads from a control word.\<close>

definition nxt_adj :: "u32 \<Rightarrow> nat" where
  "nxt_adj c = unat (drop_bit 8 c AND 0x3F)"

lemma page_offset:
  fixes x :: u32
  assumes "x AND 31 = 0"
  shows "\<exists>k < 128. x AND 0xFFF = 32 * of_nat k"
proof -
  have m: "x AND 0xFFF = x AND mask 12" "x AND 31 = x AND mask 5"
    by (simp_all add: mask_eq_exp_minus_1)
  let ?k = "unat (x AND 0xFFF) div 32"
  have "unat x mod 32 = 0" using assms unat_and_mask[of x 5] m by simp
  then have "unat x mod 4096 mod 32 = 0" by (simp add: mod_mod_cancel)
  then have "unat (x AND 0xFFF) = 32 * ?k"
    using unat_and_mask[of x 12] m by auto
  then have "x AND 0xFFF = 32 * of_nat ?k"
    by (metis of_nat_mult of_nat_numeral of_nat_unat ucast_id)
  moreover have "?k < 128"
    using unat_and_mask[of x 12] m by (simp add: less_mult_imp_div_less)
  ultimately show ?thesis by blast
qed

lemma max_adj_4k:
  assumes "k < 128"
  shows "(0x1000 - 32 * of_nat k :: u32) div 32 - 1 = of_nat (127 - k)"
proof -
  have "(0x1000 - 32 * of_nat k :: u32) = of_nat (32 * (128 - k))"
    using assms by (simp add: of_nat_diff)
  moreover have "unat (of_nat (32 * (128 - k)) :: u32) = 32 * (128 - k)"
    using assms by (intro unat_small32) simp
  then have "(of_nat (32 * (128 - k)) :: u32) div 32 = of_nat (128 - k)"
    by (simp add: word_arith_nat_div)
  ultimately show ?thesis using assms by (simp add: of_nat_diff)
qed

lemma extra_adj_eq:
  assumes "next_lo d AND 0xFFF = 32 * of_nat k" and "k < 128"
  shows "extra_adj n d = of_nat (min (n - 1) (min 15 (127 - k)))"
proof (cases "n = 0")
  case True
  then show ?thesis by (simp add: extra_adj_def)
next
  case False
  let ?a = "min (n - 1) 15"
  have *: "(of_nat ?a :: u32) > of_nat (127 - k) \<longleftrightarrow> ?a > 127 - k"
    by (intro less_small32) auto
  have "sint (of_nat ?a :: u32) = int ?a" "sint (of_nat (127 - k) :: u32) = int (127 - k)"
    by (auto intro!: sint_small32)
  then have "extra_adj n d = of_nat (if ?a > 127 - k then 127 - k else ?a)"
    using False * by (simp only: extra_adj_def assms(1) max_adj_4k[OF assms(2)] MAX_EXTRA_ADJ_def Let_def) simp
  then show ?thesis by (simp add: min_def split: if_splits)
qed

lemma nxt_adj_control:
  assumes "c AND 0x3000 = 0" and "e < 64"
  shows "nxt_adj (c AND 0xf0ff OR (0xAD4B0000 OR push_bit 8 (of_nat e))) = e"
proof -
  have "drop_bit 8 (c AND 0xf0ff) AND 0x3F = drop_bit 8 (c AND 0x3000)"
    unfolding drop_bit_and and.assoc by simp
  also have "\<dots> = 0" by (simp add: assms(1))
  finally have "drop_bit 8 (c AND 0xf0ff OR (0xAD4B0000 OR push_bit 8 (of_nat e))) AND 0x3F =
      drop_bit 8 (push_bit 8 (of_nat e :: u32)) AND 0x3F"
    by (simp add: bit.conj_disj_distrib2)
  also have "\<dots> = of_nat e"
  proof -
    have e: "(of_nat e :: u32) = take_bit 6 (of_nat e)"
      using assms by (simp add: take_bit_of_nat take_bit_nat_eq_self)
    have "drop_bit 8 (push_bit 8 (take_bit 6 x)) AND 0x3F = take_bit 6 x" for x :: u32
    proof -
      have "drop_bit 8 (push_bit 8 (take_bit 6 x)) AND mask 6 = take_bit 6 x"
        by (rule bit_word_eqI) (auto simp: bit_simps)
      then show ?thesis by (simp add: mask_eq_exp_minus_1)
    qed
    with e show ?thesis by metis
  qed
  finally show ?thesis using assms by (simp add: nxt_adj_def)
qed




text \<open>\<^verbatim>\<open>xdma_desc_set\<close> stores both addresses and the length so that the device reads back exactly
  the host address and the device address given, in the direction of the transfer, and leaves the
  link and the control word of the descriptor alone.\<close>

theorem xdma_desc_set_addresses:
  assumes "dmem w p = Some d"
  shows "\<exists>d'. xdma_desc_set p rc ep len to_dev w = Some (w\<lparr>dmem := (dmem w)(p \<mapsto> d')\<rparr>) \<and>
    bytes d' = len \<and> src_addr d' = (if to_dev then rc else ep) \<and> dst_addr d' = (if to_dev then ep else rc) \<and>
    next_addr d' = next_addr d \<and> control d' = control d"
  using assms
  by (intro exI[of _ "set_eff (rc, ep, len, to_dev) d"])
    (auto simp: desc_simps set_eff_def src_addr_def dst_addr_def next_addr_def)

theorem xdma_desc_set_addresses_witness:
  "\<exists>d'. xdma_desc_set 0x40 0x100002000 0x30 512 True (quiet_world\<lparr>dmem := [0x40 \<mapsto> zero_desc]\<rparr>) =
      Some (quiet_world\<lparr>dmem := [0x40 \<mapsto> d']\<rparr>) \<and> src_addr d' = 0x100002000 \<and> dst_addr d' = 0x30"
  using xdma_desc_set_addresses[where w = "quiet_world\<lparr>dmem := [0x40 \<mapsto> zero_desc]\<rparr>"
      and p = "0x40" and d = zero_desc and rc = "0x100002000" and ep = "0x30" and len = 512 and to_dev = True]
  by auto


text \<open>\<^verbatim>\<open>xdma_transfer_cyclic\<close> closes the descriptor list of a transfer into a ring: afterwards the
  successor of descriptor \<open>i\<close> is descriptor \<open>(i + 1) mod n\<close>, and the transfer is marked cyclic.\<close>

theorem xdma_transfer_cyclic_ring:
  assumes "xfers w p = Some t" and "desc_virt t \<noteq> 0" and "1 \<le> desc_num t" and "desc_num t < 2 ^ 59"
    and "\<And>i. i < desc_num t \<Longrightarrow> \<exists>d. dmem w (desc_ptr (desc_virt t) i) = Some d \<and>
           (Suc i < desc_num t \<longrightarrow> next_addr d = desc_ptr (desc_bus t) (Suc i))"
  shows "\<exists>w'. xdma_transfer_cyclic p w = Some w' \<and> xfers w' = (xfers w)(p \<mapsto> t\<lparr>cyclic := True\<rparr>) \<and>
    (\<forall>i < desc_num t. \<exists>d. dmem w' (desc_ptr (desc_virt t) i) = Some d \<and>
       next_addr d = desc_ptr (desc_bus t) ((i + 1) mod desc_num t))"
proof -
  let ?n = "desc_num t" and ?v = "desc_virt t"
  from assms(5)[of "?n - 1"] assms(3) obtain d where d: "dmem w (desc_ptr ?v (?n - 1)) = Some d"
    by auto
  let ?d = "link_eff (?v, desc_bus t) d"
  have r: "xdma_transfer_cyclic p w = Some (w\<lparr>dmem := (dmem w)(desc_ptr ?v (?n - 1) \<mapsto> ?d),
      xfers := (xfers w)(p \<mapsto> t\<lparr>cyclic := True\<rparr>)\<rparr>)"
    using assms(1) d by (simp add: xdma_transfer_cyclic_def desc_simps xfer_upd_def)
  have last: "next_addr ?d = desc_bus t"
    using assms(2) by (simp add: link_eff_def next_addr_def)
  have "\<exists>d'. ((dmem w)(desc_ptr ?v (?n - 1) \<mapsto> ?d)) (desc_ptr ?v i) = Some d' \<and>
      next_addr d' = desc_ptr (desc_bus t) ((i + 1) mod ?n)" if i: "i < ?n" for i
  proof (cases "Suc i < ?n")
    case True
    then have "desc_ptr ?v i \<noteq> desc_ptr ?v (?n - 1)" using assms(4) by (simp add: desc_ptr_inj)
    with assms(5)[OF i] True show ?thesis by auto
  next
    case False
    with i have "Suc i = ?n" by simp
    then have "i = ?n - 1" "(i + 1) mod ?n = 0" by auto
    with last show ?thesis by simp
  qed
  with r show ?thesis by simp
qed

theorem xdma_transfer_cyclic_ring_witness:
  "\<exists>w'. xdma_transfer_cyclic 0x80 (quiet_world\<lparr>dmem := [0x40 \<mapsto> zero_desc],
      xfers := [0x80 \<mapsto> zero_transfer\<lparr>desc_virt := 0x40, desc_bus := 0x7040, desc_num := 1\<rparr>]\<rparr>) = Some w' \<and>
    (\<exists>d. dmem w' 0x40 = Some d \<and> next_addr d = 0x7040)"
  using xdma_transfer_cyclic_ring[where p = "0x80" and w = "quiet_world\<lparr>dmem := [0x40 \<mapsto> zero_desc],
      xfers := [0x80 \<mapsto> zero_transfer\<lparr>desc_virt := 0x40, desc_bus := 0x7040, desc_num := 1\<rparr>]\<rparr>"
      and t = "zero_transfer\<lparr>desc_virt := 0x40, desc_bus := 0x7040, desc_num := 1\<rparr>"]
  by auto

end
