(* ===== verification/Xdma_Sgm.thy ===== *)
theory Xdma_Sgm
  imports Xdma_Desc
begin

text \<open>
  The scatter-gather mapper of \<^verbatim>\<open>xdma-sgm.c\<close>: it pins the pages of a user buffer (or looks up the
  pages of a vmalloc area) and describes the buffer as a scatterlist, one entry per page.
\<close>

definition PAGE_SIZE :: u64 where [const_defs]: "PAGE_SIZE = 4096"
definition PAGE_SHIFT :: nat where [const_defs]: "PAGE_SHIFT = 12"
definition PAGE_MASK :: u64 where [const_defs]: "PAGE_MASK = NOT (PAGE_SIZE - 1)"

section \<open>The mapper\<close>

definition sg_create_mapper :: "u64 \<Rightarrow> world \<Rightarrow> sg_mapping option \<times> world" where
  "sg_create_mapper max_len w =
    (if max_len = 0 then (None, w)
     else let (p, w) = call_ptr (C_kzalloc ''sg_mapping_t'') w in
       if p = 0 then (None, w)
       else let mp = unat (max_len div PAGE_SIZE) + 2; (pgs, w) = call_ptr (C_kzalloc ''pages'') w in
         if pgs = 0 then (None, call_void (C_kfree p) w)
         else let (sg, w) = call_ptr (C_kzalloc ''scatterlist'') w in
           if sg = 0 then (None, call_void (C_kfree p) (call_void (C_kfree pgs) w))
           else (Some \<lparr>sgm_ptr = p, sgl_ptr = sg, pages_ptr = pgs, sgl = replicate mp zero_sg,
                   pages = replicate mp 0, max_pages = mp, mapped_pages = 0\<rparr>, w))"

definition sg_destroy_mapper :: "sg_mapping \<Rightarrow> world \<Rightarrow> world option" where
  "sg_destroy_mapper m w = do {
     BUG_ON (mapped_pages m > 0);
     Some (call_void (C_kfree (sgm_ptr m)) (call_void (C_kfree (pages_ptr m))
            (call_void (C_kfree (sgl_ptr m)) w))) }"

text \<open>\<^verbatim>\<open>put_page(pages[i])\<close> and \<^verbatim>\<open>SetPageDirty(pages[i])\<close> over the mapped pages.\<close>

definition put_pages :: "u64 list \<Rightarrow> nat \<Rightarrow> world \<Rightarrow> world option" where
  "put_pages pgs n w = for_range 0 n (\<lambda>i w. do {
     p \<leftarrow> arr_get pgs i; Some (call_void (C_put_page p) w) }) w"

definition sgm_dirty_pages :: "sg_mapping \<Rightarrow> world \<Rightarrow> world option" where
  "sgm_dirty_pages m w = for_range 0 (mapped_pages m) (\<lambda>i w. do {
     p \<leftarrow> arr_get (pages m) i; Some (call_void (C_set_dirty p) w) }) w"

definition sgm_put_user_pages :: "sg_mapping \<Rightarrow> bool \<Rightarrow> world \<Rightarrow> (sg_mapping \<times> world) option" where
  "sgm_put_user_pages m dirtied w = do {
     w \<leftarrow> (if dirtied then sgm_dirty_pages m w else Some w);
     w \<leftarrow> put_pages (pages m) (mapped_pages m) w;
     Some (m\<lparr>mapped_pages := 0\<rparr>, w) }"

section \<open>Describing a buffer by its pages\<close>

definition sg_set_page :: "sg_entry list \<Rightarrow> nat \<Rightarrow> u64 \<Rightarrow> u32 \<Rightarrow> u32 \<Rightarrow> sg_entry list option" where
  "sg_set_page sl i page len offset = do {
     s \<leftarrow> arr_get sl i;
     arr_set sl i (s\<lparr>sg_page := page, sg_offset := offset, sg_length := len\<rparr>) }"

definition sg_init_table :: "sg_entry list \<Rightarrow> nat \<Rightarrow> sg_entry list" where
  "sg_init_table sl n = replicate n zero_sg @ drop n sl"

definition page_nr :: "u64 \<Rightarrow> u64" where
  "page_nr a = drop_bit PAGE_SHIFT (a AND PAGE_MASK)"

definition nr_pages :: "u64 \<Rightarrow> u64 \<Rightarrow> int" where
  "nr_pages start count = sint (ucast (page_nr (start + count - 1) - page_nr start + 1) :: u32)"

text \<open>The part both mapping functions share: the first entry starts at the offset of the buffer, the
  last one takes what is left.\<close>

definition sgm_middle :: "u64 list \<Rightarrow> nat \<Rightarrow> sg_entry list \<times> u64 \<Rightarrow> (sg_entry list \<times> u64) option" where
  "sgm_middle pgs i s = (case s of (sl, count) \<Rightarrow> do {
     BUG_ON (count < PAGE_SIZE);
     p \<leftarrow> arr_get pgs i;
     sl \<leftarrow> sg_set_page sl i p 4096 0;
     Some (sl, count - PAGE_SIZE) })"

definition sgm_populate :: "u64 list \<Rightarrow> nat \<Rightarrow> u64 \<Rightarrow> u64 \<Rightarrow> sg_entry list \<Rightarrow> sg_entry list option" where
  "sgm_populate pgs nr start count sl = do {
     p0 \<leftarrow> arr_get pgs 0;
     sl \<leftarrow> sg_set_page sl 0 p0 0 (ucast (start AND (PAGE_SIZE - 1)));
     s0 \<leftarrow> arr_get sl 0;
     if nr > 1 then do {
       sl \<leftarrow> arr_set sl 0 (s0\<lparr>sg_length := 4096 - sg_offset s0\<rparr>);
       (sl, count) \<leftarrow> for_range 1 (nr - 2) (sgm_middle pgs) (sl, count - ucast (4096 - sg_offset s0));
       BUG_ON (count > PAGE_SIZE);
       p \<leftarrow> arr_get pgs (nr - 1);
       sg_set_page sl (nr - 1) p (ucast count) 0
     } else arr_set sl 0 (s0\<lparr>sg_length := ucast count\<rparr>) }"

definition sgm_get_user_pages ::
  "sg_mapping \<Rightarrow> u64 \<Rightarrow> u64 \<Rightarrow> bool \<Rightarrow> world \<Rightarrow> (int \<times> sg_mapping \<times> world) option" where
  "sgm_get_user_pages m start count to_user w = do {
     let nr = nr_pages start count;
     BUG_ON (mapped_pages m > 0);
     if start + count < start then Some (- EINVAL, m, w)
     else if nr > int (max_pages m) then Some (- EINVAL, m, w)
     else if count = 0 then Some (0, m, w)
     else do {
       let m = m\<lparr>sgl := sg_init_table (sgl m) (nat nr)\<rparr>;
       let (rc, w) = call_int (C_get_user_pages start (nat nr)) w;
       let got = map (\<lambda>i. kptr w (io w) (C_get_user_pages start i)) [0..<nat rc];
       let m = m\<lparr>pages := got @ replicate (nat nr - 1 - nat rc) 0 @
                   drop (max (nat nr - 1) (nat rc)) (pages m)\<rparr>;
       if rc < nr then do {
         w \<leftarrow> put_pages (pages m) (nat rc) w;
         Some (- ENOMEM, m\<lparr>mapped_pages := 0\<rparr>, w)
       } else do {
         BUG_ON (rc \<noteq> nr);
         sl \<leftarrow> sgm_populate (pages m) (nat nr) start count (sgl m);
         Some (nr, m\<lparr>mapped_pages := nat rc, sgl := sl\<rparr>, w) } } }"

text \<open>The pages of a vmalloc area, looked up one by one up to the first failure. On x86-64 no page is in
  high memory, so the check of \<^verbatim>\<open>PageHighMem\<close> never fires.\<close>

fun vmalloc_pages :: "nat \<Rightarrow> u64 \<Rightarrow> world \<Rightarrow> u64 list \<times> bool \<times> world" where
  "vmalloc_pages 0 virt w = ([], True, w)"
| "vmalloc_pages (Suc n) virt w = (case call_ptr (C_vmalloc_to_page virt) w of (p, w) \<Rightarrow>
     if p = 0 then ([0], False, w)
     else (case vmalloc_pages n (virt + PAGE_SIZE) w of (ps, ok, w) \<Rightarrow> (p # ps, ok, w)))"

definition sgm_kernel_pages ::
  "sg_mapping \<Rightarrow> u64 \<Rightarrow> u64 \<Rightarrow> bool \<Rightarrow> world \<Rightarrow> (int \<times> sg_mapping \<times> world) option" where
  "sgm_kernel_pages m start count to_user w = do {
     let nr = nr_pages start count;
     BUG_ON (mapped_pages m > 0);
     if start + count < start then Some (- EINVAL, m, w)
     else if nr > int (max_pages m) then Some (- EINVAL, m, w)
     else if count = 0 then Some (0, m, w)
     else do {
       let m = m\<lparr>sgl := sg_init_table (sgl m) (nat nr)\<rparr>;
       let (ps, ok, w) = vmalloc_pages (nat nr) start w;
       let m = m\<lparr>pages := ps @ drop (length ps) (pages m)\<rparr>;
       if \<not> ok then Some (- ENOMEM, m\<lparr>mapped_pages := 0\<rparr>, w)
       else do {
         sl \<leftarrow> sgm_populate (pages m) (nat nr) start count (sgl m);
         Some (nr, m\<lparr>mapped_pages := nat nr, sgl := sl\<rparr>, w) } } }"

section \<open>Page arithmetic\<close>

definition page_off :: "u64 \<Rightarrow> nat" where
  "page_off a = unat a mod 4096"

lemma offset_in_page: "unat (a AND (PAGE_SIZE - 1)) = page_off a"
  using unat_and_mask[of a 12] by (simp add: PAGE_SIZE_def page_off_def mask_eq_exp_minus_1)

lemma page_nr_div: "unat (page_nr a) = unat a div 4096"
proof -
  have m: "PAGE_MASK = NOT (mask 12)" by (simp add: PAGE_MASK_def PAGE_SIZE_def mask_eq_exp_minus_1)
  have "page_nr a = drop_bit 12 a"
    unfolding page_nr_def PAGE_SHIFT_def m by (rule bit_word_eqI) (auto simp: bit_simps dest: bit_imp_le_length)
  then show ?thesis by (simp add: drop_bit_eq_div unat_div_distrib)
qed

lemma unat64: "unat (x :: u64) < 2 ^ 64"
  using unsigned_less[of x, where 'a = nat] by simp

lemma no_wrap_add:
  fixes a b :: u64
  assumes "\<not> a + b < a"
  shows "unat (a + b) = unat a + unat b"
  using assms by (metis not_less unat_plus_simple)

lemma ucast_small [simp]: "n < 2 ^ 64 \<Longrightarrow> ucast (of_nat n :: u64) = (of_nat n :: u32)"
  by (simp add: unsigned_of_nat take_bit_nat_eq_self)

lemma ucast_up_small: "n < 2 ^ 32 \<Longrightarrow> ucast (of_nat n :: u32) = (of_nat n :: u64)"
  by (simp add: unsigned_of_nat take_bit_nat_eq_self)

definition page_count :: "u64 \<Rightarrow> u64 \<Rightarrow> nat" where
  "page_count start count = (page_off start + unat count - 1) div 4096 + 1"

lemma nr_pages_eq:
  assumes "\<not> start + count < start" and "count \<noteq> 0" and "page_count start count < 2 ^ 31"
  shows "nr_pages start count = int (page_count start count)"
proof -
  have c: "0 < unat count" using assms(2) by (simp add: unat_gt_0)
  have "unat (start + count - 1) = unat start + unat count - 1"
    using no_wrap_add[OF assms(1)] c by (subst unat_minus_one) auto
  moreover have "unat start + unat count - 1 = 4096 * (unat start div 4096) + (page_off start + unat count - 1)"
    using c by (simp add: page_off_def algebra_simps)
  ultimately have "unat (page_nr (start + count - 1)) =
      unat (page_nr start) + (page_off start + unat count - 1) div 4096"
    by (simp add: page_nr_div)
  from arg_cong[OF this, of "of_nat :: nat \<Rightarrow> u64"]
  have "page_nr (start + count - 1) = page_nr start + of_nat ((page_off start + unat count - 1) div 4096)"
    by simp
  then have "page_nr (start + count - 1) - page_nr start + 1 = of_nat (page_count start count)"
    by (simp add: page_count_def)
  then show ?thesis using assms(3) by (simp add: nr_pages_def)
qed

section \<open>The scatterlist covers the buffer\<close>

text \<open>The part of the buffer in its \<open>i\<close>-th page: of the byte range \<open>[off, off + c)\<close> counted from the first
  page boundary, what lies in \<open>[4096 i, 4096 (i + 1))\<close>.\<close>

definition seg_off :: "nat \<Rightarrow> nat \<Rightarrow> nat" where
  "seg_off off i = (if i = 0 then off else 0)"

definition seg_len :: "nat \<Rightarrow> nat \<Rightarrow> nat \<Rightarrow> nat" where
  "seg_len off c i = min (off + c) (4096 * (i + 1)) - max off (4096 * i)"

definition seg_entry :: "nat \<Rightarrow> nat \<Rightarrow> u64 \<Rightarrow> nat \<Rightarrow> sg_entry \<Rightarrow> sg_entry" where
  "seg_entry off c p i e =
     e\<lparr>sg_page := p, sg_offset := of_nat (seg_off off i), sg_length := of_nat (seg_len off c i)\<rparr>"

lemma seg_len_sum:
  assumes "off < 4096"
  shows "(\<Sum>i < n. seg_len off c i) = min (off + c) (4096 * n) - min off (4096 * n)"
proof (induction n)
  case (Suc n)
  have "min (off + c) (4096 * n) - min off (4096 * n) + seg_len off c n =
      min (off + c) (4096 * Suc n) - min off (4096 * Suc n)"
    using assms by (cases "n = 0") (auto simp: seg_len_def min_def max_def)
  then show ?case by (simp only: sum.lessThan_Suc Suc.IH)
qed simp

lemma seg_len_sum_all:
  assumes "off < 4096" and "0 < c" and "n = (off + c - 1) div 4096 + 1"
  shows "(\<Sum>i < n. seg_len off c i) = c"
proof -
  have "off + c \<le> 4096 * n" "off \<le> 4096 * n" using assms by auto
  then show ?thesis by (simp add: seg_len_sum[OF assms(1)] min_def)
qed

lemma seg_bounds:
  fixes off c n :: nat
  shows "0 < c \<Longrightarrow> n = (off + c - 1) div 4096 + 1 \<Longrightarrow> 4096 * (n - 1) < off + c \<and> off + c \<le> 4096 * n"
  by (auto simp: less_mult_imp_div_less)

lemma seg_size: "off < 4096 \<Longrightarrow> seg_off off i + seg_len off c i \<le> 4096"
  by (auto simp: seg_len_def seg_off_def max_def min_def)

lemma seg_full:
  assumes "off < 4096" and "0 < c" and "n = (off + c - 1) div 4096 + 1" and "Suc i < n"
  shows "seg_off off i + seg_len off c i = 4096"
proof -
  have "4096 * Suc i \<le> 4096 * (n - 1)" using assms(4) by (intro mult_le_mono2) simp
  with seg_bounds[OF assms(2,3)] have "4096 * (i + 1) \<le> off + c" by simp
  then show ?thesis using assms(1) by (auto simp: seg_len_def seg_off_def max_def min_def)
qed

lemma seg_entry_unat:
  assumes "off < 4096"
  shows "unat (sg_length (seg_entry off c p i e)) = seg_len off c i"
    and "unat (sg_offset (seg_entry off c p i e)) = seg_off off i"
    and "sg_page (seg_entry off c p i e) = p"
  using seg_size[OF assms, of i c] by (simp_all add: seg_entry_def)

lemma sgm_middle_run:
  assumes "n < length pgs" "n < length sl" and "n + 1 < nr" and "4096 * (n + 1) \<le> t"
  and "t < 2 ^ 64"
  shows "sgm_middle pgs n (sl, of_nat (t - 4096 * n)) =
    Some (sl[n := (sl ! n)\<lparr>sg_page := pgs ! n, sg_offset := 0, sg_length := 4096\<rparr>], of_nat (t - 4096 * (n + 1)))"
proof -
  have "unat (of_nat (t - 4096 * n) :: u64) = t - 4096 * n"
    using assms by (intro unat_small64) simp
  then have "\<not> (of_nat (t - 4096 * n) :: u64) < 4096"
    using assms unfolding word_less_nat_alt by simp
  moreover have "(of_nat (t - 4096 * n) :: u64) - 4096 = of_nat (t - 4096 * (n + 1))"
    using assms by (simp add: of_nat_diff algebra_simps)
  ultimately show ?thesis
    using assms by (simp add: sgm_middle_def sg_set_page_def PAGE_SIZE_def)
qed

lemma first_entry_left:
  assumes o: "off < 4096" and ge: "4096 \<le> off + c" and cw: "count = of_nat c"
  shows "(count :: u64) - ucast (4096 - of_nat off :: u32) = of_nat (off + c - 4096)"
proof -
  have u: "(4096 - of_nat off :: u32) = of_nat (4096 - off)" using o by (simp add: of_nat_diff)
  have "(ucast (of_nat (4096 - off) :: u32) :: u64) = of_nat (4096 - off)"
    by (rule ucast_up_small) simp
  then have "count - ucast (4096 - of_nat off :: u32) = of_nat c - of_nat (4096 - off)"
    unfolding u cw by (rule arg_cong)
  also have "\<dots> = of_nat (c - (4096 - off))" using ge by (intro of_nat_diff[symmetric]) simp
  also have "c - (4096 - off) = off + c - 4096" using o ge by simp
  finally show ?thesis .
qed

text \<open>The loop over the pages between the first and the last one.\<close>

definition sgm_filled :: "nat \<Rightarrow> nat \<Rightarrow> u64 list \<Rightarrow> sg_entry list \<Rightarrow> nat \<Rightarrow> sg_entry list \<times> u64 \<Rightarrow> bool" where
  "sgm_filled off c pgs sl k s \<longleftrightarrow> snd s = of_nat (off + c - 4096 * k) \<and> length (fst s) = length sl \<and>
    (\<forall>i < length sl. fst s ! i = (if i < k then seg_entry off c (pgs ! i) i (sl ! i) else sl ! i))"

lemma sgm_middle_loop:
  assumes o: "off < 4096" and w: "off + c < 2 ^ 64" and big: "4096 * (nr - 1) < off + c" and many: "nr > 1"
    and len: "nr \<le> length pgs" "nr \<le> length sl" and P1: "sgm_filled off c pgs sl 1 s"
  shows "\<exists>s'. for_range 1 (nr - 2) (sgm_middle pgs) s = Some s' \<and> sgm_filled off c pgs sl (nr - 1) s'"
proof -
  let ?P = "sgm_filled off c pgs sl"
  have "\<exists>s'. for_range 1 (nr - 2) (sgm_middle pgs) s = Some s' \<and> ?P (1 + (nr - 2)) s'"
  proof (rule for_range_total[where P = ?P, OF P1])
    fix k s assume k: "1 \<le> k" "k < 1 + (nr - 2)" and P: "?P k s"
    have k': "k + 1 < nr" using k by simp
    then have "4096 * (k + 1) \<le> 4096 * (nr - 1)" by (intro mult_le_mono2) simp
    with big have le: "4096 * (k + 1) \<le> off + c" by (rule less_imp_le[OF le_less_trans, rotated])
    let ?e = "(fst s ! k)\<lparr>sg_page := pgs ! k, sg_offset := 0, sg_length := 4096\<rparr>"
    have "sgm_middle pgs k (fst s, snd s) = Some ((fst s)[k := ?e], of_nat (off + c - 4096 * (k + 1)))"
      using sgm_middle_run[of k pgs "fst s" nr "off + c"] P k' le w len by (simp add: sgm_filled_def)
    moreover have "?e = seg_entry off c (pgs ! k) k (sl ! k)"
      using P k' k le o len by (simp add: seg_entry_def seg_off_def seg_len_def sgm_filled_def)
    ultimately show "\<exists>s'. sgm_middle pgs k s = Some s' \<and> ?P (Suc k) s'"
      using P k' len by (cases s) (auto simp: nth_list_update less_Suc_eq sgm_filled_def)
  qed
  moreover have "1 + (nr - 2) = nr - 1" using many by simp
  ultimately show ?thesis by metis
qed

lemma sgm_populate_many:
  assumes off: "off = page_off start" and c: "c = unat count" "0 < c" and w: "off + c < 2 ^ 64"
    and nr: "nr = (off + c - 1) div 4096 + 1"
    and many: "nr > 1"
    and len: "nr \<le> length pgs" "nr \<le> length sl"
  shows "\<exists>sl'. sgm_populate pgs nr start count sl = Some sl' \<and> length sl' = length sl \<and>
    (\<forall>i < length sl. sl' ! i = (if i < nr then seg_entry off c (pgs ! i) i (sl ! i) else sl ! i))"
proof -
  have o: "off < 4096" by (simp add: off page_off_def)
  have so: "(ucast (start AND (PAGE_SIZE - 1)) :: u32) = of_nat off"
    by (metis off of_nat_unat offset_in_page)
  have cw: "count = of_nat c" by (simp add: c)
  have ne: "pgs \<noteq> []" "sl \<noteq> []" using len nr by auto
  let ?s0 = "(sl ! 0)\<lparr>sg_page := pgs ! 0, sg_offset := of_nat off, sg_length := 0\<rparr>"
  have big: "4096 * (nr - 1) < off + c" "off + c \<le> 4096 * nr" using seg_bounds[OF c(2) nr] by auto
  let ?sl1 = "sl[0 := ?s0\<lparr>sg_length := 4096 - of_nat off\<rparr>]"
  have ge: "4096 \<le> off + c" using big(1) many by (cases nr) auto
  note cnt = first_entry_left[OF o ge cw]
  have e0: "seg_entry off c (pgs ! 0) 0 (sl ! 0) = ?s0\<lparr>sg_length := 4096 - of_nat off\<rparr>"
    using ge o by (simp add: seg_entry_def seg_off_def seg_len_def)
  have "sgm_filled off c pgs sl 1 (?sl1, count - ucast (4096 - of_nat off :: u32))"
    using e0 cnt ne by (auto simp: nth_list_update sgm_filled_def)
  from sgm_middle_loop[OF o w big(1) many len this] obtain sl2 where loop: "for_range 1 (nr - 2) (sgm_middle pgs)
        (?sl1, count - ucast (4096 - of_nat off :: u32)) = Some (sl2, of_nat (off + c - 4096 * (nr - 1)))"
    and P: "length sl2 = length sl" "\<forall>i < length sl. sl2 ! i = (if i < nr - 1 then seg_entry off c (pgs ! i) i (sl ! i) else sl ! i)"
    by (auto simp: sgm_filled_def)
  let ?r = "off + c - 4096 * (nr - 1)"
  have r: "?r \<le> 4096" "0 < ?r" using big many by auto
  have nb: "\<not> (of_nat ?r :: u64) > PAGE_SIZE"
    using r unat_small64[of ?r] unfolding word_less_nat_alt PAGE_SIZE_def by simp
  let ?e = "(sl2 ! (nr - 1))\<lparr>sg_page := pgs ! (nr - 1), sg_offset := 0, sg_length := of_nat ?r\<rparr>"
  have uc: "(ucast (of_nat ?r :: u64) :: u32) = of_nat ?r" by (rule ucast_small) (use r in simp)
  have "sgm_populate pgs nr start count sl = Some (sl2[nr - 1 := ?e])"
    using many ne so loop nb uc P len
    by (simp add: sgm_populate_def sg_set_page_def del: of_nat_diff)
  moreover have "?e = seg_entry off c (pgs ! (nr - 1)) (nr - 1) (sl ! (nr - 1))"
    using P many big o len by (simp add: seg_entry_def seg_off_def seg_len_def)
  ultimately show ?thesis
    using P many len by (intro exI[of _ "sl2[nr - 1 := ?e]"]) (auto simp: nth_list_update)
qed

lemma sgm_populate_run:
  assumes off: "off = page_off start" and c: "c = unat count" "0 < c" and w: "off + c < 2 ^ 64"
    and nr: "nr = (off + c - 1) div 4096 + 1"
    and len: "nr \<le> length pgs" "nr \<le> length sl"
  shows "\<exists>sl'. sgm_populate pgs nr start count sl = Some sl' \<and> length sl' = length sl \<and>
    (\<forall>i < length sl. sl' ! i = (if i < nr then seg_entry off c (pgs ! i) i (sl ! i) else sl ! i))"
proof (cases "nr > 1")
  case True
  from sgm_populate_many[OF assms(1-5) this assms(6-)] show ?thesis .
next
  case False
  have o: "off < 4096" by (simp add: off page_off_def)
  have so: "(ucast (start AND (PAGE_SIZE - 1)) :: u32) = of_nat off"
    by (metis off of_nat_unat offset_in_page)
  have cw: "count = of_nat c" by (simp add: c)
  have ne: "pgs \<noteq> []" "sl \<noteq> []" using len nr by auto
  let ?s0 = "(sl ! 0)\<lparr>sg_page := pgs ! 0, sg_offset := of_nat off, sg_length := 0\<rparr>"
  from False have "off + c \<le> 4096" using nr c by (simp add: div_eq_0_iff)
  then have e: "seg_entry off c (pgs ! 0) 0 (sl ! 0) = ?s0\<lparr>sg_length := of_nat c\<rparr>"
    by (simp add: seg_entry_def seg_off_def seg_len_def min_def)
  have "sgm_populate pgs nr start count sl = Some (sl[0 := ?s0\<lparr>sg_length := of_nat c\<rparr>])"
    using False ne so w by (simp add: sgm_populate_def sg_set_page_def cw)
  moreover have "nr = 1" using False nr by simp
  ultimately show ?thesis using ne e by (auto simp: nth_list_update)
qed

lemma put_pages_run:
  assumes "n \<le> length pgs"
  shows "put_pages pgs n w = Some (w\<lparr>io := io w @ map (\<lambda>p. KV (C_put_page p)) (take n pgs)\<rparr>)"
proof -
  have "\<exists>w'. put_pages pgs n w = Some w' \<and>
      w' = w\<lparr>io := io w @ map (\<lambda>p. KV (C_put_page p)) (take (0 + n) pgs)\<rparr>"
    unfolding put_pages_def
    by (rule for_range_total[where P = "\<lambda>k v. v = w\<lparr>io := io w @ map (\<lambda>p. KV (C_put_page p)) (take k pgs)\<rparr>"])
      (use assms in \<open>auto simp: take_Suc_conv_app_nth call_void_def emit_def\<close>)
  then show ?thesis by simp
qed

text \<open>The pages the kernel hands out for a buffer.\<close>

definition user_pages :: "u64 \<Rightarrow> int \<Rightarrow> world \<Rightarrow> u64 list" where
  "user_pages start rc w = map (\<lambda>i. kptr w (io w) (C_get_user_pages start i)) [0..<nat rc]"

section \<open>Properties\<close>

text \<open>C12. When the kernel pins every page of a non-empty buffer, \<^verbatim>\<open>sgm_get_user_pages\<close> returns their
  number and a scatterlist that covers the buffer exactly: entry \<open>i\<close> lies in page \<open>i\<close>, the first entry
  starts at the offset of the buffer, every other at the start of its page, every entry but the last
  ends at the end of its page, and the lengths add up to the size of the buffer.\<close>

theorem sgm_get_user_pages_covers:
  assumes m: "mapped_pages m = 0" "length (pages m) = max_pages m" "length (sgl m) = max_pages m"
    and buf: "\<not> start + count < start" "count \<noteq> 0"
    and fits: "page_count start count \<le> max_pages m" "max_pages m < 2 ^ 31"
    and kern: "kint w (io w) (C_get_user_pages start (page_count start count)) = int (page_count start count)"
  shows "\<exists>m' w'. sgm_get_user_pages m start count to_user w = Some (int (page_count start count), m', w') \<and>
    mapped_pages m' = page_count start count \<and>
    take (page_count start count) (pages m') = user_pages start (int (page_count start count)) w' \<and>
    (\<forall>i < page_count start count. let e = sgl m' ! i in
       sg_page e = pages m' ! i \<and> unat (sg_offset e) = (if i = 0 then page_off start else 0) \<and>
       unat (sg_offset e) + unat (sg_length e) \<le> 4096 \<and>
       (Suc i < page_count start count \<longrightarrow> unat (sg_offset e) + unat (sg_length e) = 4096)) \<and>
    (\<Sum>i < page_count start count. unat (sg_length (sgl m' ! i))) = unat count"
proof -
  let ?n = "page_count start count" and ?off = "page_off start" and ?c = "unat count"
  let ?w = "emit (KI (C_get_user_pages start ?n) (int ?n)) w"
  let ?pgs = "user_pages start (int ?n) ?w @ replicate (?n - 1 - ?n) 0 @ drop (max (?n - 1) ?n) (pages m)"
  let ?sl = "sg_init_table (sgl m) ?n"
  have nr: "nr_pages start count = int ?n" using nr_pages_eq[OF buf] fits by simp
  have c: "0 < ?c" using buf(2) by (simp add: unat_gt_0)
  have o: "?off < 4096" by (simp add: page_off_def)
  have "unat start + ?c < 2 ^ 64" using no_wrap_add[OF buf(1)] unat64[of "start + count"] by simp
  moreover have "?off \<le> unat start" by (simp add: page_off_def)
  ultimately have w: "?off + ?c < 2 ^ 64" by linarith
  have n: "?n = (?off + ?c - 1) div 4096 + 1" by (simp add: page_count_def)
  have len: "?n \<le> length ?pgs" "?n \<le> length ?sl" by (simp_all add: user_pages_def sg_init_table_def)
  from sgm_populate_run[OF refl refl c w n len] obtain sl' where
    sl': "sgm_populate ?pgs ?n start count ?sl = Some sl'" and
    e: "\<And>i. i < ?n \<Longrightarrow> sl' ! i = seg_entry ?off ?c (?pgs ! i) i (?sl ! i)"
    by (metis (no_types, lifting) len(2) less_le_trans)
  let ?m = "m\<lparr>sgl := sl', pages := ?pgs, mapped_pages := ?n\<rparr>"
  have run: "sgm_get_user_pages m start count to_user w = Some (int ?n, ?m, ?w)"
    using m buf fits kern sl'
    by (simp add: sgm_get_user_pages_def nr call_int_def Let_def user_pages_def)
  note us = seg_entry_unat[OF o]
  show ?thesis
    by (intro exI[of _ ?m] exI[of _ ?w] conjI run)
      (auto simp: e us seg_size[OF o] seg_full[OF o c n] seg_len_sum_all[OF o c n]
        seg_off_def[symmetric] user_pages_def Let_def)
qed

theorem sgm_get_user_pages_covers_witness:
  "\<exists>m' w'. sgm_get_user_pages
       \<lparr>sgm_ptr = 1, sgl_ptr = 2, pages_ptr = 3, sgl = replicate 4 zero_sg, pages = replicate 4 0,
        max_pages = 4, mapped_pages = 0\<rparr> 0x1F00 0x1200 True (quiet_world\<lparr>kint := \<lambda>_ _. 3\<rparr>) = Some (3, m', w') \<and>
     (\<Sum>i < 3. unat (sg_length (sgl m' ! i))) = 0x1200"
proof -
  have n: "page_count 0x1F00 0x1200 = 3" by (simp add: page_count_def page_off_def)
  show ?thesis
    using sgm_get_user_pages_covers[where m = "\<lparr>sgm_ptr = 1, sgl_ptr = 2, pages_ptr = 3,
        sgl = replicate 4 zero_sg, pages = replicate 4 0, max_pages = 4, mapped_pages = 0\<rparr>"
        and start = "0x1F00" and count = "0x1200" and w = "quiet_world\<lparr>kint := \<lambda>_ _. 3\<rparr>" and to_user = True]
    unfolding n by (auto simp: word_less_nat_alt)
qed



lemma sgm_put_user_pages_run:
  assumes "mapped_pages m \<le> length (pages m)"
  shows "sgm_put_user_pages m False w =
    Some (m\<lparr>mapped_pages := 0\<rparr>, w\<lparr>io := io w @ map (\<lambda>p. KV (C_put_page p)) (take (mapped_pages m) (pages m))\<rparr>)"
  using assms by (simp add: sgm_put_user_pages_def put_pages_run)

end
