(* ===== verification/Xdma_Engine.thy ===== *)
theory Xdma_Engine
  imports Xdma_Sgm
begin

text \<open>
  The SG DMA engine of \<^verbatim>\<open>xdma-core.c\<close>: its registers, its queue of transfers, starting and stopping
  it, and the service routine that retires completed transfers.

  An operation takes the engine and the world and returns both. A transfer is named by its address;
  the queue \<^const>\<open>transfer_list\<close> holds the addresses in order. All operations run under the engine's
  spinlock, so one call is one atomic step; \<^verbatim>\<open>WARN_ON\<close> and debug output have no effect on the state.
\<close>

section \<open>Interrupt block registers\<close>

definition build_u32 :: "u32 \<Rightarrow> u32 \<Rightarrow> u32" where
  "build_u32 hi lo = push_bit 16 (hi AND 0xFFFF) OR (lo AND 0xFFFF)"

definition build_u64 :: "u64 \<Rightarrow> u64 \<Rightarrow> u64" where
  "build_u64 hi lo = push_bit 32 (hi AND 0xFFFFFFF) OR (lo AND 0xFFFFFFFF)"

text \<open>The address of a register of the interrupt block of a device.\<close>

definition int_ctrl :: "xdma_dev \<Rightarrow> irq_reg \<Rightarrow> u64 option" where
  "int_ctrl lro r = do { b \<leftarrow> config_bar lro; Some (b + XDMA_OFS_INT_CTRL + ir r) }"

definition channel_interrupts_enable :: "xdma_dev \<Rightarrow> u32 \<Rightarrow> world \<Rightarrow> world option" where
  "channel_interrupts_enable lro m w = do {
     a \<leftarrow> int_ctrl lro I_channel_int_enable_w1s; Some (write_register m a w) }"

definition channel_interrupts_disable :: "xdma_dev \<Rightarrow> u32 \<Rightarrow> world \<Rightarrow> world option" where
  "channel_interrupts_disable lro m w = do {
     a \<leftarrow> int_ctrl lro I_channel_int_enable_w1c; Some (write_register m a w) }"

definition user_interrupts_enable :: "xdma_dev \<Rightarrow> u32 \<Rightarrow> world \<Rightarrow> world option" where
  "user_interrupts_enable lro m w = do {
     a \<leftarrow> int_ctrl lro I_user_int_enable_w1s; Some (write_register m a w) }"

definition user_interrupts_disable :: "xdma_dev \<Rightarrow> u32 \<Rightarrow> world \<Rightarrow> world option" where
  "user_interrupts_disable lro m w = do {
     a \<leftarrow> int_ctrl lro I_user_int_enable_w1c; Some (write_register m a w) }"

definition read_interrupts :: "xdma_dev \<Rightarrow> world \<Rightarrow> (u32 \<times> world) option" where
  "read_interrupts lro w = do {
     a \<leftarrow> int_ctrl lro I_user_int_request;
     b \<leftarrow> int_ctrl lro I_channel_int_request;
     let (hi, w) = read_register a w;
     let (lo, w) = read_register b w;
     Some (build_u32 hi lo, w) }"

section \<open>Starting and stopping\<close>

definition engine_status_read :: "xdma_engine \<Rightarrow> bool \<Rightarrow> world \<Rightarrow> u32 \<times> xdma_engine \<times> world" where
  "engine_status_read e clear w =
    (let (v, w) = read_register (regs e + er (if clear then R_status_rc else R_status)) w
     in (v, e\<lparr>status := v\<rparr>, w))"

definition stop_control :: "xdma_engine \<Rightarrow> bool \<Rightarrow> u32" where
  "stop_control e poll =
    (let v = XDMA_CTRL_IE_DESC_ALIGN_MISMATCH OR XDMA_CTRL_IE_MAGIC_STOPPED OR XDMA_CTRL_IE_READ_ERROR
               OR XDMA_CTRL_IE_DESC_ERROR in
     if poll then v OR XDMA_CTRL_POLL_MODE_WB
     else let v = v OR XDMA_CTRL_IE_DESC_STOPPED OR XDMA_CTRL_IE_DESC_COMPLETED in
       if (streaming e \<and> \<not> dir_to_dev e) \<or> xdma_perf e \<noteq> None then v OR XDMA_CTRL_IE_IDLE_STOPPED else v)"

definition xdma_engine_stop :: "xdma_engine \<Rightarrow> world \<Rightarrow> world" where
  "xdma_engine_stop e w = write_register (stop_control e (poll_mode w)) (regs e + er R_control) w"

definition engine_cyclic_stop :: "xdma_engine \<Rightarrow> world \<Rightarrow> (u64 \<times> world) option" where
  "engine_cyclic_stop e w = (case transfer_list e of
     [] \<Rightarrow> Some (0, w)
   | p # _ \<Rightarrow> do {
       let w = xdma_engine_stop e w;
       t \<leftarrow> xfers w p;
       if cyclic t then do {
         w \<leftarrow> xfer_upd p (\<lambda>t. t\<lparr>cyclic := True\<rparr>) w;
         w \<leftarrow> xdma_desc_control (desc_ptr (desc_virt t) (desc_num t - 1))
                (XDMA_DESC_COMPLETED OR XDMA_DESC_STOPPED) w;
         Some (p, w)
       } else Some (p, w) })"

definition perf_intr_mask :: u32 where
  "perf_intr_mask = XDMA_CTRL_IE_DESC_STOPPED OR XDMA_CTRL_IE_DESC_COMPLETED OR
     XDMA_CTRL_IE_DESC_ALIGN_MISMATCH OR XDMA_CTRL_IE_MAGIC_STOPPED OR XDMA_CTRL_IE_IDLE_STOPPED OR
     XDMA_CTRL_IE_READ_ERROR OR XDMA_CTRL_IE_DESC_ERROR"

definition start_control :: "xdma_engine \<Rightarrow> bool \<Rightarrow> u32" where
  "start_control e poll =
    (let v = XDMA_CTRL_RUN_STOP OR XDMA_CTRL_IE_READ_ERROR OR XDMA_CTRL_IE_DESC_ERROR OR
               XDMA_CTRL_IE_DESC_ALIGN_MISMATCH OR XDMA_CTRL_IE_MAGIC_STOPPED in
     if poll then v OR XDMA_CTRL_POLL_MODE_WB
     else let v = v OR XDMA_CTRL_IE_DESC_STOPPED OR XDMA_CTRL_IE_DESC_COMPLETED;
              v = (if streaming e \<and> \<not> dir_to_dev e then v OR XDMA_CTRL_IE_IDLE_STOPPED else v);
              v = (if xdma_perf e \<noteq> None then v OR XDMA_CTRL_IE_IDLE_STOPPED else v)
       in if non_incr_addr e then v OR XDMA_CTRL_NON_INCR_ADDR else v)"

definition engine_start_mode_config :: "xdma_engine \<Rightarrow> world \<Rightarrow> world" where
  "engine_start_mode_config e w =
    (let w = (if xdma_perf e \<noteq> None
              then write_register perf_intr_mask (regs e + er R_interrupt_enable_mask) w else w);
         w = write_register (start_control e (poll_mode w)) (regs e + er R_control) w;
         (_, w) = read_register (regs e + er R_status) w
     in w)"

definition engine_start :: "xdma_engine \<Rightarrow> world \<Rightarrow> (u64 \<times> xdma_engine \<times> world) option" where
  "engine_start e w = do {
     BUG_ON (running e);
     BUG_ON (transfer_list e = []);
     let p = hd (transfer_list e);
     BUG_ON (p = 0);
     t \<leftarrow> xfers w p;
     let e = e\<lparr>shutdown := ENGINE_SHUTDOWN_NONE, desc_dequeued := 0\<rparr>;
     let w = write_register (ucast (PCI_DMA_L (desc_bus t))) (sgdma_regs e + sr S_first_desc_lo) w;
     let w = write_register (ucast (PCI_DMA_H (desc_bus t))) (sgdma_regs e + sr S_first_desc_hi) w;
     let extra_adj = (if desc_adjacent t > 0 then min (desc_adjacent t - 1) MAX_EXTRA_ADJ else 0);
     let w = write_register (of_nat extra_adj) (sgdma_regs e + sr S_first_desc_adjacent) w;
     let w = engine_start_mode_config e w;
     Some (p, e\<lparr>running := True\<rparr>, w) }"

definition engine_service_shutdown :: "xdma_engine \<Rightarrow> world \<Rightarrow> xdma_engine \<times> world" where
  "engine_service_shutdown e w =
    (let w = xdma_engine_stop e w;
         e = e\<lparr>running := False\<rparr>;
         w = call_void (C_wake_up ''shutdown_wq'') w
     in (e, w))"

section \<open>The transfer queue\<close>

definition transfer_queue :: "xdma_engine \<Rightarrow> u64 \<Rightarrow> world \<Rightarrow> (int \<times> xdma_engine \<times> world) option" where
  "transfer_queue e p w = do {
     BUG_ON (p = 0);
     t \<leftarrow> xfers w p;
     BUG_ON (desc_num t = 0);
     if shutdown e AND ENGINE_SHUTDOWN_REQUEST \<noteq> 0 then Some (-1, e, w)
     else do {
       w \<leftarrow> xfer_upd p (\<lambda>t. t\<lparr>state := TRANSFER_STATE_SUBMITTED\<rparr>) w;
       let e = e\<lparr>transfer_list := transfer_list e @ [p]\<rparr>;
       if \<not> running e then do {
         (_, e, w) \<leftarrow> engine_start e w;
         Some (0, e, w)
       } else Some (0, e, w) } }"

text \<open>\<^verbatim>\<open>engine_transfer_dequeue\<close>. On an empty queue the C code would take the list head itself for a
  transfer; every caller checks first.\<close>

definition engine_transfer_dequeue :: "xdma_engine \<Rightarrow> world \<Rightarrow> xdma_engine option" where
  "engine_transfer_dequeue e w = (case transfer_list e of
     [] \<Rightarrow> None
   | p # ps \<Rightarrow> do {
       BUG_ON (p \<noteq> rx_transfer_cyclic e);
       Some (e\<lparr>transfer_list := ps\<rparr>) })"

definition transfer_destroy :: "u64 \<Rightarrow> world \<Rightarrow> world option" where
  "transfer_destroy p w = do {
     t \<leftarrow> xfers w p;
     w \<leftarrow> (case sgm t of
             None \<Rightarrow> Some w
           | Some m \<Rightarrow> do {
               let w = call_void (C_dma_unmap_sg (mapped_pages m)) w;
               (m, w) \<leftarrow> (if userspace t then sgm_put_user_pages m (\<not> xfer_dir_to_dev t) w else Some (m, w));
               let m = m\<lparr>mapped_pages := 0\<rparr>;
               sg_destroy_mapper m w });
     w \<leftarrow> xdma_desc_free (sgl_nents t) (desc_virt t) (desc_bus t) w;
     Some (kfree_transfer p w) }"

section \<open>Servicing\<close>

definition engine_transfer_completion :: "u64 \<Rightarrow> world \<Rightarrow> (u64 \<times> world) option" where
  "engine_transfer_completion p w = do {
     BUG_ON (p = 0);
     t \<leftarrow> xfers w p;
     if iocb t \<noteq> 0 \<and> last_in_request t then do {
       w \<leftarrow> transfer_destroy p w;
       Some (0, call_void (C_aio_complete (iocb t) (size_of_request t)) w)
     } else Some (p, call_void (C_wake_up ''transfer_wq'') w) }"

text \<open>The loop of \<^verbatim>\<open>engine_service_transfer_list\<close> retires the head of the queue as long as more
  descriptors completed than it has; it ends because each round shortens the queue.\<close>

fun service_transfer_loop ::
  "u64 list \<Rightarrow> u64 \<Rightarrow> u32 \<Rightarrow> xdma_engine \<Rightarrow> world \<Rightarrow> (u64 \<times> u32 \<times> xdma_engine \<times> world) option" where
  "service_transfer_loop q p n e w =
    (if p = 0 then Some (p, n, e, w)
     else do {
       t \<leftarrow> xfers w p;
       if \<not> cyclic t \<and> n > of_nat (desc_num t) then
         (case q of
            [] \<Rightarrow> None
          | _ # ps \<Rightarrow> do {
              let n = n - of_nat (desc_num t);
              let e = e\<lparr>transfer_list := ps, desc_dequeued := desc_dequeued e + desc_num t\<rparr>;
              w \<leftarrow> xfer_upd p (\<lambda>t. t\<lparr>state := TRANSFER_STATE_COMPLETED\<rparr>) w;
              (_, w) \<leftarrow> engine_transfer_completion p w;
              let p = (case ps of [] \<Rightarrow> 0 | p' # _ \<Rightarrow> p');
              service_transfer_loop ps p n e w })
       else Some (p, n, e, w) })"

definition engine_service_transfer_list ::
  "xdma_engine \<Rightarrow> u64 \<Rightarrow> u32 \<Rightarrow> world \<Rightarrow> (u64 \<times> u32 \<times> xdma_engine \<times> world) option" where
  "engine_service_transfer_list e p n w = do {
     BUG_ON (p = 0);
     service_transfer_loop (transfer_list e) p n e w }"

definition engine_err_handle :: "xdma_engine \<Rightarrow> u64 \<Rightarrow> world \<Rightarrow> world option" where
  "engine_err_handle e p w = do {
     let w = (if status e AND XDMA_STAT_BUSY \<noteq> 0 then snd (read_register (regs e + er R_status) w) else w);
     w \<leftarrow> xfer_upd p (\<lambda>t. t\<lparr>state := TRANSFER_STATE_FAILED\<rparr>) w;
     Some (xdma_engine_stop e w) }"

definition err_flags :: u32 where
  "err_flags = XDMA_STAT_MAGIC_STOPPED OR XDMA_STAT_ALIGN_MISMATCH OR XDMA_STAT_READ_ERROR OR XDMA_STAT_DESC_ERROR"

definition engine_service_final_transfer ::
  "xdma_engine \<Rightarrow> u64 \<Rightarrow> u32 \<Rightarrow> world \<Rightarrow> (u64 \<times> xdma_engine \<times> world) option" where
  "engine_service_final_transfer e p n w = do {
     BUG_ON (p = 0);
     t \<leftarrow> xfers w p;
     if status e AND err_flags \<noteq> 0 then do {
       w \<leftarrow> engine_err_handle e p w;
       Some (p, e, w)
     } else do {
       let st = (if n < of_nat (desc_num t) then TRANSFER_STATE_FAILED else TRANSFER_STATE_COMPLETED);
       w \<leftarrow> xfer_upd p (\<lambda>t. t\<lparr>state := st\<rparr>) w;
       (case transfer_list e of
          [] \<Rightarrow> None
        | _ # ps \<Rightarrow> do {
            let e = e\<lparr>transfer_list := ps, desc_dequeued := desc_dequeued e + desc_num t\<rparr>;
            (p, w) \<leftarrow> engine_transfer_completion p w;
            Some (p, e, w) }) } }"

definition engine_service_perf :: "xdma_engine \<Rightarrow> u32 \<Rightarrow> world \<Rightarrow> xdma_engine \<times> world" where
  "engine_service_perf e n w = (case xdma_perf e of
     None \<Rightarrow> (e, w)
   | Some pf \<Rightarrow>
       let pf = (if status e AND XDMA_STAT_DESC_COMPLETED \<noteq> 0 then pf\<lparr>iterations := n\<rparr> else pf) in
       if status e AND XDMA_STAT_DESC_STOPPED \<noteq> 0
       then (e\<lparr>xdma_perf := Some (pf\<lparr>stopped := 1\<rparr>)\<rparr>, call_void (C_wake_up ''xdma_perf_wq'') w)
       else (e\<lparr>xdma_perf := Some pf\<rparr>, w))"

definition engine_service_resume :: "xdma_engine \<Rightarrow> world \<Rightarrow> (xdma_engine \<times> world) option" where
  "engine_service_resume e w =
    (if \<not> running e then
       if shutdown e AND ENGINE_SHUTDOWN_REQUEST \<noteq> 0 then
         Some (e\<lparr>shutdown := shutdown e OR ENGINE_SHUTDOWN_IDLE\<rparr>, call_void (C_wake_up ''shutdown_wq'') w)
       else if transfer_list e \<noteq> [] then do { (_, e, w) \<leftarrow> engine_start e w; Some (e, w) }
       else Some (e, w)
     else Some (e, w))"

definition engine_service :: "xdma_engine \<Rightarrow> u32 \<Rightarrow> world \<Rightarrow> (int \<times> xdma_engine \<times> world) option" where
  "engine_service e desc_writeback w = do {
     let desc_count = desc_writeback AND WB_COUNT_MASK;
     let err_flag = desc_writeback AND WB_ERR_MASK;
     let rc = (if err_flag \<noteq> 0 then -1 else 0);
     if \<not> running e then
       Some (0, if desc_writeback = 0 then snd (engine_status_read e True w) else (e, w))
     else do {
       let (e, w) = (if desc_count = 0 \<or> err_flag \<noteq> 0 then snd (engine_status_read e True w) else (e, w));
       let (e, w) = (if status e AND XDMA_STAT_BUSY = 0 \<or> desc_count \<noteq> 0
                     then engine_service_shutdown e w else (e, w));
       let (desc_count, w) = (if desc_count = 0
             then read_register (regs e + er R_completed_desc_count) w else (desc_count, w));
       let (p, e, w) = (case transfer_list e of [] \<Rightarrow> (0, e, w)
                        | p # _ \<Rightarrow> (case engine_service_perf e desc_count w of (e, w) \<Rightarrow> (p, e, w)));
       let desc_count = desc_count - of_nat (desc_dequeued e);
       (p, desc_count, e, w) \<leftarrow> engine_service_transfer_list e p desc_count w;
       (p, e, w) \<leftarrow> engine_service_final_transfer e p desc_count w;
       let w = (if poll_mode w then write_register 0 (poll_mode_addr_virt e) w else w);
       (e, w) \<leftarrow> engine_service_resume e w;
       Some (rc, e, w) } }"

section \<open>The contract of the queue\<close>

text \<open>A queued transfer as synchronous I/O submits it.\<close>

definition sync_ok :: "world \<Rightarrow> u64 \<Rightarrow> bool" where
  "sync_ok w p \<longleftrightarrow> p \<noteq> 0 \<and>
     (case xfers w p of None \<Rightarrow> False | Some t \<Rightarrow> \<not> cyclic t \<and> iocb t = 0 \<and> 0 < desc_num t)"

definition ndesc :: "world \<Rightarrow> u64 \<Rightarrow> nat" where
  "ndesc w p = (case xfers w p of None \<Rightarrow> 0 | Some t \<Rightarrow> desc_num t)"

fun desc_total :: "world \<Rightarrow> u64 list \<Rightarrow> nat" where
  "desc_total w [] = 0"
| "desc_total w (p # ps) = ndesc w p + desc_total w ps"

lemma desc_total_append [simp]: "desc_total w (ps @ qs) = desc_total w ps + desc_total w qs"
  by (induction ps) auto

lemma ndesc_Some: "xfers w p = Some t \<Longrightarrow> ndesc w p = desc_num t"
  by (simp add: ndesc_def)

text \<open>Retiring the transfers \<open>ps\<close>: each is marked completed and its waiter is woken, in order.\<close>

definition retired :: "u64 list \<Rightarrow> world \<Rightarrow> world" where
  "retired ps w = w\<lparr>xfers := (\<lambda>p. if p \<in> set ps
       then map_option (\<lambda>t. t\<lparr>state := TRANSFER_STATE_COMPLETED\<rparr>) (xfers w p) else xfers w p),
     io := io w @ replicate (length ps) (KV (C_wake_up ''transfer_wq''))\<rparr>"

lemma retired_Nil [simp]: "retired [] w = w"
  by (simp add: retired_def)

lemma retired_Cons:
  assumes "p \<notin> set ps" and "xfers w p = Some t"
  shows "retired ps (w\<lparr>xfers := (xfers w)(p \<mapsto> t\<lparr>state := TRANSFER_STATE_COMPLETED\<rparr>),
    io := io w @ [KV (C_wake_up ''transfer_wq'')]\<rparr>) = retired (p # ps) w"
  using assms by (auto simp: retired_def fun_eq_iff)

lemma sync_completion:
  assumes "sync_ok w p" and "xfers w p = Some t"
  shows "engine_transfer_completion p (w\<lparr>xfers := (xfers w)(p \<mapsto> t\<lparr>state := s\<rparr>)\<rparr>) =
    Some (p, w\<lparr>xfers := (xfers w)(p \<mapsto> t\<lparr>state := s\<rparr>), io := io w @ [KV (C_wake_up ''transfer_wq'')]\<rparr>)"
  using assms by (simp add: engine_transfer_completion_def sync_ok_def call_void_def emit_def)

lemma sync_ok_upd [simp]:
  "xfers w p = Some t \<Longrightarrow> sync_ok (w\<lparr>xfers := (xfers w)(p \<mapsto> t\<lparr>state := s\<rparr>), io := l\<rparr>) q = sync_ok w q"
  by (simp add: sync_ok_def)

lemma ndesc_upd [simp]:
  "xfers w p = Some t \<Longrightarrow> ndesc (w\<lparr>xfers := (xfers w)(p \<mapsto> t\<lparr>state := s\<rparr>), io := l\<rparr>) q = ndesc w q"
  by (simp add: ndesc_def)

lemma desc_total_upd [simp]:
  "xfers w p = Some t \<Longrightarrow> desc_total (w\<lparr>xfers := (xfers w)(p \<mapsto> t\<lparr>state := s\<rparr>), io := l\<rparr>) ps = desc_total w ps"
  by (induction ps) auto

declare service_transfer_loop.simps [simp del]

lemma service_loop_stop:
  assumes "p = 0 \<or> (\<exists>t. xfers w p = Some t \<and> (cyclic t \<or> n \<le> of_nat (desc_num t)))"
  shows "service_transfer_loop q p n e w = Some (p, n, e, w)"
  using assms by (subst service_transfer_loop.simps) auto

text \<open>The loop retires the longest prefix whose descriptors are strictly fewer than those completed.\<close>

lemma service_loop_retires:
  assumes "distinct (ps @ q # qs)" and "\<forall>p \<in> set (ps @ [q]). sync_ok w p"
    and "m = desc_total w ps + k" and "0 < k" and "k \<le> desc_total w [q]" and "desc_total w (ps @ [q]) < 2 ^ 32"
    and "transfer_list e = ps @ q # qs"
  shows "service_transfer_loop (ps @ q # qs) (hd (ps @ [q])) (of_nat m) e w =
    Some (q, of_nat k, e\<lparr>transfer_list := q # qs, desc_dequeued := desc_dequeued e + desc_total w ps\<rparr>, retired ps w)"
  using assms
proof (induction ps arbitrary: m e w)
  case Nil
  then obtain t where t: "xfers w q = Some t" by (auto simp: sync_ok_def split: option.splits)
  then have d: "desc_total w [q] = desc_num t" by (simp add: ndesc_Some)
  have "(of_nat k :: u32) \<le> of_nat (desc_num t)"
    using Nil.prems(5,6) d by (intro le_small32) simp_all
  with t Nil.prems show ?case
    by (subst service_loop_stop) auto
next
  case (Cons p ps)
  from Cons.prems(2) obtain t where t: "xfers w p = Some t" "\<not> cyclic t" and ok: "sync_ok w p" and p0: "p \<noteq> 0"
    by (auto simp: sync_ok_def split: option.splits)
  let ?d = "desc_num t"
  let ?w = "w\<lparr>xfers := (xfers w)(p \<mapsto> t\<lparr>state := TRANSFER_STATE_COMPLETED\<rparr>),
     io := io w @ [KV (C_wake_up ''transfer_wq'')]\<rparr>"
  let ?e = "e\<lparr>transfer_list := ps @ q # qs, desc_dequeued := desc_dequeued e + ?d\<rparr>"
  have m: "m = ?d + (desc_total w ps + k)" "m < 2 ^ 32"
    using Cons.prems t by (auto simp: ndesc_Some)
  have gt: "(of_nat m :: u32) > of_nat ?d"
    using less_small32[of ?d m] m Cons.prems(4) by simp
  have "service_transfer_loop (ps @ q # qs) (hd (ps @ [q])) (of_nat (desc_total w ps + k)) ?e ?w =
      Some (q, of_nat k, ?e\<lparr>transfer_list := q # qs, desc_dequeued := desc_dequeued ?e + desc_total ?w ps\<rparr>, retired ps ?w)"
    by (rule Cons.IH) (use Cons.prems t in auto)
  moreover have "(case ps @ q # qs of [] \<Rightarrow> 0 | p' # _ \<Rightarrow> p') = hd (ps @ [q])" by (cases ps) auto
  moreover have "(of_nat m :: u32) - of_nat ?d = of_nat (desc_total w ps + k)" using m by simp
  moreover have "retired ps ?w = retired (p # ps) w"
    using Cons.prems(1) t by (intro retired_Cons) auto
  ultimately show ?case
    using t p0 gt sync_completion[OF ok t(1), of TRANSFER_STATE_COMPLETED]
    by (subst service_transfer_loop.simps) (auto simp: xfer_upd_def ndesc_Some)
qed

lemma retired_snoc:
  assumes "p \<notin> set ps" and "xfers w p = Some t"
  shows "(retired ps w)\<lparr>xfers := (xfers (retired ps w))(p \<mapsto> t\<lparr>state := TRANSFER_STATE_COMPLETED\<rparr>),
    io := io (retired ps w) @ [KV (C_wake_up ''transfer_wq'')]\<rparr> = retired (ps @ [p]) w"
  using assms by (auto simp: retired_def fun_eq_iff replicate_append_same)

lemma retired_simps [simp]:
  "poll_mode (retired ps w) = poll_mode w" "hw (retired ps w) = hw w"
  "xfers (retired ps w) p = (if p \<in> set ps
       then map_option (\<lambda>t. t\<lparr>state := TRANSFER_STATE_COMPLETED\<rparr>) (xfers w p) else xfers w p)"
  by (simp_all add: retired_def)

lemma retired_sync_ok: "p \<notin> set ps \<Longrightarrow> sync_ok (retired ps w) p = sync_ok w p"
  by (simp add: sync_ok_def)

lemma final_transfer_completes:
  assumes "sync_ok w q" and "status e AND err_flags = 0" and "transfer_list e = q # qs"
    and "ndesc w q < 2 ^ 32" and "xfers w q = Some t"
  shows "engine_service_final_transfer e q (of_nat (ndesc w q)) w =
    Some (q, e\<lparr>transfer_list := qs, desc_dequeued := desc_dequeued e + ndesc w q\<rparr>,
      w\<lparr>xfers := (xfers w)(q \<mapsto> t\<lparr>state := TRANSFER_STATE_COMPLETED\<rparr>), io := io w @ [KV (C_wake_up ''transfer_wq'')]\<rparr>)"
  using assms sync_completion[OF assms(1,5), of TRANSFER_STATE_COMPLETED]
  by (simp add: engine_service_final_transfer_def xfer_upd_def ndesc_Some sync_ok_def)

lemma start_control_RUN: "start_control e poll AND XDMA_CTRL_RUN_STOP = XDMA_CTRL_RUN_STOP"
  and stop_control_RUN: "stop_control e poll AND XDMA_CTRL_RUN_STOP = 0"
  by (simp_all add: start_control_def stop_control_def const_defs Let_def bit.conj_disj_distrib2)

text \<open>The writes of \<^verbatim>\<open>engine_start\<close>, in order.\<close>

definition start_log :: "xdma_engine \<Rightarrow> xdma_transfer \<Rightarrow> world \<Rightarrow> io list" where
  "start_log e t w =
    [Wr (sgdma_regs e + sr S_first_desc_lo) (ucast (PCI_DMA_L (desc_bus t))),
     Wr (sgdma_regs e + sr S_first_desc_hi) (ucast (PCI_DMA_H (desc_bus t))),
     Wr (sgdma_regs e + sr S_first_desc_adjacent) (of_nat (min (desc_adjacent t - 1) 15))] @
    (if xdma_perf e = None then [] else [Wr (regs e + er R_interrupt_enable_mask) perf_intr_mask]) @
    [Wr (regs e + er R_control) (start_control e (poll_mode w))]"

lemma engine_start_run:
  assumes "\<not> running e" and "transfer_list e = p # ps" and "p \<noteq> 0" and "xfers w p = Some t"
  shows "\<exists>v. engine_start e w = Some (p,
      e\<lparr>shutdown := ENGINE_SHUTDOWN_NONE, desc_dequeued := 0, running := True\<rparr>,
      w\<lparr>io := io w @ start_log e t w @ [Rd (regs e + er R_status) v]\<rparr>)"
  using assms
  by (auto simp: engine_start_def engine_start_mode_config_def start_log_def io_prim_defs emit_def Let_def
      MAX_EXTRA_ADJ_def start_control_def)

text \<open>The front half of \<^verbatim>\<open>engine_service\<close> when an interrupt finds the engine stopped: it reads and clears
  the status, takes RUN back and reads the completed descriptor count.\<close>

definition stopped_log :: "xdma_engine \<Rightarrow> u32 \<Rightarrow> u32 \<Rightarrow> io list" where
  "stopped_log e st cnt = [Rd (regs e + er R_status_rc) st,
     Wr (regs e + er R_control) (stop_control (e\<lparr>status := st\<rparr>) False),
     KV (C_wake_up ''shutdown_wq''), Rd (regs e + er R_completed_desc_count) cnt]"

lemma engine_service_front:
  assumes "running e" and "transfer_list e = p # ps"
    and "\<And>l. hw w l (regs e + er R_status_rc) = st" "st AND XDMA_STAT_BUSY = 0"
    and "\<And>l. hw w l (regs e + er R_completed_desc_count) = cnt"
    and "\<not> poll_mode w" "xdma_perf e = None"
  shows "engine_service e 0 w = do {
     (p, n, e, w) \<leftarrow> engine_service_transfer_list (e\<lparr>status := st, running := False\<rparr>) p
        (cnt - of_nat (desc_dequeued e)) (w\<lparr>io := io w @ stopped_log e st cnt\<rparr>);
     (p, e, w) \<leftarrow> engine_service_final_transfer e p n w;
     let w = (if poll_mode w then write_register 0 (poll_mode_addr_virt e) w else w);
     (e, w) \<leftarrow> engine_service_resume e w;
     Some (0, e, w) }"
  using assms
  by (simp add: engine_service_def engine_status_read_def engine_service_shutdown_def xdma_engine_stop_def
      engine_service_perf_def stopped_log_def io_prim_defs emit_def Let_def)

lemma sync_ok_io [simp]: "sync_ok (w\<lparr>io := l\<rparr>) p = sync_ok w p"
  and ndesc_io [simp]: "ndesc (w\<lparr>io := l\<rparr>) p = ndesc w p"
  by (simp_all add: sync_ok_def ndesc_def)

lemma desc_total_io [simp]: "desc_total (w\<lparr>io := l\<rparr>) ps = desc_total w ps"
  by (induction ps) simp_all

lemma resume_next:
  assumes "\<not> running e" and "shutdown e AND ENGINE_SHUTDOWN_REQUEST = 0"
    and "\<forall>p \<in> set (transfer_list e). sync_ok w p" and "\<not> poll_mode w"
  shows "\<exists>e' w'. engine_service_resume e w = Some (e', w') \<and> transfer_list e' = transfer_list e \<and>
    (running e' \<longleftrightarrow> transfer_list e \<noteq> []) \<and> xfers w' = xfers w \<and>
    (\<exists>l. io w' = io w @ l \<and> count_list l (KV (C_wake_up s)) = 0)"
proof (cases "transfer_list e")
  case Nil
  with assms show ?thesis by (simp add: engine_service_resume_def)
next
  case (Cons p ps)
  with assms(3) obtain t where t: "p \<noteq> 0" "xfers w p = Some t"
    by (auto simp: sync_ok_def split: option.splits)
  from engine_start_run[OF assms(1) Cons t] assms(1,2) Cons show ?thesis
    by (auto simp: engine_service_resume_def start_log_def)
qed

section \<open>Properties\<close>

text \<open>\<^verbatim>\<open>engine_start\<close> on an idle engine programs the address of the first queued transfer's first
  descriptor (both halves), its adjacent count, and only then sets the RUN bit, with its last write;
  no other write carries a control value. It marks the engine running and ends any shutdown.\<close>

theorem engine_start_programs_then_runs:
  assumes "\<not> running e" and "transfer_list e = p # ps" and "p \<noteq> 0" and "xfers w p = Some t"
  shows "\<exists>w' lo hi pre c v. engine_start e w =
      Some (p, e\<lparr>shutdown := ENGINE_SHUTDOWN_NONE, desc_dequeued := 0, running := True\<rparr>, w') \<and>
    io w' = io w @ [Wr (sgdma_regs e + sr S_first_desc_lo) lo, Wr (sgdma_regs e + sr S_first_desc_hi) hi,
        Wr (sgdma_regs e + sr S_first_desc_adjacent) (of_nat (min (desc_adjacent t - 1) 15))] @ pre @
        [Wr (regs e + er R_control) c, Rd (regs e + er R_status) v] \<and>
    addr_of hi lo = desc_bus t \<and> c AND XDMA_CTRL_RUN_STOP = XDMA_CTRL_RUN_STOP \<and>
    set pre \<subseteq> {Wr (regs e + er R_interrupt_enable_mask) perf_intr_mask} \<and>
    xfers w' = xfers w \<and> dmem w' = dmem w"
proof -
  from engine_start_run[OF assms] obtain v where "engine_start e w = Some (p,
      e\<lparr>shutdown := ENGINE_SHUTDOWN_NONE, desc_dequeued := 0, running := True\<rparr>,
      w\<lparr>io := io w @ start_log e t w @ [Rd (regs e + er R_status) v]\<rparr>)" by blast
  then show ?thesis
    by (intro exI conjI, assumption) (auto simp: start_log_def start_control_RUN split: if_splits)
qed

theorem engine_start_programs_then_runs_witness:
  "\<exists>w' lo hi. engine_start (zero_engine\<lparr>transfer_list := [8]\<rparr>)
      (quiet_world\<lparr>xfers := [8 \<mapsto> zero_transfer\<lparr>desc_bus := 0x123456780, desc_num := 1\<rparr>]\<rparr>) =
      Some (8, zero_engine\<lparr>transfer_list := [8], shutdown := 0, desc_dequeued := 0, running := True\<rparr>, w') \<and>
    addr_of hi lo = 0x123456780"
  using engine_start_programs_then_runs[where e = "zero_engine\<lparr>transfer_list := [8]\<rparr>" and p = 8 and ps = "[]"
      and w = "quiet_world\<lparr>xfers := [8 \<mapsto> zero_transfer\<lparr>desc_bus := 0x123456780, desc_num := 1\<rparr>]\<rparr>"
      and t = "zero_transfer\<lparr>desc_bus := 0x123456780, desc_num := 1\<rparr>"]
  by (auto simp: zero_engine_def ENGINE_SHUTDOWN_NONE_def)

text \<open>Stopping never leaves RUN set: the control value \<^verbatim>\<open>xdma_engine_stop\<close> writes has the RUN bit
  clear, in polled and in interrupt mode.\<close>

theorem xdma_engine_stop_clears_RUN:
  "\<exists>c. xdma_engine_stop e w = emit (Wr (regs e + er R_control) c) w \<and> c AND XDMA_CTRL_RUN_STOP = 0"
  by (auto simp: xdma_engine_stop_def write_register_def stop_control_RUN)

text \<open>\<^verbatim>\<open>transfer_queue\<close> rejects a transfer exactly when a shutdown was requested, and then changes
  nothing. Otherwise the transfer becomes the last of the queue in state SUBMITTED, the engine runs
  afterwards, and it is started only when it was idle.\<close>

theorem transfer_queue_accepts_or_rejects:
  assumes "p \<noteq> 0" and "xfers w p = Some t" and "0 < desc_num t"
    and "\<forall>q \<in> set (transfer_list e). q \<noteq> 0 \<and> xfers w q \<noteq> None"
  shows "if shutdown e AND ENGINE_SHUTDOWN_REQUEST \<noteq> 0 then transfer_queue e p w = Some (-1, e, w)
    else (\<exists>e' w'. transfer_queue e p w = Some (0, e', w') \<and>
       transfer_list e' = transfer_list e @ [p] \<and> running e' \<and>
       xfers w' = (xfers w)(p \<mapsto> t\<lparr>state := TRANSFER_STATE_SUBMITTED\<rparr>) \<and>
       (io w' = io w \<longleftrightarrow> running e))"
proof (cases "shutdown e AND ENGINE_SHUTDOWN_REQUEST \<noteq> 0")
  case True
  with assms show ?thesis by (simp add: transfer_queue_def)
next
  case False
  let ?w = "w\<lparr>xfers := (xfers w)(p \<mapsto> t\<lparr>state := TRANSFER_STATE_SUBMITTED\<rparr>)\<rparr>"
  let ?e = "e\<lparr>transfer_list := transfer_list e @ [p]\<rparr>"
  show ?thesis
  proof (cases "running e")
    case True
    with False assms show ?thesis by (simp add: transfer_queue_def xfer_upd_def)
  next
    case idle: False
    obtain q qs where q: "transfer_list ?e = q # qs" by (cases "transfer_list ?e") auto
    then have "q \<in> set (transfer_list e) \<or> q = p" by (cases "transfer_list e") auto
    then obtain t' where "q \<noteq> 0" "xfers ?w q = Some t'" using assms by (cases "q = p") auto
    from engine_start_run[OF _ q this] idle obtain v where "engine_start ?e ?w = Some (q,
      ?e\<lparr>shutdown := ENGINE_SHUTDOWN_NONE, desc_dequeued := 0, running := True\<rparr>,
      ?w\<lparr>io := io ?w @ start_log ?e t' ?w @ [Rd (regs ?e + er R_status) v]\<rparr>)" by auto
    with False idle assms show ?thesis by (simp add: transfer_queue_def xfer_upd_def)
  qed
qed

theorem transfer_queue_accepts_or_rejects_witness:
  "\<exists>e' w'. transfer_queue (zero_engine\<lparr>running := True, transfer_list := [8]\<rparr>) 16
      (quiet_world\<lparr>xfers := [8 \<mapsto> zero_transfer, 16 \<mapsto> zero_transfer\<lparr>desc_num := 2\<rparr>]\<rparr>) = Some (0, e', w') \<and>
    transfer_list e' = [8, 16] \<and> running e'"
  using transfer_queue_accepts_or_rejects[where e = "zero_engine\<lparr>running := True, transfer_list := [8]\<rparr>" and p = 16
      and w = "quiet_world\<lparr>xfers := [8 \<mapsto> zero_transfer, 16 \<mapsto> zero_transfer\<lparr>desc_num := 2\<rparr>]\<rparr>"
      and t = "zero_transfer\<lparr>desc_num := 2\<rparr>"]
  by (auto simp: zero_engine_def)

text \<open>C8. A running engine whose interrupt reports no error and is no longer busy retires exactly the
  completed transfers: when the device has completed all descriptors of the first transfers
  \<open>ps @ [q]\<close> of the queue, these leave the queue in state COMPLETED with one wake-up each, no other
  transfer changes, and the engine is restarted on the next one, or stays idle if there is none.\<close>

theorem engine_service_retires_completed:
  assumes run: "running e" and q: "transfer_list e = ps @ q # qs" and dist: "distinct (transfer_list e)"
    and ok: "\<forall>p \<in> set (transfer_list e). sync_ok w p"
    and total: "desc_total w (ps @ [q]) < 2 ^ 32"
    and status: "\<And>l. hw w l (regs e + er R_status_rc) = st" "st AND XDMA_STAT_BUSY = 0" "st AND err_flags = 0"
    and count: "\<And>l. hw w l (regs e + er R_completed_desc_count) = of_nat (desc_dequeued e + desc_total w (ps @ [q]))"
    and mode: "\<not> poll_mode w" "xdma_perf e = None" "shutdown e AND ENGINE_SHUTDOWN_REQUEST = 0"
  shows "\<exists>e' w'. engine_service e 0 w = Some (0, e', w') \<and> transfer_list e' = qs \<and> (running e' \<longleftrightarrow> qs \<noteq> []) \<and>
    (\<forall>p. xfers w' p = (if p \<in> set (ps @ [q]) then map_option (\<lambda>t. t\<lparr>state := TRANSFER_STATE_COMPLETED\<rparr>) (xfers w p)
                       else xfers w p)) \<and>
    count_list (io w') (KV (C_wake_up ''transfer_wq'')) =
      count_list (io w) (KV (C_wake_up ''transfer_wq'')) + length (ps @ [q])"
proof -
  let ?cnt = "of_nat (desc_dequeued e + desc_total w (ps @ [q])) :: u32"
  let ?e1 = "e\<lparr>status := st, running := False\<rparr>" and ?w1 = "w\<lparr>io := io w @ stopped_log e st ?cnt\<rparr>"
  let ?e2 = "?e1\<lparr>transfer_list := q # qs, desc_dequeued := desc_dequeued e + desc_total w ps\<rparr>"
  let ?e3 = "?e2\<lparr>transfer_list := qs, desc_dequeued := desc_dequeued ?e2 + ndesc w q\<rparr>"
  let ?w3 = "retired (ps @ [q]) ?w1"
  have hd: "transfer_list e = hd (ps @ [q]) # tl (ps @ q # qs)" using q by (cases ps) auto
  have okq: "sync_ok w q" and k: "0 < ndesc w q" using ok q by (auto simp: sync_ok_def ndesc_def split: option.splits)
  then obtain t where t: "xfers w q = Some t" by (auto simp: sync_ok_def split: option.splits)
  have nq: "q \<notin> set ps" using dist q by auto
  have p0: "hd (ps @ [q]) \<noteq> 0" using ok q by (cases ps) (auto simp: sync_ok_def)
  have c: "?cnt - of_nat (desc_dequeued e) = of_nat (desc_total w ps + ndesc w q)" by simp
  have "service_transfer_loop (ps @ q # qs) (hd (ps @ [q])) (of_nat (desc_total w ps + ndesc w q)) ?e1 ?w1 =
      Some (q, of_nat (ndesc w q), ?e1\<lparr>transfer_list := q # qs, desc_dequeued := desc_dequeued ?e1 + desc_total ?w1 ps\<rparr>,
        retired ps ?w1)"
    by (rule service_loop_retires) (use dist q ok total k in auto)
  then have loop: "engine_service_transfer_list ?e1 (hd (ps @ [q])) (?cnt - of_nat (desc_dequeued e)) ?w1 =
      Some (q, of_nat (ndesc w q), ?e2, retired ps ?w1)"
    using q p0 unfolding c by (simp add: engine_service_transfer_list_def)
  have fin: "engine_service_final_transfer ?e2 q (of_nat (ndesc w q)) (retired ps ?w1) = Some (q, ?e3, ?w3)"
    using final_transfer_completes[of "retired ps ?w1" q ?e2 qs t] retired_snoc[of q ps ?w1 t] okq nq t status(3) total
    by (simp add: retired_sync_ok ndesc_Some)
  have "sync_ok ?w3 p" if p: "p \<in> set qs" for p
    using retired_sync_ok[of p "ps @ [q]" ?w1] p dist q ok by auto
  then have "\<forall>p \<in> set qs. sync_ok ?w3 p" by blast
  with mode resume_next[of ?e3 ?w3 "''transfer_wq''"] obtain e' w' l where
    res: "engine_service_resume ?e3 ?w3 = Some (e', w')" "transfer_list e' = qs" "running e' \<longleftrightarrow> qs \<noteq> []"
      "xfers w' = xfers ?w3" "io w' = io ?w3 @ l" "count_list l (KV (C_wake_up ''transfer_wq'')) = 0" by auto
  have "engine_service e 0 w = Some (0, e', w')"
    using engine_service_front[OF run hd status(1,2) count mode(1,2)] loop fin res mode(1) by simp
  moreover have "count_list (replicate n x) x = n" for n and x :: io by (induction n) auto
  ultimately show ?thesis using res by (auto simp: retired_def stopped_log_def)
qed

theorem engine_service_retires_completed_witness:
  "\<exists>e' w'. engine_service (zero_engine\<lparr>running := True, transfer_list := [8, 16, 24]\<rparr>) 0
     (quiet_world\<lparr>hw := \<lambda>_ a. if a = er R_completed_desc_count then 5 else 4,
        xfers := [8 \<mapsto> zero_transfer\<lparr>desc_num := 3\<rparr>, 16 \<mapsto> zero_transfer\<lparr>desc_num := 2\<rparr>, 24 \<mapsto> zero_transfer\<lparr>desc_num := 1\<rparr>]\<rparr>)
     = Some (0, e', w') \<and> transfer_list e' = [24] \<and> running e' \<and>
     map_option state (xfers w' 8) = Some TRANSFER_STATE_COMPLETED \<and>
     map_option state (xfers w' 16) = Some TRANSFER_STATE_COMPLETED \<and>
     map_option state (xfers w' 24) = Some TRANSFER_STATE_NEW"
proof -
  let ?e = "zero_engine\<lparr>running := True, transfer_list := [8, 16, 24]\<rparr>"
  let ?w = "quiet_world\<lparr>hw := \<lambda>_ a. if a = er R_completed_desc_count then 5 else 4,
        xfers := [8 \<mapsto> zero_transfer\<lparr>desc_num := 3\<rparr>, 16 \<mapsto> zero_transfer\<lparr>desc_num := 2\<rparr>, 24 \<mapsto> zero_transfer\<lparr>desc_num := 1\<rparr>]\<rparr>"
  have "regs ?e = 0" "desc_dequeued ?e = 0" "xdma_perf ?e = None" "shutdown ?e = 0" by (simp_all add: zero_engine_def)
  then show ?thesis
    using engine_service_retires_completed[where e = ?e and w = ?w and ps = "[8]" and q = 16 and qs = "[24]" and st = 4]
    by (auto simp: sync_ok_def ndesc_def zero_transfer_def const_defs err_flags_def)
qed

text \<open>C40. An engine interrupt with an error status leaves the failed transfer in the queue: it is marked
  FAILED but stays at the head, its waiter is not woken, and, as the engine is idle and no shutdown was
  requested, the engine is started again on that same transfer.\<close>

theorem engine_service_error_restarts_failed:
  assumes run: "running e" and q: "transfer_list e = p # qs" and ok: "\<forall>p \<in> set (transfer_list e). sync_ok w p"
    and t: "xfers w p = Some t"
    and status: "\<And>l. hw w l (regs e + er R_status_rc) = st" "st AND XDMA_STAT_BUSY = 0" "st AND err_flags \<noteq> 0"
    and count: "\<And>l. hw w l (regs e + er R_completed_desc_count) = of_nat (desc_dequeued e + k)"
      "k \<le> desc_num t" "desc_num t < 2 ^ 32"
    and mode: "\<not> poll_mode w" "xdma_perf e = None" "shutdown e AND ENGINE_SHUTDOWN_REQUEST = 0"
  shows "\<exists>e' w' l. engine_service e 0 w = Some (0, e', w') \<and> transfer_list e' = p # qs \<and> running e' \<and>
    xfers w' = (xfers w)(p \<mapsto> t\<lparr>state := TRANSFER_STATE_FAILED\<rparr>) \<and>
    io w' = io w @ l \<and> KV (C_wake_up ''transfer_wq'') \<notin> set l"
proof -
  let ?cnt = "of_nat (desc_dequeued e + k) :: u32"
  let ?e1 = "e\<lparr>status := st, running := False\<rparr>" and ?w1 = "w\<lparr>io := io w @ stopped_log e st ?cnt\<rparr>"
  let ?w2 = "?w1\<lparr>xfers := (xfers w)(p \<mapsto> t\<lparr>state := TRANSFER_STATE_FAILED\<rparr>),
    io := io ?w1 @ [Wr (regs e + er R_control) (stop_control ?e1 False)]\<rparr>"
  have p0: "p \<noteq> 0" using ok q by (simp add: sync_ok_def)
  have "(of_nat k :: u32) \<le> of_nat (desc_num t)" using count(2,3) by (rule le_small32)
  then have loop: "engine_service_transfer_list ?e1 p (?cnt - of_nat (desc_dequeued e)) ?w1 =
      Some (p, of_nat k, ?e1, ?w1)"
    using t p0 q by (simp add: engine_service_transfer_list_def service_loop_stop)
  have fin: "engine_service_final_transfer ?e1 p (of_nat k) ?w1 = Some (p, ?e1, ?w2)"
    using status t p0 mode by (simp add: engine_service_final_transfer_def engine_err_handle_def xfer_upd_def
        xdma_engine_stop_def write_register_def emit_def)
  obtain v where start: "engine_start ?e1 ?w2 = Some (p,
      ?e1\<lparr>shutdown := ENGINE_SHUTDOWN_NONE, desc_dequeued := 0, running := True\<rparr>,
      ?w2\<lparr>io := io ?w2 @ start_log ?e1 (t\<lparr>state := TRANSFER_STATE_FAILED\<rparr>) ?w2 @ [Rd (regs ?e1 + er R_status) v]\<rparr>)"
    using engine_start_run[of ?e1 p qs ?w2 "t\<lparr>state := TRANSFER_STATE_FAILED\<rparr>"] q p0 by auto
  have "engine_service_resume ?e1 ?w2 = Some (?e1\<lparr>shutdown := ENGINE_SHUTDOWN_NONE, desc_dequeued := 0, running := True\<rparr>,
      ?w2\<lparr>io := io ?w2 @ start_log ?e1 (t\<lparr>state := TRANSFER_STATE_FAILED\<rparr>) ?w2 @ [Rd (regs ?e1 + er R_status) v]\<rparr>)"
    using start mode q by (simp add: engine_service_resume_def)
  then show ?thesis
    using engine_service_front[OF run q status(1,2) count(1) mode(1,2)] loop fin mode q
    by (auto simp: stopped_log_def start_log_def)
qed

theorem engine_service_error_restarts_failed_witness:
  "\<exists>e' w'. engine_service (zero_engine\<lparr>running := True, transfer_list := [8]\<rparr>) 0
     (quiet_world\<lparr>hw := \<lambda>_ a. if a = er R_completed_desc_count then 1 else 0x10,
        xfers := [8 \<mapsto> zero_transfer\<lparr>desc_num := 3\<rparr>]\<rparr>)
     = Some (0, e', w') \<and> transfer_list e' = [8] \<and> running e' \<and>
     map_option state (xfers w' 8) = Some TRANSFER_STATE_FAILED"
proof -
  let ?e = "zero_engine\<lparr>running := True, transfer_list := [8]\<rparr>"
  let ?w = "quiet_world\<lparr>hw := \<lambda>_ a. if a = er R_completed_desc_count then 1 else 0x10,
        xfers := [8 \<mapsto> zero_transfer\<lparr>desc_num := 3\<rparr>]\<rparr>"
  have "regs ?e = 0" "desc_dequeued ?e = 0" "xdma_perf ?e = None" "shutdown ?e = 0" by (simp_all add: zero_engine_def)
  then show ?thesis
    using engine_service_error_restarts_failed[where e = ?e and w = ?w and p = 8 and qs = "[]" and st = "0x10" and k = 1
        and t = "zero_transfer\<lparr>desc_num := 3\<rparr>"]
    by (auto simp: sync_ok_def zero_transfer_def const_defs err_flags_def)
qed

text \<open>A running engine with an empty queue cannot be serviced: \<^verbatim>\<open>engine_service\<close> hits the
  \<^verbatim>\<open>BUG_ON(!transfer)\<close> of \<^verbatim>\<open>engine_service_transfer_list\<close>, whatever the device reports.\<close>

theorem engine_service_empty_queue_bug:
  assumes "running e" and "transfer_list e = []"
  shows "engine_service e wb w = None"
  using assms
  by (auto simp: engine_service_def engine_status_read_def engine_service_shutdown_def
      engine_service_transfer_list_def Let_def read_register_def split: prod.splits)

theorem engine_service_empty_queue_bug_witness:
  "engine_service (zero_engine\<lparr>running := True\<rparr>) 0 quiet_world = None"
  by (rule engine_service_empty_queue_bug) (simp_all add: zero_engine_def)

end
