(* ===== verification/Wz_Xdma.thy ===== *)
theory Wz_Xdma
  imports Xdma_Engine "HOL-Library.Signed_Division"
begin

text \<open>
  The WZ extension, \<^verbatim>\<open>wz-xdma.c\<close>: an engine streams into a ring of \<^const>\<open>WZ_DMA_NOFBUFS\<close> buffers of
  \<^const>\<open>WZ_DMA_BUFLEN\<close> bytes. Each buffer has one descriptor; the device overwrites the first words of a
  descriptor with its result (the write-back), so a descriptor that is not restored stops the device
  at that buffer. The interrupt service scans the write-backs, assembles blocks that end with an
  end-of-packet and hands them to the reader through a FIFO; the reader confirms a block when it has
  consumed it, which restores the descriptors.

  The FIFO interface is that of kernels from 2.6.33 on. \<open>sleep\<close> arguments stand for what other
  contexts do to the engine while a task sleeps on a wait queue.
\<close>

section \<open>Mapping the buffers into user space\<close>

definition swz_mmap_fault ::
  "(u64 \<Rightarrow> u64) \<Rightarrow> wz_ext \<Rightarrow> vm_area \<Rightarrow> u64 \<Rightarrow> world \<Rightarrow> (int \<times> world) option" where
  "swz_mmap_fault page_to_pfn ext vma address w = do {
     let offset = sint (address - vm_start vma);
     let buf_num = offset sdiv int WZ_DMA_BUFLEN;
     if buf_num > int WZ_DMA_NOFBUFS then Some (- EFAULT, w)
     else do {
       let offset = offset - buf_num * int WZ_DMA_BUFLEN;
       BUG_ON (buf_num < 0);
       buffer \<leftarrow> arr_get (buf_page ext) (nat buf_num);
       let w = call_void (C_vm_insert_pfn address (page_to_pfn buffer + of_int (drop_bit PAGE_SHIFT offset))) w;
       Some (VM_FAULT_NOPAGE, w) } }"

definition char_sgdma_wz_mmap :: "xdma_engine \<Rightarrow> vm_area \<Rightarrow> int \<times> vm_area" where
  "char_sgdma_wz_mmap e vma =
    (if \<not> buf_ready (wz_ext e) then (- EINVAL, vma)
     else (0, vma\<lparr>vm_ops := ''swz_mmap_vm_ops'',
                  vm_flags := vm_flags vma OR VM_IO OR VM_DONTEXPAND OR VM_DONTDUMP OR VM_PFNMAP\<rparr>))"

section \<open>Buffers\<close>

definition wz_alloc_one :: "nat \<Rightarrow> wz_ext \<times> world \<Rightarrow> (int option \<times> wz_ext \<times> world) option" where
  "wz_alloc_one i s = (case s of (ext, w) \<Rightarrow> do {
     let (page, w) = call_ptr C_alloc_pages w;
     pgs \<leftarrow> arr_set (buf_page ext) i page;
     let ext = ext\<lparr>buf_page := pgs\<rparr>;
     if page = 0 then Some (Some (- ENOMEM), ext, w)
     else do {
       let (dma, w) = call_ptr (C_dma_map_page page) w;
       dmas \<leftarrow> arr_set (buf_dma_t ext) i dma;
       let ext = ext\<lparr>buf_dma_t := dmas\<rparr>;
       if dma = 0 then Some (Some (- ENOMEM), ext, w)
       else Some (None, ext, call_void (C_sync_for_device dma) w) } })"

text \<open>Releasing the buffers, shared by the error path of the allocation and by \<^verbatim>\<open>free_buffers\<close>.\<close>

definition wz_free_one :: "nat \<Rightarrow> wz_ext \<times> world \<Rightarrow> (wz_ext \<times> world) option" where
  "wz_free_one i s = (case s of (ext, w) \<Rightarrow> do {
     dma \<leftarrow> arr_get (buf_dma_t ext) i;
     (ext, w) \<leftarrow> (if dma \<noteq> 0 then do {
         dmas \<leftarrow> arr_set (buf_dma_t ext) i 0;
         Some (ext\<lparr>buf_dma_t := dmas\<rparr>, call_void (C_dma_unmap_page dma) w) } else Some (ext, w));
     page \<leftarrow> arr_get (buf_page ext) i;
     if page \<noteq> 0 then do {
       pgs \<leftarrow> arr_set (buf_page ext) i 0;
       Some (ext\<lparr>buf_page := pgs\<rparr>, call_void (C_free_pages page) w) } else Some (ext, w) })"

definition wz_free_copy :: "wz_ext \<times> world \<Rightarrow> wz_ext \<times> world" where
  "wz_free_copy s = (case s of (ext, w) \<Rightarrow>
     case desc_copy ext of None \<Rightarrow> (ext, w)
     | Some (p, _) \<Rightarrow> (ext\<lparr>desc_copy := None\<rparr>, call_void (C_vfree p) w))"

definition wz_alloc_err1 :: "int \<Rightarrow> wz_ext \<times> world \<Rightarrow> (int \<times> wz_ext \<times> world) option" where
  "wz_alloc_err1 res s = do {
     s \<leftarrow> for_range 0 WZ_DMA_NOFBUFS wz_free_one s;
     let (ext, w) = wz_free_copy s;
     Some (res, ext\<lparr>buf_ready := False\<rparr>, w) }"

text \<open>The contents of a fresh \<^verbatim>\<open>vmalloc\<close> area are arbitrary; no operation reads \<open>desc_copy\<close> before
  \<^verbatim>\<open>wz_start\<close> has written it, so zeros stand for them.\<close>

definition ioctl_do_wz_alloc_buffers :: "xdma_engine \<Rightarrow> world \<Rightarrow> (int \<times> xdma_engine \<times> world) option" where
  "ioctl_do_wz_alloc_buffers e w = do {
     (r, ext, w) \<leftarrow> for_try 0 WZ_DMA_NOFBUFS wz_alloc_one (wz_ext e, w);
     (res, ext, w) \<leftarrow> (case r of
         Some res \<Rightarrow> wz_alloc_err1 res (ext, w)
       | None \<Rightarrow> do {
           let (p, w) = call_ptr (C_vmalloc (WZ_DMA_NOFBUFS * 32)) w;
           let ext = ext\<lparr>desc_copy := (if p = 0 then None else Some (p, replicate WZ_DMA_NOFBUFS zero_desc))\<rparr>;
           if p = 0 then wz_alloc_err1 (- ENOMEM) (ext, w)
           else do {
             let (rc, w) = call_int (C_kfifo_alloc WZ_DMA_NOFBUFS) w;
             if rc < 0 then wz_alloc_err1 (- ENOMEM) (ext, w)
             else Some (0, ext\<lparr>kfifo := Some [], buf_ready := True\<rparr>, w) } });
     Some (res, e\<lparr>wz_ext := ext\<rparr>, w) }"

definition ioctl_do_wz_free_buffers :: "xdma_engine \<Rightarrow> world \<Rightarrow> (int \<times> xdma_engine \<times> world) option" where
  "ioctl_do_wz_free_buffers e w = do {
     let ext = wz_ext e;
     (ext, w) \<leftarrow> (if buf_ready ext then for_range 0 WZ_DMA_NOFBUFS wz_free_one (ext, w) else Some (ext, w));
     let w = call_void C_kfifo_free w;
     let ext = ext\<lparr>kfifo := None, buf_ready := False\<rparr>;
     let (ext, w) = wz_free_copy (ext, w);
     Some (0, e\<lparr>wz_ext := ext\<rparr>, w) }"

section \<open>Starting\<close>

text \<open>First loop of \<^verbatim>\<open>ioctl_do_wz_start\<close>: free a left-over descriptor, allocate a new one, link it to
  its predecessor. A left-over descriptor is freed with \<^verbatim>\<open>buf_dma_t[i]\<close> as its bus address.\<close>

definition wz_desc_one :: "nat \<Rightarrow> wz_ext \<times> world \<Rightarrow> (int option \<times> wz_ext \<times> world) option" where
  "wz_desc_one i s = (case s of (ext, w) \<Rightarrow> do {
     p \<leftarrow> arr_get (desc ext) i;
     (ext, w) \<leftarrow> (if p \<noteq> 0 then do {
         dma \<leftarrow> arr_get (buf_dma_t ext) i;
         w \<leftarrow> xdma_desc_free 1 p dma w;
         ds \<leftarrow> arr_set (desc ext) i 0;
         dmas \<leftarrow> arr_set (buf_dma_t ext) i 0;
         Some (ext\<lparr>desc := ds, buf_dma_t := dmas\<rparr>, w) } else Some (ext, w));
     (r, w) \<leftarrow> xdma_desc_alloc 1 w;
     (case r of
        None \<Rightarrow> Some (Some (- ENOMEM), ext, w)
      | Some (v, b, _) \<Rightarrow> do {
          ds \<leftarrow> arr_set (desc ext) i v;
          dd \<leftarrow> arr_set (desc_dma ext) i b;
          let ext = ext\<lparr>desc := ds, desc_dma := dd\<rparr>;
          if i > 0 then do {
            prev \<leftarrow> arr_get (desc ext) (i - 1);
            w \<leftarrow> xdma_desc_link prev v b w;
            Some (None, ext, w)
          } else Some (None, ext, w) }) })"

text \<open>Second loop: fill the descriptors and keep a copy of each. The source address is the descriptor's
  own bus address, where the device writes its result back.\<close>

definition wz_fill_one :: "nat \<Rightarrow> wz_ext \<times> world \<Rightarrow> (wz_ext \<times> world) option" where
  "wz_fill_one i s = (case s of (ext, w) \<Rightarrow> do {
     p \<leftarrow> arr_get (desc ext) i;
     buf \<leftarrow> arr_get (buf_dma_t ext) i;
     bus \<leftarrow> arr_get (desc_dma ext) i;
     w \<leftarrow> xdma_desc_set p buf bus (of_nat WZ_DMA_BUFLEN) False w;
     w \<leftarrow> xdma_desc_control p XDMA_DESC_COMPLETED w;
     (cp, cs) \<leftarrow> desc_copy ext;
     d \<leftarrow> dmem w p;
     cs \<leftarrow> arr_set cs i d;
     Some (ext\<lparr>desc_copy := Some (cp, cs)\<rparr>, w) })"

definition wz_desc_free_one :: "nat \<Rightarrow> wz_ext \<times> world \<Rightarrow> (wz_ext \<times> world) option" where
  "wz_desc_free_one i s = (case s of (ext, w) \<Rightarrow> do {
     p \<leftarrow> arr_get (desc ext) i;
     bus \<leftarrow> arr_get (desc_dma ext) i;
     w \<leftarrow> xdma_desc_free 1 p bus w;
     ds \<leftarrow> arr_set (desc ext) i 0;
     dd \<leftarrow> arr_set (desc_dma ext) i 0;
     Some (ext\<lparr>desc := ds, desc_dma := dd\<rparr>, w) })"

definition wz_make_transfer :: "wz_ext \<Rightarrow> u64 \<Rightarrow> world \<Rightarrow> world option" where
  "wz_make_transfer ext t w = do {
     v \<leftarrow> arr_get (desc ext) 0;
     b \<leftarrow> arr_get (desc_dma ext) 0;
     xfer_upd t (\<lambda>x. x\<lparr>desc_virt := v, desc_bus := b, desc_adjacent := 0, desc_num := WZ_DMA_NOFBUFS,
        xfer_dir_to_dev := False, sgl_nents := 1, cyclic := True\<rparr>) w }"

definition ioctl_do_wz_start :: "xdma_engine \<Rightarrow> world \<Rightarrow> (int \<times> xdma_engine \<times> world) option" where
  "ioctl_do_wz_start e w =
    (if \<not> buf_ready (wz_ext e) then Some (- EINVAL, e, w)
     else do {
       let ext = (wz_ext e)\<lparr>block_first_desc := 0, block_scanned_desc := 0\<rparr>;
       (r, ext, w) \<leftarrow> for_try 0 WZ_DMA_NOFBUFS wz_desc_one (ext, w);
       (case r of
          Some rc \<Rightarrow> Some (rc, e\<lparr>wz_ext := ext\<rparr>, w)
        | None \<Rightarrow> do {
            last \<leftarrow> arr_get (desc ext) (WZ_DMA_NOFBUFS - 1);
            first \<leftarrow> arr_get (desc ext) 0;
            first_bus \<leftarrow> arr_get (desc_dma ext) 0;
            w \<leftarrow> xdma_desc_link last first first_bus w;
            (ext, w) \<leftarrow> for_range 0 WZ_DMA_NOFBUFS wz_fill_one (ext, w);
            let (t, w) = kzalloc_transfer w;
            let ext = ext\<lparr>wz_transfer := t\<rparr>;
            if t = 0 then do {
              (ext, w) \<leftarrow> for_range 0 WZ_DMA_NOFBUFS wz_desc_free_one (ext, w);
              Some (- ENOMEM, e\<lparr>wz_ext := ext\<rparr>, w)
            } else do {
              w \<leftarrow> wz_make_transfer ext t w;
              (_, e, w) \<leftarrow> transfer_queue (e\<lparr>wz_ext := ext\<rparr>) t w;
              Some (0, e, w) } }) })"

section \<open>Confirming a block\<close>

definition wz_next :: "nat \<Rightarrow> nat" where
  "wz_next i = (i + 1) AND (WZ_DMA_NOFBUFS - 1)"

text \<open>Restoring one descriptor; the control word with its magic is written last.\<close>

definition wz_restore_one :: "nat \<Rightarrow> wz_ext \<Rightarrow> world \<Rightarrow> world option" where
  "wz_restore_one i ext w = do {
     buf \<leftarrow> arr_get (buf_dma_t ext) i;
     let w = call_void (C_sync_for_device buf) w;
     p \<leftarrow> arr_get (desc ext) i;
     (_, cs) \<leftarrow> desc_copy ext;
     c \<leftarrow> arr_get cs i;
     w \<leftarrow> desc_upd p (\<lambda>d. d\<lparr>bytes := bytes c, src_addr_lo := src_addr_lo c, src_addr_hi := src_addr_hi c,
            dst_addr_lo := dst_addr_lo c, dst_addr_hi := dst_addr_hi c, next_lo := next_lo c, next_hi := next_hi c\<rparr>) w;
     desc_upd p (\<lambda>d. d\<lparr>control := control c\<rparr>) w }"

text \<open>The loop of \<^verbatim>\<open>ioctl_do_wz_confirm\<close>. The outer \<open>None\<close> is a loop that never ends, the inner one a crash.\<close>

partial_function (option) wz_confirm_loop :: "nat \<Rightarrow> nat \<Rightarrow> wz_ext \<Rightarrow> world \<Rightarrow> world option option" where
  "wz_confirm_loop i last_d ext w =
    (case wz_restore_one i ext w of
       None \<Rightarrow> Some None
     | Some w \<Rightarrow> if i = last_d then Some (Some w) else wz_confirm_loop (wz_next i) last_d ext w)"

definition ioctl_do_wz_confirm :: "xdma_engine \<Rightarrow> u64 \<Rightarrow> world \<Rightarrow> (int \<times> world) option option" where
  "ioctl_do_wz_confirm e arg w =
    (let (res, w) = call_int (C_copy_from_user arg 8) w in
     if res \<noteq> 0 then Some (Some (- EINVAL, w))
     else let first = unat (usr w (io w) arg); last_d = unat (usr w (io w) (arg + 4)) in
       map_option (map_option (\<lambda>w. (0, w))) (wz_confirm_loop first last_d (wz_ext e) w))"

section \<open>Scanning for blocks\<close>

definition has_wb :: "xdma_result \<Rightarrow> bool" where
  "has_wb r \<longleftrightarrow> drop_bit 16 (res_status r) AND 0xffff = C2H_WB"

definition has_eop :: "xdma_result \<Rightarrow> bool" where
  "has_eop r \<longleftrightarrow> res_status r AND 1 \<noteq> 0"

text \<open>The scan loop of \<^verbatim>\<open>wz_engine_service_cyclic_interrupt\<close>. \<^verbatim>\<open>kfifo_put\<close> fails on a full FIFO.\<close>

partial_function (option) wz_scan :: "nat \<Rightarrow> wz_ext \<Rightarrow> world \<Rightarrow> (wz_ext \<times> world) option option" where
  "wz_scan check_desc ext w =
    (case do { p \<leftarrow> arr_get (desc ext) check_desc; d \<leftarrow> dmem w p; buf \<leftarrow> arr_get (buf_dma_t ext) check_desc;
               Some (result_of_desc d, buf) } of
       None \<Rightarrow> Some None
     | Some (res, buf) \<Rightarrow>
         if \<not> has_wb res then Some (Some (ext\<lparr>block_scanned_desc := check_desc\<rparr>, w))
         else let w = call_void (C_sync_for_cpu buf) w in
           if has_eop res then
             (case kfifo ext of
                None \<Rightarrow> Some None
              | Some q \<Rightarrow>
                  if length q < WZ_DMA_NOFBUFS then
                    wz_scan (wz_next check_desc)
                      (ext\<lparr>kfifo := Some (q @ [\<lparr>first_desc = of_nat (block_first_desc ext),
                                              last_desc = of_nat check_desc, last_len = res_length res\<rparr>]),
                          block_first_desc := wz_next check_desc, block_scanned_desc := wz_next check_desc\<rparr>)
                      (call_void (C_wake_up ''getbuf_wq'') w)
                  else Some (Some (ext, w)))
           else wz_scan (wz_next check_desc) ext w)"

definition wz_engine_transfer_dequeue :: "xdma_engine \<Rightarrow> xdma_engine option" where
  "wz_engine_transfer_dequeue e = (case transfer_list e of
     [] \<Rightarrow> None
   | p # ps \<Rightarrow> do {
       BUG_ON (p \<noteq> wz_transfer (wz_ext e));
       Some (e\<lparr>transfer_list := ps\<rparr>) })"

definition wz_engine_service_cyclic_interrupt ::
  "xdma_engine \<Rightarrow> world \<Rightarrow> (int \<times> xdma_engine \<times> world) option option" where
  "wz_engine_service_cyclic_interrupt e w =
    (if magic e \<noteq> MAGIC_ENGINE then Some None
     else let (_, e, w) = engine_status_read e True w in
       (case wz_scan (block_scanned_desc (wz_ext e)) (wz_ext e) w of
          None \<Rightarrow> None
        | Some None \<Rightarrow> Some None
        | Some (Some (ext, w)) \<Rightarrow> Some (do {
            let e = e\<lparr>wz_ext := ext\<rparr>;
            if running e \<and> status e AND XDMA_STAT_BUSY = 0 then do {
              e \<leftarrow> (if transfer_list e \<noteq> [] then wz_engine_transfer_dequeue e else Some e);
              let (e, w) = engine_service_shutdown e w;
              Some (0, e, call_void (C_wake_up ''getbuf_wq'') w)
            } else Some (0, e, w) })))"

section \<open>Reading a block and stopping\<close>

definition getbuf_ready :: "xdma_engine \<Rightarrow> bool" where
  "getbuf_ready e \<longleftrightarrow> (case kfifo (wz_ext e) of None \<Rightarrow> False | Some q \<Rightarrow> q \<noteq> []) \<or> \<not> running e"

definition ioctl_do_wz_getbuf ::
  "(xdma_engine \<times> world \<Rightarrow> xdma_engine \<times> world) \<Rightarrow> xdma_engine \<Rightarrow> u64 \<Rightarrow> world \<Rightarrow>
     (int \<times> xdma_engine \<times> world) option" where
  "ioctl_do_wz_getbuf sleep e arg w = do {
     let (res, e, w) = (if getbuf_ready e then (0, e, w)
                        else (case sleep (e, w) of (e, w) \<Rightarrow>
                          (case call_int (C_wait_event ''getbuf_wq'') w of (r, w) \<Rightarrow> (r, e, w))));
     if res < 0 then Some (res, e, w)
     else if \<not> running e then Some (- EIO, e, w)
     else (case kfifo (wz_ext e) of
         Some (b # bs) \<Rightarrow> do {
           let e = e\<lparr>wz_ext := (wz_ext e)\<lparr>kfifo := Some bs\<rparr>\<rparr>;
           let (res, w) = call_int (C_copy_to_user arg [first_desc b, last_desc b, last_len b]) w;
           Some (if res \<noteq> 0 then - EINVAL else 0, e, w) }
       | _ \<Rightarrow> None) }"

definition wz_transfer_destroy :: "u64 \<Rightarrow> world \<Rightarrow> world" where
  "wz_transfer_destroy t w = (if t \<noteq> 0 then kfree_transfer t w else w)"

text \<open>Freeing the descriptors when stopping; it is \<^verbatim>\<open>buf_dma_t[i]\<close> that is cleared, not \<^verbatim>\<open>desc_dma[i]\<close>.\<close>

definition wz_stop_one :: "nat \<Rightarrow> wz_ext \<times> world \<Rightarrow> (wz_ext \<times> world) option" where
  "wz_stop_one i s = (case s of (ext, w) \<Rightarrow> do {
     p \<leftarrow> arr_get (desc ext) i;
     if p \<noteq> 0 then do {
       bus \<leftarrow> arr_get (desc_dma ext) i;
       w \<leftarrow> xdma_desc_free 1 p bus w;
       ds \<leftarrow> arr_set (desc ext) i 0;
       dmas \<leftarrow> arr_set (buf_dma_t ext) i 0;
       Some (ext\<lparr>desc := ds, buf_dma_t := dmas\<rparr>, w)
     } else Some (ext, w) })"

definition ioctl_do_wz_stop ::
  "(xdma_engine \<times> world \<Rightarrow> xdma_engine \<times> world) \<Rightarrow> xdma_engine \<Rightarrow> world \<Rightarrow>
     (int \<times> xdma_engine \<times> world) option" where
  "ioctl_do_wz_stop sleep e w = do {
     (_, w) \<leftarrow> engine_cyclic_stop e w;
     let (e, w) = (if running e then sleep (e, w) else (e, w));
     if running e then Some (- EINVAL, e, w)
     else do {
       let w = wz_transfer_destroy (wz_transfer (wz_ext e)) w;
       let ext = (wz_ext e)\<lparr>wz_transfer := 0\<rparr>;
       (ext, w) \<leftarrow> for_range 0 WZ_DMA_NOFBUFS wz_stop_one (ext, w);
       Some (0, e\<lparr>wz_ext := ext\<rparr>, w) } }"

definition wz_engine_cleanup ::
  "(xdma_engine \<times> world \<Rightarrow> xdma_engine \<times> world) \<Rightarrow> xdma_engine \<Rightarrow> world \<Rightarrow> (xdma_engine \<times> world) option" where
  "wz_engine_cleanup sleep e w = do {
     (_, e, w) \<leftarrow> ioctl_do_wz_stop sleep e w;
     (_, e, w) \<leftarrow> ioctl_do_wz_free_buffers e w;
     Some (e, w) }"

section \<open>The ring of descriptors\<close>

interpretation wzr: ring_index WZ_DMA_NOFBUFS wz_next
proof
  show "0 < WZ_DMA_NOFBUFS" by (simp add: WZ_DMA_NOFBUFS_def)
next
  fix i :: nat
  have "(i + 1) AND mask 7 = (i + 1) mod 2 ^ 7"
    by (simp only: take_bit_eq_mask[symmetric] take_bit_eq_mod)
  then show "wz_next i = (i + 1) mod WZ_DMA_NOFBUFS"
    by (simp add: wz_next_def WZ_DMA_NOFBUFS_def mask_eq_exp_minus_1)
qed

text \<open>The extension between \<^verbatim>\<open>wz_start\<close> and \<^verbatim>\<open>wz_stop\<close>: complete arrays, distinct live descriptors, a copy of
  each, an allocated FIFO and scan positions inside the ring.\<close>

definition wz_wf :: "wz_ext \<Rightarrow> world \<Rightarrow> bool" where
  "wz_wf ext w \<longleftrightarrow> length (buf_dma_t ext) = WZ_DMA_NOFBUFS \<and> length (desc ext) = WZ_DMA_NOFBUFS \<and>
     distinct (desc ext) \<and> (\<forall>p \<in> set (desc ext). dmem w p \<noteq> None) \<and>
     (case desc_copy ext of None \<Rightarrow> False | Some (_, cs) \<Rightarrow> length cs = WZ_DMA_NOFBUFS) \<and>
     kfifo ext \<noteq> None \<and> block_first_desc ext < WZ_DMA_NOFBUFS \<and> block_scanned_desc ext < WZ_DMA_NOFBUFS"

definition wz_copy :: "wz_ext \<Rightarrow> nat \<Rightarrow> xdma_desc" where
  "wz_copy ext i = (case desc_copy ext of None \<Rightarrow> zero_desc | Some (_, cs) \<Rightarrow> cs ! i)"

lemma wz_wf_io [simp]: "wz_wf ext (w\<lparr>io := l\<rparr>) = wz_wf ext w"
  and wz_wf_emit [simp]: "wz_wf ext (emit x w) = wz_wf ext w"
  by (simp_all add: wz_wf_def)

lemma wz_wf_dmem: "wz_wf ext w \<Longrightarrow> dom (dmem w) \<subseteq> dom (dmem w') \<Longrightarrow> wz_wf ext w'"
  by (auto simp: wz_wf_def dom_def subset_iff)

lemma wz_wf_lengths:
  "wz_wf ext w \<Longrightarrow> length (buf_dma_t ext) = WZ_DMA_NOFBUFS \<and> length (desc ext) = WZ_DMA_NOFBUFS"
  by (simp add: wz_wf_def)

lemma wz_live:
  assumes "wz_wf ext w" and "i < WZ_DMA_NOFBUFS"
  obtains d where "dmem w (desc ext ! i) = Some d"
  using assms nth_mem[of i "desc ext"] unfolding wz_wf_def by (metis not_None_eq)

lemma wz_wf_upd [simp]: "wz_wf ext w \<Longrightarrow> wz_wf ext (v\<lparr>dmem := (dmem w)(p \<mapsto> d)\<rparr>)"
  by (auto simp: wz_wf_def)

lemma wz_restore_run:
  assumes "wz_wf ext w" and "i < WZ_DMA_NOFBUFS"
  shows "wz_restore_one i ext w = Some (w\<lparr>io := io w @ [KV (C_sync_for_device (buf_dma_t ext ! i))],
    dmem := (dmem w)(desc ext ! i \<mapsto> wz_copy ext i)\<rparr>)"
proof -
  obtain d where "dmem w (desc ext ! i) = Some d" using wz_live[OF assms] .
  moreover obtain p cs where "desc_copy ext = Some (p, cs)" "length cs = WZ_DMA_NOFBUFS"
    using assms by (auto simp: wz_wf_def split: option.splits)
  moreover have upd: "d\<lparr>bytes := bytes c, src_addr_lo := src_addr_lo c, src_addr_hi := src_addr_hi c,
      dst_addr_lo := dst_addr_lo c, dst_addr_hi := dst_addr_hi c, next_lo := next_lo c, next_hi := next_hi c,
      control := control c\<rparr> = c" for c :: xdma_desc by simp
  ultimately show ?thesis using assms
    by (simp add: wz_restore_one_def wz_wf_def wz_copy_def desc_simps call_void_def emit_def upd)
qed

lemma wz_desc_inj:
  "wz_wf ext w \<Longrightarrow> i < WZ_DMA_NOFBUFS \<Longrightarrow> j < WZ_DMA_NOFBUFS \<Longrightarrow> desc ext ! i = desc ext ! j \<longleftrightarrow> i = j"
  by (simp add: wz_wf_def nth_eq_iff_index_eq)

lemma wz_confirm_loop_restores:
  assumes "first < WZ_DMA_NOFBUFS" and "last_d < WZ_DMA_NOFBUFS" and "wz_wf ext w"
  shows "\<exists>w'. wz_confirm_loop first last_d ext w = Some (Some w') \<and> xfers w' = xfers w \<and> hw w' = hw w \<and> kint w' = kint w \<and> wz_wf ext w' \<and>
    (\<forall>i < WZ_DMA_NOFBUFS. dmem w' (desc ext ! i) =
       (if i \<in> wzr.arc first last_d then Some (wz_copy ext i) else dmem w (desc ext ! i))) \<and>
    (\<forall>p. p \<notin> set (desc ext) \<longrightarrow> dmem w' p = dmem w p)"
  using assms
proof (induction first arbitrary: w rule: wzr.walk_induct)
  case stop
  let ?w = "w\<lparr>io := io w @ [KV (C_sync_for_device (buf_dma_t ext ! last_d))],
    dmem := (dmem w)(desc ext ! last_d \<mapsto> wz_copy ext last_d)\<rparr>"
  have "wz_confirm_loop last_d last_d ext w = Some (Some ?w)"
    using stop assms(2) by (subst wz_confirm_loop.simps) (simp add: wz_restore_run)
  then show ?case
    using assms(2) stop wz_desc_inj[OF stop] nth_mem[of last_d "desc ext"] wz_wf_lengths[OF stop]
    by (auto simp: wzr.arc_self)
next
  case (step i)
  let ?w = "w\<lparr>io := io w @ [KV (C_sync_for_device (buf_dma_t ext ! i))],
    dmem := (dmem w)(desc ext ! i \<mapsto> wz_copy ext i)\<rparr>"
  have l: "wz_confirm_loop i last_d ext w = wz_confirm_loop (wz_next i) last_d ext ?w"
    using step by (subst wz_confirm_loop.simps) (simp add: wz_restore_run)
  have "wz_wf ext ?w" using step.prems by simp
  from step.IH[OF this] show ?case
    using step.hyps wz_desc_inj[OF step.prems] nth_mem[of i "desc ext"] wz_wf_lengths[OF step.prems]
    unfolding l wzr.arc_step[OF step.hyps(1) assms(2) step.hyps(2)] by auto
qed

lemma wz_confirm_diverges:
  assumes "first < WZ_DMA_NOFBUFS" and "WZ_DMA_NOFBUFS \<le> last_d" and "wz_wf ext w"
  shows "wz_confirm_loop first last_d ext w = None"
proof -
  have "\<not> (i < WZ_DMA_NOFBUFS \<and> WZ_DMA_NOFBUFS \<le> l \<and> wz_wf x v)"
    if "wz_confirm_loop i l x v = Some r" for i l x v r
  proof (rule wz_confirm_loop.raw_induct[OF _ that])
    fix f i l x v r
    assume IH: "\<And>i l x v r. f i l x v = Some r \<Longrightarrow> \<not> (i < WZ_DMA_NOFBUFS \<and> WZ_DMA_NOFBUFS \<le> l \<and> wz_wf x v)"
      and body: "(case wz_restore_one i x v of None \<Rightarrow> Some None
        | Some w \<Rightarrow> if i = l then Some (Some w) else f (wz_next i) l x w) = Some r"
    show "\<not> (i < WZ_DMA_NOFBUFS \<and> WZ_DMA_NOFBUFS \<le> l \<and> wz_wf x v)"
    proof
      assume a: "i < WZ_DMA_NOFBUFS \<and> WZ_DMA_NOFBUFS \<le> l \<and> wz_wf x v"
      with body have "f (wz_next i) l x (v\<lparr>io := io v @ [KV (C_sync_for_device (buf_dma_t x ! i))],
    dmem := (dmem v)(desc x ! i \<mapsto> wz_copy x i)\<rparr>) = Some r"
        by (auto simp: wz_restore_run)
      from IH[OF this] a show False by (auto simp: wzr.nxt_less)
    qed
  qed
  with assms show ?thesis by (cases "wz_confirm_loop first last_d ext w") auto
qed

section \<open>Blocks of the ring\<close>

text \<open>The specification of the scan. \<open>path c n\<close> are the \<open>n\<close> ring positions from \<open>c\<close> on; \<open>segments\<close> cuts the
  sequence of their results after every end-of-packet, starting a block at \<open>f\<close>, and returns the
  complete blocks and the start of the incomplete one.\<close>

fun path :: "nat \<Rightarrow> nat \<Rightarrow> nat list" where
  "path c 0 = []"
| "path c (Suc n) = c # path (wz_next c) n"

fun segments :: "(nat \<Rightarrow> xdma_result) \<Rightarrow> nat \<Rightarrow> nat list \<Rightarrow> block_desc list \<times> nat" where
  "segments res f [] = ([], f)"
| "segments res f (i # is) =
    (if has_eop (res i)
     then (case segments res (wz_next i) is of (bs, f') \<Rightarrow>
       (\<lparr>first_desc = of_nat f, last_desc = of_nat i, last_len = res_length (res i)\<rparr> # bs, f'))
     else segments res f is)"

definition wb_at :: "wz_ext \<Rightarrow> world \<Rightarrow> nat \<Rightarrow> xdma_result" where
  "wb_at ext w i = (case dmem w (desc ext ! i) of None \<Rightarrow> result_of_desc zero_desc | Some d \<Rightarrow> result_of_desc d)"

lemma path_mod: "c < WZ_DMA_NOFBUFS \<Longrightarrow> path c n = map (\<lambda>k. (c + k) mod WZ_DMA_NOFBUFS) [0..<n]"
proof (induction n arbitrary: c)
  case 0
  then show ?case by simp
next
  case (Suc n)
  have "map (\<lambda>k. (wz_next c + k) mod WZ_DMA_NOFBUFS) [0..<n] = map (\<lambda>k. (c + k) mod WZ_DMA_NOFBUFS) [1..<Suc n]"
    using Suc.prems by (simp add: wzr.nxt_mod map_Suc_upt[symmetric] mod_simps comp_def del: upt_Suc)
  with Suc wzr.nxt_less[OF Suc.prems] show ?case by (simp add: upt_conv_Cons del: upt_Suc)
qed

text \<open>Ready-made unfoldings of one round of the scan.\<close>

lemma wz_scan_step:
  assumes "wz_wf ext w" and "c < WZ_DMA_NOFBUFS"
  shows "wz_scan c ext w = (let res = wb_at ext w c in
    if \<not> has_wb res then Some (Some (ext\<lparr>block_scanned_desc := c\<rparr>, w))
    else let w = emit (KV (C_sync_for_cpu (buf_dma_t ext ! c))) w in
      if has_eop res then
        (case kfifo ext of None \<Rightarrow> Some None | Some q \<Rightarrow>
           if length q < WZ_DMA_NOFBUFS then
             wz_scan (wz_next c)
               (ext\<lparr>kfifo := Some (q @ [\<lparr>first_desc = of_nat (block_first_desc ext),
                    last_desc = of_nat c, last_len = res_length res\<rparr>]),
                   block_first_desc := wz_next c, block_scanned_desc := wz_next c\<rparr>)
               (emit (KV (C_wake_up ''getbuf_wq'')) w)
           else Some (Some (ext, w)))
      else wz_scan (wz_next c) ext w)"
proof -
  obtain d where "dmem w (desc ext ! c) = Some d" using wz_live[OF assms] .
  then show ?thesis
    using assms(2) wz_wf_lengths[OF assms(1)]
    by (subst wz_scan.simps) (cases "kfifo ext"; simp add: wb_at_def Let_def call_void_def)
qed

lemma wz_wf_ext [simp]:
  "wz_wf ext w \<Longrightarrow> f < WZ_DMA_NOFBUFS \<Longrightarrow> s < WZ_DMA_NOFBUFS \<Longrightarrow>
     wz_wf (ext\<lparr>kfifo := Some q, block_first_desc := f, block_scanned_desc := s\<rparr>) w"
  by (simp add: wz_wf_def)

lemma wb_at_emit [simp]: "wb_at ext (emit x w) = wb_at ext w"
  and wb_at_ext [simp]: "wb_at (ext\<lparr>kfifo := k, block_first_desc := f, block_scanned_desc := s\<rparr>) w = wb_at ext w"
  by (simp_all add: wb_at_def fun_eq_iff)

text \<open>What a scan does when the FIFO takes all the complete blocks.\<close>

lemma wz_scan_room:
  assumes "wz_wf ext w" and "c < WZ_DMA_NOFBUFS" and "kfifo ext = Some q"
    and "\<forall>i \<in> set (path c n). has_wb (wb_at ext w i)" and "\<not> has_wb (wb_at ext w ((wz_next ^^ n) c))"
    and "segments (wb_at ext w) (block_first_desc ext) (path c n) = (bs, f)"
    and "length q + length bs \<le> WZ_DMA_NOFBUFS"
  shows "\<exists>l. wz_scan c ext w = Some (Some (ext\<lparr>kfifo := Some (q @ bs), block_first_desc := f,
      block_scanned_desc := (wz_next ^^ n) c\<rparr>, w\<lparr>io := io w @ l\<rparr>)) \<and>
    filter (\<lambda>x. x = KV (C_wake_up ''getbuf_wq'')) l = replicate (length bs) (KV (C_wake_up ''getbuf_wq''))"
  using assms
proof (induction n arbitrary: c ext w q bs)
  case 0
  then show ?case by (subst wz_scan_step) (auto simp: Let_def intro!: exI[of _ "[]"])
next
  case (Suc n)
  let ?r = "wb_at ext w c" and ?w = "emit (KV (C_sync_for_cpu (buf_dma_t ext ! c))) w"
  have c': "wz_next c < WZ_DMA_NOFBUFS" using Suc.prems(2) by (rule wzr.nxt_less)
  have wb: "has_wb ?r" using Suc.prems(4) by simp
  have fp: "(wz_next ^^ Suc n) c = (wz_next ^^ n) (wz_next c)" by (simp add: funpow_swap1)
  show ?case
  proof (cases "has_eop ?r")
    case False
    have "wz_scan c ext w = wz_scan (wz_next c) ext ?w"
      using Suc.prems(1,2) wb False by (subst wz_scan_step) (simp_all add: Let_def)
    moreover have "\<exists>l. wz_scan (wz_next c) ext ?w = Some (Some (ext\<lparr>kfifo := Some (q @ bs), block_first_desc := f,
        block_scanned_desc := (wz_next ^^ n) (wz_next c)\<rparr>, ?w\<lparr>io := io ?w @ l\<rparr>)) \<and>
      filter (\<lambda>x. x = KV (C_wake_up ''getbuf_wq'')) l = replicate (length bs) (KV (C_wake_up ''getbuf_wq''))"
      by (rule Suc.IH) (use Suc.prems c' False fp in auto)
    then obtain l where "wz_scan (wz_next c) ext ?w = Some (Some (ext\<lparr>kfifo := Some (q @ bs), block_first_desc := f,
        block_scanned_desc := (wz_next ^^ n) (wz_next c)\<rparr>, ?w\<lparr>io := io ?w @ l\<rparr>))"
      "filter (\<lambda>x. x = KV (C_wake_up ''getbuf_wq'')) l = replicate (length bs) (KV (C_wake_up ''getbuf_wq''))" by blast
    ultimately show ?thesis unfolding fp
      by (intro exI[of _ "KV (C_sync_for_cpu (buf_dma_t ext ! c)) # l"]) (simp add: emit_def)
  next
    case True
    let ?b = "\<lparr>first_desc = of_nat (block_first_desc ext), last_desc = of_nat c, last_len = res_length ?r\<rparr>"
    let ?ext = "ext\<lparr>kfifo := Some (q @ [?b]), block_first_desc := wz_next c, block_scanned_desc := wz_next c\<rparr>"
    let ?w' = "emit (KV (C_wake_up ''getbuf_wq'')) ?w"
    from Suc.prems(6) True obtain bs' where bs: "bs = ?b # bs'"
      "segments (wb_at ext w) (wz_next c) (path (wz_next c) n) = (bs', f)"
      by (auto split: prod.splits)
    have "wz_scan c ext w = wz_scan (wz_next c) ?ext ?w'"
      using Suc.prems(1,2,3,7) wb True bs(1) by (subst wz_scan_step) (simp_all add: Let_def)
    moreover have "\<exists>l. wz_scan (wz_next c) ?ext ?w' = Some (Some (?ext\<lparr>kfifo := Some ((q @ [?b]) @ bs'),
        block_first_desc := f, block_scanned_desc := (wz_next ^^ n) (wz_next c)\<rparr>, ?w'\<lparr>io := io ?w' @ l\<rparr>)) \<and>
      filter (\<lambda>x. x = KV (C_wake_up ''getbuf_wq'')) l = replicate (length bs') (KV (C_wake_up ''getbuf_wq''))"
      by (rule Suc.IH) (use Suc.prems c' bs fp in auto)
    then obtain l where "wz_scan (wz_next c) ?ext ?w' = Some (Some (?ext\<lparr>kfifo := Some ((q @ [?b]) @ bs'),
        block_first_desc := f, block_scanned_desc := (wz_next ^^ n) (wz_next c)\<rparr>, ?w'\<lparr>io := io ?w' @ l\<rparr>))"
      "filter (\<lambda>x. x = KV (C_wake_up ''getbuf_wq'')) l = replicate (length bs') (KV (C_wake_up ''getbuf_wq''))" by blast
    ultimately show ?thesis unfolding fp bs(1)
      by (intro exI[of _ "KV (C_sync_for_cpu (buf_dma_t ext ! c)) # KV (C_wake_up ''getbuf_wq'') # l"]) (simp add: emit_def)
  qed
qed

lemma segments_first: "segments res f is = (b # bs, f') \<Longrightarrow> first_desc b = of_nat f"
proof (induction "is" arbitrary: f)
  case Nil
  then show ?case by simp
next
  case (Cons i "is")
  show ?case
  proof (cases "has_eop (res i)")
    case True
    then show ?thesis using Cons.prems by (auto split: prod.splits)
  next
    case False
    then show ?thesis using Cons.IH[of f] Cons.prems by simp
  qed
qed

text \<open>What it does when the FIFO runs full: it delivers as many blocks as fit and leaves the scan position
  so that the next scan starts over at the first block that did not.\<close>

lemma wz_scan_full:
  assumes "wz_wf ext w" and "c < WZ_DMA_NOFBUFS" and "kfifo ext = Some q"
    and "\<forall>i \<in> set (path c n). has_wb (wb_at ext w i)"
    and "segments (wb_at ext w) (block_first_desc ext) (path c n) = (bs, f)"
    and "length q + room = WZ_DMA_NOFBUFS" and "room < length bs"
  shows "\<exists>w'. wz_scan c ext w = Some (Some (ext\<lparr>kfifo := Some (q @ take room bs),
      block_first_desc := unat (first_desc (bs ! room)),
      block_scanned_desc := (if room = 0 then block_scanned_desc ext else unat (first_desc (bs ! room)))\<rparr>, w'))"
  using assms
proof (induction n arbitrary: c ext w q bs room)
  case 0
  then show ?case by simp
next
  case (Suc n)
  let ?r = "wb_at ext w c" and ?w = "emit (KV (C_sync_for_cpu (buf_dma_t ext ! c))) w"
  have c': "wz_next c < WZ_DMA_NOFBUFS" using Suc.prems(2) by (rule wzr.nxt_less)
  have wb: "has_wb ?r" using Suc.prems(4) by simp
  have bf: "unat (of_nat (block_first_desc ext) :: u32) = block_first_desc ext"
    using Suc.prems(1) by (intro unat_small32) (auto simp: wz_wf_def WZ_DMA_NOFBUFS_def)
  show ?case
  proof (cases "has_eop ?r")
    case False
    have "wz_scan c ext w = wz_scan (wz_next c) ext ?w"
      using Suc.prems(1,2) wb False by (subst wz_scan_step) (simp_all add: Let_def)
    then show ?thesis using Suc.IH[of ext ?w "wz_next c" q bs room] Suc.prems c' False by simp
  next
    case True
    let ?b = "\<lparr>first_desc = of_nat (block_first_desc ext), last_desc = of_nat c, last_len = res_length ?r\<rparr>"
    let ?ext = "ext\<lparr>kfifo := Some (q @ [?b]), block_first_desc := wz_next c, block_scanned_desc := wz_next c\<rparr>"
    let ?w' = "emit (KV (C_wake_up ''getbuf_wq'')) ?w"
    from Suc.prems(5) True obtain bs' where bs: "bs = ?b # bs'"
      "segments (wb_at ext w) (wz_next c) (path (wz_next c) n) = (bs', f)"
      by (auto split: prod.splits)
    show ?thesis
    proof (cases room)
      case 0
      have "wz_scan c ext w = Some (Some (ext, ?w))"
        using Suc.prems(1,2,3,6) wb True 0 by (subst wz_scan_step) (simp_all add: Let_def)
      then show ?thesis using 0 bs(1) bf Suc.prems(3) by (intro exI[of _ ?w]) simp
    next
      case (Suc room')
      have "wz_scan c ext w = wz_scan (wz_next c) ?ext ?w'"
        using Suc.prems(1,2,3,6) wb True Suc by (subst wz_scan_step) (simp_all add: Let_def)
      moreover have "\<exists>w''. wz_scan (wz_next c) ?ext ?w' = Some (Some (?ext\<lparr>kfifo := Some ((q @ [?b]) @ take room' bs'),
          block_first_desc := unat (first_desc (bs' ! room')),
          block_scanned_desc := (if room' = 0 then block_scanned_desc ?ext else unat (first_desc (bs' ! room')))\<rparr>, w''))"
        by (rule Suc.IH) (use Suc.prems Suc c' bs in auto)
      then obtain w'' where "wz_scan (wz_next c) ?ext ?w' = Some (Some (?ext\<lparr>kfifo := Some ((q @ [?b]) @ take room' bs'),
          block_first_desc := unat (first_desc (bs' ! room')),
          block_scanned_desc := (if room' = 0 then block_scanned_desc ?ext else unat (first_desc (bs' ! room')))\<rparr>, w''))"
        by blast
      moreover have "unat (first_desc (bs' ! 0)) = wz_next c"
        using segments_first[of "wb_at ext w" "wz_next c"] bs Suc Suc.prems(7) c'
        by (cases bs') (auto simp: WZ_DMA_NOFBUFS_def)
      ultimately show ?thesis using Suc bs(1) by (intro exI[of _ w'']) simp
    qed
  qed
qed

text \<open>The induction that belongs to the scan of a well-formed ring.\<close>

lemma wz_scan_induct [consumes 3, case_names stop full more block]:
  assumes "wz_scan c ext w = Some r" and "wz_wf ext w" and "c < WZ_DMA_NOFBUFS"
    and stop: "\<And>c x v. wz_wf x v \<Longrightarrow> c < WZ_DMA_NOFBUFS \<Longrightarrow> \<not> has_wb (wb_at x v c) \<Longrightarrow>
      P c x v (Some (x\<lparr>block_scanned_desc := c\<rparr>, v))"
    and full: "\<And>c x v q. wz_wf x v \<Longrightarrow> c < WZ_DMA_NOFBUFS \<Longrightarrow> has_wb (wb_at x v c) \<Longrightarrow> has_eop (wb_at x v c) \<Longrightarrow>
      kfifo x = Some q \<Longrightarrow> \<not> length q < WZ_DMA_NOFBUFS \<Longrightarrow> P c x v (Some (x, emit (KV (C_sync_for_cpu (buf_dma_t x ! c))) v))"
    and more: "\<And>c x v r. wz_wf x v \<Longrightarrow> c < WZ_DMA_NOFBUFS \<Longrightarrow> has_wb (wb_at x v c) \<Longrightarrow> \<not> has_eop (wb_at x v c) \<Longrightarrow>
      P (wz_next c) x (emit (KV (C_sync_for_cpu (buf_dma_t x ! c))) v) r \<Longrightarrow> P c x v r"
    and block: "\<And>c x v q r. wz_wf x v \<Longrightarrow> c < WZ_DMA_NOFBUFS \<Longrightarrow> has_wb (wb_at x v c) \<Longrightarrow> has_eop (wb_at x v c) \<Longrightarrow>
      kfifo x = Some q \<Longrightarrow> length q < WZ_DMA_NOFBUFS \<Longrightarrow>
      P (wz_next c) (x\<lparr>kfifo := Some (q @ [\<lparr>first_desc = of_nat (block_first_desc x), last_desc = of_nat c,
            last_len = res_length (wb_at x v c)\<rparr>]), block_first_desc := wz_next c, block_scanned_desc := wz_next c\<rparr>)
        (emit (KV (C_wake_up ''getbuf_wq'')) (emit (KV (C_sync_for_cpu (buf_dma_t x ! c))) v)) r \<Longrightarrow> P c x v r"
  shows "P c ext w r"
proof -
  have "wz_wf ext w \<longrightarrow> c < WZ_DMA_NOFBUFS \<longrightarrow> P c ext w r"
  proof (rule wz_scan.raw_induct[OF _ assms(1)], intro impI)
    fix f c x v r
    assume IH: "\<And>c x v r. f c x v = Some r \<Longrightarrow> wz_wf x v \<longrightarrow> c < WZ_DMA_NOFBUFS \<longrightarrow> P c x v r"
      and body: "(case do { p \<leftarrow> arr_get (desc x) c; d \<leftarrow> dmem v p; buf \<leftarrow> arr_get (buf_dma_t x) c;
               Some (result_of_desc d, buf) } of
       None \<Rightarrow> Some None
     | Some (res, buf) \<Rightarrow>
         if \<not> has_wb res then Some (Some (x\<lparr>block_scanned_desc := c\<rparr>, v))
         else let w = call_void (C_sync_for_cpu buf) v in
           if has_eop res then
             (case kfifo x of
                None \<Rightarrow> Some None
              | Some q \<Rightarrow>
                  if length q < WZ_DMA_NOFBUFS then
                    f (wz_next c)
                      (x\<lparr>kfifo := Some (q @ [\<lparr>first_desc = of_nat (block_first_desc x),
                                              last_desc = of_nat c, last_len = res_length res\<rparr>]),
                          block_first_desc := wz_next c, block_scanned_desc := wz_next c\<rparr>)
                      (call_void (C_wake_up ''getbuf_wq'') w)
                  else Some (Some (x, w)))
           else f (wz_next c) x w) = Some r"
      and wf: "wz_wf x v" and c: "c < WZ_DMA_NOFBUFS"
    from wz_live[OF wf c] obtain d where d: "dmem v (desc x ! c) = Some d" .
    obtain q where q: "kfifo x = Some q" using wf by (auto simp: wz_wf_def)
    have wb: "wb_at x v c = result_of_desc d" using d by (simp add: wb_at_def)
    have c': "wz_next c < WZ_DMA_NOFBUFS" using c by (rule wzr.nxt_less)
    have len: "length (desc x) = WZ_DMA_NOFBUFS" "length (buf_dma_t x) = WZ_DMA_NOFBUFS" using wf by (auto simp: wz_wf_def)
    consider "\<not> has_wb (wb_at x v c)" | "has_wb (wb_at x v c)" "has_eop (wb_at x v c)" "\<not> length q < WZ_DMA_NOFBUFS"
      | "has_wb (wb_at x v c)" "has_eop (wb_at x v c)" "length q < WZ_DMA_NOFBUFS" | "has_wb (wb_at x v c)" "\<not> has_eop (wb_at x v c)"
      by blast
    then show "P c x v r"
    proof cases
      case 1
      with body d len c wb have "r = Some (x\<lparr>block_scanned_desc := c\<rparr>, v)" by simp
      with stop[OF wf c 1] show ?thesis by simp
    next
      case 2
      with body d len c wb q have "r = Some (x, emit (KV (C_sync_for_cpu (buf_dma_t x ! c))) v)" by (simp add: call_void_def)
      with full[OF wf c 2(1,2) q 2(3)] show ?thesis by simp
    next
      case 3
      show ?thesis
        by (rule block[OF wf c 3(1,2) q 3(3)], rule IH[rule_format])
          (use body d len c c' wb q 3 wf in \<open>simp_all add: call_void_def\<close>)
    next
      case 4
      show ?thesis
        by (rule more[OF wf c 4], rule IH[rule_format]) (use body d len c c' wb 4 wf in \<open>simp_all add: call_void_def\<close>)
    qed
  qed
  with assms(2,3) show ?thesis by blast
qed

lemma wz_scan_diverges:
  assumes "wz_wf ext w" and "c < WZ_DMA_NOFBUFS"
    and "\<forall>i < WZ_DMA_NOFBUFS. has_wb (wb_at ext w i) \<and> \<not> has_eop (wb_at ext w i)"
  shows "wz_scan c ext w = None"
proof -
  have "\<not> (\<forall>i < WZ_DMA_NOFBUFS. has_wb (wb_at ext w i) \<and> \<not> has_eop (wb_at ext w i))"
    if "wz_scan c ext w = Some r" for r
    using that assms(1,2) by (induction rule: wz_scan_induct) auto
  with assms show ?thesis by (cases "wz_scan c ext w") auto
qed

section \<open>Properties of the block ring\<close>

text \<open>A concrete extension: descriptors at the addresses 4096 to 4223, nothing written back, an empty FIFO.\<close>

definition demo_ext :: wz_ext where
  "demo_ext = zero_ext\<lparr>desc := map of_nat [4096..<4224], desc_copy := Some (1, replicate 128 zero_desc), kfifo := Some []\<rparr>"

lemma demo_ext_wf: "(\<And>p. dmem w p \<noteq> None) \<Longrightarrow> wz_wf demo_ext w"
proof -
  have "inj_on (of_nat :: nat \<Rightarrow> u64) {4096..<4224}"
    by (rule inj_on_inverseI[where g = unat]) simp
  moreover assume "\<And>p. dmem w p \<noteq> None"
  ultimately show ?thesis
    by (simp add: wz_wf_def demo_ext_def zero_ext_def WZ_DMA_NOFBUFS_def distinct_map)
qed

text \<open>C3. A scan in the interrupt service delivers exactly the complete blocks. Let the \<open>n\<close> descriptors from
  the scan position on carry a write-back and the next one none. If the FIFO has room for the blocks
  that end among them, the service returns with these blocks, in ring order, appended to the FIFO,
  the incomplete rest remembered, the scan position after the last write-back, one wake-up per
  block and no descriptor changed. A block is the maximal run that ends with an end-of-packet.\<close>

theorem wz_interrupt_delivers_blocks:
  assumes "magic e = MAGIC_ENGINE" and "wz_wf (wz_ext e) w" and "kfifo (wz_ext e) = Some q"
    and busy: "\<And>l. hw w l (regs e + er R_status_rc) = st" "st AND XDMA_STAT_BUSY \<noteq> 0"
    and wb: "\<forall>i \<in> set (path (block_scanned_desc (wz_ext e)) n). has_wb (wb_at (wz_ext e) w i)"
      "\<not> has_wb (wb_at (wz_ext e) w ((block_scanned_desc (wz_ext e) + n) mod WZ_DMA_NOFBUFS))"
    and seg: "segments (wb_at (wz_ext e) w) (block_first_desc (wz_ext e)) (path (block_scanned_desc (wz_ext e)) n) = (bs, f)"
    and room: "length q + length bs \<le> WZ_DMA_NOFBUFS"
  shows "\<exists>l. wz_engine_service_cyclic_interrupt e w = Some (Some (0, e\<lparr>status := st,
      wz_ext := (wz_ext e)\<lparr>kfifo := Some (q @ bs), block_first_desc := f,
        block_scanned_desc := (block_scanned_desc (wz_ext e) + n) mod WZ_DMA_NOFBUFS\<rparr>\<rparr>, w\<lparr>io := io w @ l\<rparr>)) \<and>
    filter (\<lambda>x. x = KV (C_wake_up ''getbuf_wq'')) l = replicate (length bs) (KV (C_wake_up ''getbuf_wq''))"
proof -
  let ?x = "wz_ext e" and ?c = "block_scanned_desc (wz_ext e)"
  let ?w = "emit (Rd (regs e + er R_status_rc) st) w"
  have c: "?c < WZ_DMA_NOFBUFS" using assms(2) by (simp add: wz_wf_def)
  have fp: "(wz_next ^^ n) ?c = (?c + n) mod WZ_DMA_NOFBUFS" using wzr.funpow_nxt[OF c] .
  have "\<exists>l. wz_scan ?c ?x ?w = Some (Some (?x\<lparr>kfifo := Some (q @ bs), block_first_desc := f,
      block_scanned_desc := (wz_next ^^ n) ?c\<rparr>, ?w\<lparr>io := io ?w @ l\<rparr>)) \<and>
    filter (\<lambda>x. x = KV (C_wake_up ''getbuf_wq'')) l = replicate (length bs) (KV (C_wake_up ''getbuf_wq''))"
    by (rule wz_scan_room) (use assms c fp in auto)
  then obtain l where l: "wz_scan ?c ?x ?w = Some (Some (?x\<lparr>kfifo := Some (q @ bs), block_first_desc := f,
      block_scanned_desc := (wz_next ^^ n) ?c\<rparr>, ?w\<lparr>io := io ?w @ l\<rparr>))"
    "filter (\<lambda>x. x = KV (C_wake_up ''getbuf_wq'')) l = replicate (length bs) (KV (C_wake_up ''getbuf_wq''))" by blast
  then show ?thesis
    using assms(1) busy unfolding fp
    by (intro exI[of _ "Rd (regs e + er R_status_rc) st # l"])
      (simp add: wz_engine_service_cyclic_interrupt_def engine_status_read_def read_register_def emit_def)
qed

theorem wz_interrupt_delivers_blocks_witness:
  "\<exists>e' w'. wz_engine_service_cyclic_interrupt (zero_engine\<lparr>magic := MAGIC_ENGINE, wz_ext := demo_ext\<rparr>)
     (quiet_world\<lparr>hw := \<lambda>_ _. 1, dmem := \<lambda>p. Some (if p = 4096 then zero_desc\<lparr>control := 0x52B40001, bytes := 77\<rparr> else zero_desc)\<rparr>)
     = Some (Some (0, e', w')) \<and>
   kfifo (wz_ext e') = Some [\<lparr>first_desc = 0, last_desc = 0, last_len = 77\<rparr>] \<and> block_scanned_desc (wz_ext e') = 1"
proof -
  let ?e = "zero_engine\<lparr>magic := MAGIC_ENGINE, wz_ext := demo_ext\<rparr>"
  let ?w = "quiet_world\<lparr>hw := \<lambda>_ _. 1, dmem := \<lambda>p. Some (if p = 4096 then zero_desc\<lparr>control := 0x52B40001, bytes := 77\<rparr> else zero_desc)\<rparr>"
  have wf: "wz_wf demo_ext ?w" by (rule demo_ext_wf) simp
  have n: "wz_next 0 = 1" by (simp add: wz_next_def WZ_DMA_NOFBUFS_def)
  have r: "wb_at demo_ext ?w 0 = \<lparr>res_status = 0x52B40001, res_length = 77\<rparr>" "wb_at demo_ext ?w 1 = \<lparr>res_status = 0, res_length = 0\<rparr>"
    by (simp_all add: wb_at_def demo_ext_def result_of_desc_def zero_desc_def)
  show ?thesis
    using wz_interrupt_delivers_blocks[where e = ?e and w = ?w and n = 1 and q = "[]" and st = 1 and f = 1
        and bs = "[\<lparr>first_desc = 0, last_desc = 0, last_len = 77\<rparr>]"] wf r n
    by (auto simp: has_wb_def has_eop_def const_defs demo_ext_def zero_ext_def)
qed

text \<open>A full FIFO loses no block. When the FIFO has room for fewer blocks than the scan finds, it takes
  the first ones and the positions are left at the start of the first undelivered block (or
  unchanged when none fitted), so that the next interrupt scans that block again.\<close>

theorem wz_interrupt_full_fifo:
  assumes "magic e = MAGIC_ENGINE" and "wz_wf (wz_ext e) w" and "kfifo (wz_ext e) = Some q"
    and busy: "\<And>l. hw w l (regs e + er R_status_rc) = st" "st AND XDMA_STAT_BUSY \<noteq> 0"
    and wb: "\<forall>i \<in> set (path (block_scanned_desc (wz_ext e)) n). has_wb (wb_at (wz_ext e) w i)"
    and seg: "segments (wb_at (wz_ext e) w) (block_first_desc (wz_ext e)) (path (block_scanned_desc (wz_ext e)) n) = (bs, f)"
    and room: "length q + room = WZ_DMA_NOFBUFS" "room < length bs"
  shows "\<exists>e' w'. wz_engine_service_cyclic_interrupt e w = Some (Some (0, e', w')) \<and>
    kfifo (wz_ext e') = Some (q @ take room bs) \<and>
    block_first_desc (wz_ext e') = unat (first_desc (bs ! room)) \<and>
    block_scanned_desc (wz_ext e') = (if room = 0 then block_scanned_desc (wz_ext e) else unat (first_desc (bs ! room)))"
proof -
  let ?w = "emit (Rd (regs e + er R_status_rc) st) w"
  have "\<exists>w'. wz_scan (block_scanned_desc (wz_ext e)) (wz_ext e) ?w = Some (Some ((wz_ext e)\<lparr>kfifo := Some (q @ take room bs),
      block_first_desc := unat (first_desc (bs ! room)),
      block_scanned_desc := (if room = 0 then block_scanned_desc (wz_ext e) else unat (first_desc (bs ! room)))\<rparr>, w'))"
    by (rule wz_scan_full) (use assms in \<open>auto simp: wz_wf_def\<close>)
  with assms(1) busy show ?thesis
    by (auto simp: wz_engine_service_cyclic_interrupt_def engine_status_read_def read_register_def)
qed

theorem wz_interrupt_full_fifo_witness:
  "\<exists>e' w'. wz_engine_service_cyclic_interrupt (zero_engine\<lparr>magic := MAGIC_ENGINE,
       wz_ext := demo_ext\<lparr>kfifo := Some (replicate 128 \<lparr>first_desc = 5, last_desc = 5, last_len = 1\<rparr>)\<rparr>\<rparr>)
     (quiet_world\<lparr>hw := \<lambda>_ _. 1, dmem := \<lambda>p. Some (if p = 4096 then zero_desc\<lparr>control := 0x52B40001, bytes := 77\<rparr> else zero_desc)\<rparr>)
     = Some (Some (0, e', w')) \<and> block_first_desc (wz_ext e') = 0 \<and> block_scanned_desc (wz_ext e') = 0"
proof -
  let ?q = "replicate 128 \<lparr>first_desc = 5, last_desc = 5, last_len = 1 :: u32\<rparr>"
  let ?x = "demo_ext\<lparr>kfifo := Some ?q\<rparr>"
  let ?e = "zero_engine\<lparr>magic := MAGIC_ENGINE, wz_ext := ?x\<rparr>"
  let ?w = "quiet_world\<lparr>hw := \<lambda>_ _. 1, dmem := \<lambda>p. Some (if p = 4096 then zero_desc\<lparr>control := 0x52B40001, bytes := 77\<rparr> else zero_desc)\<rparr>"
  have "wz_wf demo_ext ?w" by (rule demo_ext_wf) simp
  then have wf: "wz_wf ?x ?w" by (simp add: wz_wf_def)
  have n: "wz_next 0 = 1" by (simp add: wz_next_def WZ_DMA_NOFBUFS_def)
  have r: "wb_at ?x ?w 0 = \<lparr>res_status = 0x52B40001, res_length = 77\<rparr>"
    by (simp add: wb_at_def demo_ext_def result_of_desc_def zero_desc_def)
  show ?thesis
    using wz_interrupt_full_fifo[where e = ?e and w = ?w and n = 1 and q = ?q and st = 1 and f = 1 and room = 0
        and bs = "[\<lparr>first_desc = 0, last_desc = 0, last_len = 77\<rparr>]"] wf r n
    by (auto simp: has_wb_def has_eop_def const_defs demo_ext_def zero_ext_def)
qed

text \<open>C35. The scan does not end when every descriptor of the ring carries a write-back and none of them an
  end-of-packet (a packet of at least \<open>128 \<cdot> 4 MiB\<close>): the interrupt service never returns.\<close>

theorem wz_interrupt_endless_scan:
  assumes "magic e = MAGIC_ENGINE" and "wz_wf (wz_ext e) w"
    and "\<forall>i < WZ_DMA_NOFBUFS. has_wb (wb_at (wz_ext e) w i) \<and> \<not> has_eop (wb_at (wz_ext e) w i)"
  shows "wz_engine_service_cyclic_interrupt e w = None"
proof -
  have "wz_scan (block_scanned_desc (wz_ext e)) (wz_ext e) (emit x w) = None" for x
    by (rule wz_scan_diverges) (use assms in \<open>auto simp: wz_wf_def\<close>)
  with assms(1) show ?thesis
    by (simp add: wz_engine_service_cyclic_interrupt_def engine_status_read_def read_register_def Let_def)
qed

theorem wz_interrupt_endless_scan_witness:
  "wz_engine_service_cyclic_interrupt (zero_engine\<lparr>magic := MAGIC_ENGINE, wz_ext := demo_ext\<rparr>)
     (quiet_world\<lparr>dmem := \<lambda>_. Some (zero_desc\<lparr>control := 0x52B40000\<rparr>)\<rparr>) = None"
proof (rule wz_interrupt_endless_scan)
  show "wz_wf (wz_ext (zero_engine\<lparr>magic := MAGIC_ENGINE, wz_ext := demo_ext\<rparr>))
      (quiet_world\<lparr>dmem := \<lambda>_. Some (zero_desc\<lparr>control := 0x52B40000\<rparr>)\<rparr>)"
    by (simp add: demo_ext_wf)
qed (simp_all add: wb_at_def has_wb_def has_eop_def result_of_desc_def C2H_WB_def)

text \<open>C5. Confirming a block restores exactly its descriptors: for positions inside the ring the handler
  returns 0, every descriptor on the way from the first to the last one (around the end of the ring if
  need be) equals its saved copy, and no other descriptor changes.\<close>

theorem wz_confirm_restores_block:
  assumes "kint w (io w) (C_copy_from_user arg 8) = 0" and "wz_wf (wz_ext e) w"
    and "usr w (io w @ [KI (C_copy_from_user arg 8) 0]) arg = of_nat first"
    and "usr w (io w @ [KI (C_copy_from_user arg 8) 0]) (arg + 4) = of_nat last_d"
    and "first < WZ_DMA_NOFBUFS" and "last_d < WZ_DMA_NOFBUFS"
  shows "\<exists>w'. ioctl_do_wz_confirm e arg w = Some (Some (0, w')) \<and>
    (\<forall>i < WZ_DMA_NOFBUFS. dmem w' (desc (wz_ext e) ! i) =
       (if \<exists>k \<le> (last_d + WZ_DMA_NOFBUFS - first) mod WZ_DMA_NOFBUFS. i = (first + k) mod WZ_DMA_NOFBUFS
        then Some (wz_copy (wz_ext e) i) else dmem w (desc (wz_ext e) ! i))) \<and>
    (\<forall>p. p \<notin> set (desc (wz_ext e)) \<longrightarrow> dmem w' p = dmem w p)"
proof -
  have "unat (of_nat first :: u32) = first" "unat (of_nat last_d :: u32) = last_d"
    using assms(5,6) by (simp_all add: WZ_DMA_NOFBUFS_def)
  moreover have "i \<in> wzr.arc first last_d \<longleftrightarrow>
      (\<exists>k \<le> (last_d + WZ_DMA_NOFBUFS - first) mod WZ_DMA_NOFBUFS. i = (first + k) mod WZ_DMA_NOFBUFS)" for i
    by (auto simp: wzr.arc_def wzr.gap_def)
  ultimately show ?thesis
    using wz_confirm_loop_restores[OF assms(5,6), of "wz_ext e" "emit (KI (C_copy_from_user arg 8) 0) w"] assms(1-4)
    by (auto simp: ioctl_do_wz_confirm_def call_int_def Let_def)
qed

theorem wz_confirm_restores_block_witness:
  "\<exists>w'. ioctl_do_wz_confirm (zero_engine\<lparr>wz_ext := demo_ext\<rparr>) 0x40
      (quiet_world\<lparr>usr := \<lambda>_ a. if a = 0x40 then 127 else 0, dmem := \<lambda>_. Some (zero_desc\<lparr>control := 0x52B40001\<rparr>)\<rparr>) = Some (Some (0, w')) \<and>
    dmem w' 4223 = Some zero_desc \<and> dmem w' 4096 = Some zero_desc \<and> dmem w' 4097 = Some (zero_desc\<lparr>control := 0x52B40001\<rparr>)"
proof -
  let ?w = "quiet_world\<lparr>usr := \<lambda>_ a. if a = 0x40 then 127 else 0, dmem := \<lambda>_. Some (zero_desc\<lparr>control := 0x52B40001\<rparr>)\<rparr>"
  have wf: "wz_wf demo_ext ?w" by (rule demo_ext_wf) simp
  have d: "desc demo_ext ! 127 = 4223" "desc demo_ext ! 0 = 4096" "desc demo_ext ! 1 = 4097"
    "wz_copy demo_ext 127 = zero_desc" "wz_copy demo_ext 0 = zero_desc"
    by (simp_all add: demo_ext_def wz_copy_def)
  have "(127 + k) mod 128 \<noteq> (1 :: nat)" if "k \<le> 1" for k using that by (cases k) auto
  then have k: "\<exists>k \<le> 1. 127 = (127 + k) mod (128 :: nat)" "\<exists>k \<le> 1. 0 = (127 + k) mod (128 :: nat)"
    "\<not> (\<exists>k \<le> 1. 1 = (127 + k) mod (128 :: nat))"
    by (rule_tac exI[of _ 0], simp, rule_tac exI[of _ 1], simp, metis)
  obtain w' where r: "ioctl_do_wz_confirm (zero_engine\<lparr>wz_ext := demo_ext\<rparr>) 0x40 ?w = Some (Some (0, w'))"
    and m: "\<And>i. i < 128 \<Longrightarrow> dmem w' (desc demo_ext ! i) =
       (if \<exists>k \<le> 1. i = (127 + k) mod 128 then Some (wz_copy demo_ext i) else dmem ?w (desc demo_ext ! i))"
    using wz_confirm_restores_block[where e = "zero_engine\<lparr>wz_ext := demo_ext\<rparr>" and w = ?w and arg = "0x40"
        and first = 127 and last_d = 0] wf by (auto simp: WZ_DMA_NOFBUFS_def cong: if_cong)
  show ?thesis
    using r m[of 127] m[of 0] m[of 1] k unfolding d by (intro exI[of _ w']) auto
qed

text \<open>The range check of the confirmation has no effect: a last descriptor beyond the ring makes the
  handler restore descriptors round the ring for ever, a first descriptor beyond it makes it access
  the arrays out of range.\<close>

theorem wz_confirm_out_of_range:
  assumes "kint w (io w) (C_copy_from_user arg 8) = 0" and "wz_wf (wz_ext e) w"
    and "usr w (io w @ [KI (C_copy_from_user arg 8) 0]) arg = of_nat first"
    and "usr w (io w @ [KI (C_copy_from_user arg 8) 0]) (arg + 4) = of_nat last_d"
    and "first < 2 ^ 32" and "last_d < 2 ^ 32"
  shows "(first < WZ_DMA_NOFBUFS \<and> WZ_DMA_NOFBUFS \<le> last_d \<longrightarrow> ioctl_do_wz_confirm e arg w = None) \<and>
    (WZ_DMA_NOFBUFS \<le> first \<longrightarrow> ioctl_do_wz_confirm e arg w = Some None)"
proof (intro conjI impI)
  let ?w = "emit (KI (C_copy_from_user arg 8) 0) w"
  have r: "ioctl_do_wz_confirm e arg w =
      map_option (map_option (\<lambda>w. (0, w))) (wz_confirm_loop first last_d (wz_ext e) ?w)"
    using assms by (simp add: ioctl_do_wz_confirm_def call_int_def Let_def)
  show "ioctl_do_wz_confirm e arg w = None" if "first < WZ_DMA_NOFBUFS \<and> WZ_DMA_NOFBUFS \<le> last_d"
    using wz_confirm_diverges[of first last_d] that assms(2) by (simp add: r)
  show "ioctl_do_wz_confirm e arg w = Some None" if "WZ_DMA_NOFBUFS \<le> first"
  proof -
    have "wz_restore_one first (wz_ext e) ?w = None"
      using that assms(2) by (simp add: wz_restore_one_def wz_wf_def)
    then show ?thesis by (simp add: r) (subst wz_confirm_loop.simps, simp)
  qed
qed

theorem wz_confirm_out_of_range_witness:
  "ioctl_do_wz_confirm (zero_engine\<lparr>wz_ext := demo_ext\<rparr>) 0x40
      (quiet_world\<lparr>usr := \<lambda>_ a. if a = 0x40 then 0 else 128, dmem := \<lambda>_. Some zero_desc\<rparr>) = None"
proof -
  let ?w = "quiet_world\<lparr>usr := \<lambda>_ a. if a = 0x40 then 0 else 128, dmem := \<lambda>_. Some zero_desc\<rparr>"
  have "wz_wf demo_ext ?w" by (rule demo_ext_wf) simp
  then show ?thesis
    using wz_confirm_out_of_range[where e = "zero_engine\<lparr>wz_ext := demo_ext\<rparr>" and w = ?w and arg = "0x40"
        and first = 0 and last_d = 128] by (simp add: WZ_DMA_NOFBUFS_def)
qed


end
