(* ===== verification/Wz_Start.thy ===== *)
theory Wz_Start
  imports Wz_Xdma
begin

text \<open>
  Building the ring: what \<^verbatim>\<open>ioctl_do_wz_start\<close> makes of the extension, the descriptors and the engine,
  and what becomes of the buffers when a stream is stopped and started again.
\<close>

section \<open>The loop that allocates and links\<close>

text \<open>A descriptor with nothing but its magic and its link.\<close>

definition linked :: "u64 \<Rightarrow> xdma_desc" where
  "linked b = zero_desc\<lparr>control := DESC_MAGIC, next_lo := ucast (PCI_DMA_L b), next_hi := ucast (PCI_DMA_H b)\<rparr>"

lemma fresh_desc_1: "fresh_desc (Suc 0) b 0 = linked 0"
  by (simp add: fresh_desc_def linked_def PCI_DMA_L_def PCI_DMA_H_def)

lemma link_linked: "v \<noteq> 0 \<Longrightarrow> link_eff (v, b) (linked b') = linked b"
  by (simp add: link_eff_def linked_def DESC_MAGIC_def)

definition same_env :: "world \<Rightarrow> world \<Rightarrow> bool" where
  "same_env w w' \<longleftrightarrow> dalloc w' = dalloc w \<and> xalloc w' = xalloc w \<and> xfers w' = xfers w \<and>
     poll_mode w' = poll_mode w \<and> hw w' = hw w \<and> kint w' = kint w"

definition wz_chain :: "nat \<Rightarrow> wz_ext \<Rightarrow> world \<Rightarrow> bool" where
  "wz_chain k ext w \<longleftrightarrow> length (desc ext) = WZ_DMA_NOFBUFS \<and> length (desc_dma ext) = WZ_DMA_NOFBUFS \<and>
     distinct (take k (desc ext)) \<and> (\<forall>i. k \<le> i \<and> i < WZ_DMA_NOFBUFS \<longrightarrow> desc ext ! i = 0) \<and>
     (\<forall>i < k. desc ext ! i \<noteq> 0 \<and>
        dmem w (desc ext ! i) = Some (linked (if Suc i < k then desc_dma ext ! Suc i else 0)))"

lemma alloc_one:
  assumes "dalloc_fresh (dalloc w)" and "dalloc w (dmem w) (io w) 1 = Some (v, b)"
  shows "\<exists>w'. xdma_desc_alloc 1 w = Some (Some (v, b, v), w') \<and> v \<noteq> 0 \<and> dmem w v = None \<and>
    dmem w' = (dmem w)(v \<mapsto> linked 0) \<and> same_env w w'"
proof -
  have f: "v \<noteq> 0" "dmem w v = None"
    using assms unfolding dalloc_fresh_def by (metis desc_ptr_0 zero_less_one)+
  from xdma_desc_alloc_run[of 1 w v b] assms(2) obtain w' where
    w': "xdma_desc_alloc 1 w = Some (Some (v, b, v), w')" "dmem w' v = Some (fresh_desc 1 b 0)"
      "\<And>q. q \<noteq> v \<Longrightarrow> dmem w' q = dmem w q" and x: "w'\<lparr>io := io w, dmem := dmem w\<rparr> = w"
    by auto
  have "same_env w w'"
    using arg_cong[OF x, of dalloc] arg_cong[OF x, of xalloc] arg_cong[OF x, of xfers]
      arg_cong[OF x, of poll_mode] arg_cong[OF x, of hw] arg_cong[OF x, of kint] by (simp add: same_env_def)
  with f w' show ?thesis by (auto simp: fun_eq_iff fresh_desc_1)
qed

lemma wz_desc_one_run:
  assumes k: "k < WZ_DMA_NOFBUFS" and c: "wz_chain k ext w"
    and a: "dalloc_fresh (dalloc w)" "dalloc w (dmem w) (io w) 1 \<noteq> None"
  shows "\<exists>v b w'. wz_desc_one k (ext, w) =
      Some (None, ext\<lparr>desc := (desc ext)[k := v], desc_dma := (desc_dma ext)[k := b]\<rparr>, w') \<and>
    wz_chain (Suc k) (ext\<lparr>desc := (desc ext)[k := v], desc_dma := (desc_dma ext)[k := b]\<rparr>) w' \<and> same_env w w' \<and>
    card (dom (dmem w')) \<le> Suc (card (dom (dmem w)))"
proof -
  obtain v b where vb: "dalloc w (dmem w) (io w) 1 = Some (v, b)" using a(2) by (metis not_None_eq prod.exhaust)
  from alloc_one[OF a(1) vb] obtain w1 where w1: "xdma_desc_alloc 1 w = Some (Some (v, b, v), w1)"
    "v \<noteq> 0" "dmem w v = None" "dmem w1 = (dmem w)(v \<mapsto> linked 0)" "same_env w w1" by blast
  have cd: "card (dom (dmem w1)) \<le> Suc (card (dom (dmem w)))" using w1(4) by (simp add: card_insert_if)
  have len: "length (desc ext) = WZ_DMA_NOFBUFS" "length (desc_dma ext) = WZ_DMA_NOFBUFS" "desc ext ! k = 0"
    using c k by (auto simp: wz_chain_def)
  have new: "v \<noteq> desc ext ! i" if "i < k" for i using c w1(3) that by (auto simp: wz_chain_def)
  then have nd: "v \<notin> set (take k (desc ext))" using len k by (auto simp: in_set_conv_nth)
  let ?x = "ext\<lparr>desc := (desc ext)[k := v], desc_dma := (desc_dma ext)[k := b]\<rparr>"
  have tk: "take (Suc k) ((desc ext)[k := v]) = take k (desc ext) @ [v]"
    using len k by (simp add: take_Suc_conv_app_nth)
  show ?thesis
  proof (cases k)
    case 0
    have "wz_desc_one k (ext, w) = Some (None, ?x, w1)"
      using w1 len k 0 by (simp add: wz_desc_one_def)
    moreover have "wz_chain (Suc k) ?x w1"
      using c w1 len 0 k tk by (auto simp: wz_chain_def)
    ultimately show ?thesis using w1(5) cd by blast
  next
    case (Suc j)
    let ?p = "desc ext ! j"
    have p: "dmem w ?p = Some (linked 0)" "?p \<noteq> v" using c Suc new[of j] by (auto simp: wz_chain_def)
    let ?w = "w1\<lparr>dmem := (dmem w1)(?p \<mapsto> linked b)\<rparr>"
    have "wz_desc_one k (ext, w) = Some (None, ?x, ?w)"
      using w1 len k Suc p by (simp add: wz_desc_one_def desc_simps link_linked)
    moreover have "wz_chain (Suc k) ?x ?w"
      unfolding wz_chain_def
    proof (intro conjI allI impI)
      fix i assume i: "i < Suc k"
      have inj: "desc ext ! i \<noteq> ?p" if "i < k" "i \<noteq> j"
        using c that Suc len k nth_eq_iff_index_eq[of "take k (desc ext)" i j] by (auto simp: wz_chain_def)
      consider "i = k" | "i = j" | "i < j" using i Suc by linarith
      then show "dmem ?w (desc ?x ! i) = Some (linked (if Suc i < Suc k then desc_dma ?x ! Suc i else 0))"
        using c w1 p len k Suc new[of i] inj by cases (auto simp: wz_chain_def)
      show "desc ?x ! i \<noteq> 0" using c w1 len k i by (cases "i = k") (auto simp: wz_chain_def)
    qed (use c w1 len k tk nd in \<open>auto simp: wz_chain_def\<close>)
    moreover have "dom (dmem ?w) = dom (dmem w1)" using p w1(4) by auto
    ultimately show ?thesis using w1(5) cd by (intro exI[of _ v] exI[of _ b] exI[of _ ?w]) (simp add: same_env_def)
  qed
qed

lemma wz_desc_loop:
  assumes c: "wz_chain 0 ext w" and a: "dalloc_fresh (dalloc w)"
    "\<And>m l. card (dom m) < card (dom (dmem w)) + WZ_DMA_NOFBUFS \<Longrightarrow> dalloc w m l 1 \<noteq> None"
  shows "\<exists>ds dd w'. for_try 0 WZ_DMA_NOFBUFS wz_desc_one (ext, w) = Some (None, ext\<lparr>desc := ds, desc_dma := dd\<rparr>, w') \<and>
    wz_chain WZ_DMA_NOFBUFS (ext\<lparr>desc := ds, desc_dma := dd\<rparr>) w' \<and> same_env w w'"
proof -
  let ?P = "\<lambda>k s. \<exists>ds dd w'. s = (ext\<lparr>desc := ds, desc_dma := dd\<rparr>, w') \<and>
    wz_chain k (ext\<lparr>desc := ds, desc_dma := dd\<rparr>) w' \<and> same_env w w' \<and>
    card (dom (dmem w')) \<le> card (dom (dmem w)) + k"
  have "\<exists>r s'. for_try 0 WZ_DMA_NOFBUFS wz_desc_one (ext, w) = Some (r, s') \<and>
      (case r of None \<Rightarrow> ?P (0 + WZ_DMA_NOFBUFS) s' | Some e \<Rightarrow> False)"
  proof (rule for_try_total)
    show "?P 0 (ext, w)"
      by (intro exI[of _ "desc ext"] exI[of _ "desc_dma ext"] exI[of _ w]) (use c in \<open>simp add: same_env_def\<close>)
  next
    fix k s assume k: "0 \<le> k" "k < 0 + WZ_DMA_NOFBUFS" and P: "?P k s"
    from P obtain ds dd v where s: "s = (ext\<lparr>desc := ds, desc_dma := dd\<rparr>, v)"
      and c: "wz_chain k (ext\<lparr>desc := ds, desc_dma := dd\<rparr>) v" and e: "same_env w v"
      and cd: "card (dom (dmem v)) \<le> card (dom (dmem w)) + k" by blast
    have d: "dalloc v = dalloc w" using e by (simp add: same_env_def)
    have "dalloc v (dmem v) (io v) 1 \<noteq> None" unfolding d by (rule a(2)) (use cd k in linarith)
    from wz_desc_one_run[OF _ c _ this] k a(1) d obtain v' b w' where
      "wz_desc_one k s = Some (None, ext\<lparr>desc := ds[k := v'], desc_dma := dd[k := b]\<rparr>, w')"
      "wz_chain (Suc k) (ext\<lparr>desc := ds[k := v'], desc_dma := dd[k := b]\<rparr>) w'" "same_env v w'"
      "card (dom (dmem w')) \<le> Suc (card (dom (dmem v)))" by (auto simp: s)
    moreover from this e cd have "?P (Suc k) (ext\<lparr>desc := ds[k := v'], desc_dma := dd[k := b]\<rparr>, w')"
      by (intro exI[of _ "ds[k := v']"] exI[of _ "dd[k := b]"] exI[of _ w']) (simp add: same_env_def)
    ultimately have "wz_desc_one k s = Some (None, (ext\<lparr>desc := ds[k := v'], desc_dma := dd[k := b]\<rparr>, w')) \<and>
        (case None of None \<Rightarrow> ?P (Suc k) (ext\<lparr>desc := ds[k := v'], desc_dma := dd[k := b]\<rparr>, w') | Some e \<Rightarrow> False)"
      by (simp only: option.case)
    then show "\<exists>r s'. wz_desc_one k s = Some (r, s') \<and> (case r of None \<Rightarrow> ?P (Suc k) s' | Some e \<Rightarrow> False)"
      by blast
  qed
  then show ?thesis by (auto split: option.splits)
qed

section \<open>The loop that fills\<close>

definition wz_desc_of :: "wz_ext \<Rightarrow> nat \<Rightarrow> xdma_desc" where
  "wz_desc_of ext i =
    (set_eff (buf_dma_t ext ! i, desc_dma ext ! i, of_nat WZ_DMA_BUFLEN, False)
       (linked (desc_dma ext ! ((i + 1) mod WZ_DMA_NOFBUFS))))\<lparr>control := DESC_MAGIC OR XDMA_DESC_COMPLETED\<rparr>"

text \<open>The ring while it is being filled: the first \<open>k\<close> descriptors are complete and copied.\<close>

definition wz_ring :: "nat \<Rightarrow> wz_ext \<Rightarrow> world \<Rightarrow> bool" where
  "wz_ring k ext w \<longleftrightarrow> length (desc ext) = WZ_DMA_NOFBUFS \<and> length (desc_dma ext) = WZ_DMA_NOFBUFS \<and>
     length (buf_dma_t ext) = WZ_DMA_NOFBUFS \<and> distinct (desc ext) \<and> 0 \<notin> set (desc ext) \<and>
     (\<exists>cp cs. desc_copy ext = Some (cp, cs) \<and> length cs = WZ_DMA_NOFBUFS \<and> (\<forall>i < k. cs ! i = wz_desc_of ext i)) \<and>
     (\<forall>i < WZ_DMA_NOFBUFS. dmem w (desc ext ! i) =
        Some (if i < k then wz_desc_of ext i else linked (desc_dma ext ! ((i + 1) mod WZ_DMA_NOFBUFS))))"

lemma wz_chain_closed:
  assumes "wz_chain WZ_DMA_NOFBUFS ext w" and "length (buf_dma_t ext) = WZ_DMA_NOFBUFS"
    and "desc_copy ext = Some (cp, cs)" "length cs = WZ_DMA_NOFBUFS"
  shows "\<exists>w'. xdma_desc_link (desc ext ! (WZ_DMA_NOFBUFS - 1)) (desc ext ! 0) (desc_dma ext ! 0) w = Some w' \<and>
    wz_ring 0 ext w' \<and> same_env w w'"
proof -
  let ?N = WZ_DMA_NOFBUFS
  have N: "0 < ?N" "?N - 1 < ?N" by (simp_all add: WZ_DMA_NOFBUFS_def)
  have l: "dmem w (desc ext ! (?N - 1)) = Some (linked 0)" "desc ext ! 0 \<noteq> 0" "distinct (desc ext)"
    "length (desc ext) = ?N"
    using assms(1) N by (auto simp: wz_chain_def)
  let ?w = "w\<lparr>dmem := (dmem w)(desc ext ! (?N - 1) \<mapsto> linked (desc_dma ext ! 0))\<rparr>"
  have "xdma_desc_link (desc ext ! (?N - 1)) (desc ext ! 0) (desc_dma ext ! 0) w = Some ?w"
    using l by (simp add: desc_simps link_linked)
  moreover have "dmem ?w (desc ext ! i) = Some (linked (desc_dma ext ! ((i + 1) mod ?N)))" if i: "i < ?N" for i
  proof (cases "Suc i < ?N")
    case True
    with l i N have "desc ext ! i \<noteq> desc ext ! (?N - 1)" by (simp add: nth_eq_iff_index_eq)
    with True i assms(1) show ?thesis by (simp add: wz_chain_def)
  next
    case False
    with i have "Suc i = ?N" by simp
    then have "i = ?N - 1" "(i + 1) mod ?N = 0" by auto
    then show ?thesis by simp
  qed
  ultimately show ?thesis
    using assms by (auto simp: wz_ring_def same_env_def wz_chain_def in_set_conv_nth)
qed

lemma wz_fill_one_run:
  assumes "k < WZ_DMA_NOFBUFS" and "wz_ring k ext w"
  shows "\<exists>cp cs w'. wz_fill_one k (ext, w) = Some (ext\<lparr>desc_copy := Some (cp, cs)\<rparr>, w') \<and>
    wz_ring (Suc k) (ext\<lparr>desc_copy := Some (cp, cs)\<rparr>) w' \<and> same_env w w'"
proof -
  let ?N = WZ_DMA_NOFBUFS and ?p = "desc ext ! k" and ?nx = "linked (desc_dma ext ! ((k + 1) mod WZ_DMA_NOFBUFS))"
  obtain cp cs where cs: "desc_copy ext = Some (cp, cs)" "length cs = ?N" "\<forall>i < k. cs ! i = wz_desc_of ext i"
    using assms(2) by (auto simp: wz_ring_def)
  have l: "dmem w ?p = Some ?nx" "length (desc ext) = ?N" "length (desc_dma ext) = ?N" "length (buf_dma_t ext) = ?N"
    "distinct (desc ext)" using assms by (auto simp: wz_ring_def)
  let ?w = "w\<lparr>dmem := (dmem w)(?p \<mapsto> wz_desc_of ext k)\<rparr>"
  have ctl: "control (set_eff a (linked b)) AND NOT LS_BYTE_MASK OR XDMA_DESC_COMPLETED = DESC_MAGIC OR XDMA_DESC_COMPLETED" for a b
    by (cases a) (simp add: set_eff_def linked_def const_defs Let_def)
  have "wz_fill_one k (ext, w) = Some (ext\<lparr>desc_copy := Some (cp, cs[k := wz_desc_of ext k])\<rparr>, ?w)"
    using l cs assms(1) ctl
    by (simp add: wz_fill_one_def desc_simps in_ls_byte_def wz_desc_of_def const_defs)
  moreover have "wz_desc_of (ext\<lparr>desc_copy := c\<rparr>) = wz_desc_of ext" for c by (simp add: wz_desc_of_def fun_eq_iff)
  moreover have "dmem ?w (desc ext ! i) = (if i = k then Some (wz_desc_of ext k) else dmem w (desc ext ! i))" if "i < ?N" for i
    using that l assms(1) by (simp add: nth_eq_iff_index_eq)
  ultimately show ?thesis
    using assms cs
    by (intro exI[of _ cp] exI[of _ "cs[k := wz_desc_of ext k]"] exI[of _ ?w])
      (auto simp: wz_ring_def same_env_def nth_list_update less_Suc_eq)
qed

lemma wz_fill_loop:
  assumes "wz_ring 0 ext w"
  shows "\<exists>c w'. for_range 0 WZ_DMA_NOFBUFS wz_fill_one (ext, w) = Some (ext\<lparr>desc_copy := c\<rparr>, w') \<and>
    wz_ring WZ_DMA_NOFBUFS (ext\<lparr>desc_copy := c\<rparr>) w' \<and> same_env w w'"
proof -
  let ?P = "\<lambda>k s. \<exists>c w'. s = (ext\<lparr>desc_copy := c\<rparr>, w') \<and> wz_ring k (ext\<lparr>desc_copy := c\<rparr>) w' \<and> same_env w w'"
  have "\<exists>s'. for_range 0 WZ_DMA_NOFBUFS wz_fill_one (ext, w) = Some s' \<and> ?P (0 + WZ_DMA_NOFBUFS) s'"
  proof (rule for_range_total)
    show "?P 0 (ext, w)"
      by (intro exI[of _ "desc_copy ext"] exI[of _ w]) (use assms in \<open>simp add: same_env_def\<close>)
  next
    fix k s assume k: "0 \<le> k" "k < 0 + WZ_DMA_NOFBUFS" and P: "?P k s"
    from P obtain c v where s: "s = (ext\<lparr>desc_copy := c\<rparr>, v)" "wz_ring k (ext\<lparr>desc_copy := c\<rparr>) v" "same_env w v"
      by blast
    from wz_fill_one_run[OF _ s(2)] k s(3) show "\<exists>s'. wz_fill_one k s = Some s' \<and> ?P (Suc k) s'"
      unfolding s(1) by (fastforce simp: same_env_def)
  qed
  then show ?thesis by auto
qed

lemma wz_desc_of_fields:
  "next_addr (wz_desc_of ext i) = desc_dma ext ! ((i + 1) mod WZ_DMA_NOFBUFS)"
  "dst_addr (wz_desc_of ext i) = buf_dma_t ext ! i" "src_addr (wz_desc_of ext i) = desc_dma ext ! i"
  "bytes (wz_desc_of ext i) = of_nat WZ_DMA_BUFLEN" "control (wz_desc_of ext i) = DESC_MAGIC OR XDMA_DESC_COMPLETED"
  by (simp_all add: wz_desc_of_def set_eff_def linked_def next_addr_def dst_addr_def src_addr_def Let_def)

text \<open>The state in which a stream can be started: buffers and copy allocated, no descriptors, idle engine.\<close>

definition wz_startable :: "xdma_engine \<Rightarrow> bool" where
  "wz_startable e \<longleftrightarrow> buf_ready (wz_ext e) \<and> length (buf_dma_t (wz_ext e)) = WZ_DMA_NOFBUFS \<and>
     desc (wz_ext e) = replicate WZ_DMA_NOFBUFS 0 \<and> length (desc_dma (wz_ext e)) = WZ_DMA_NOFBUFS \<and>
     (case desc_copy (wz_ext e) of None \<Rightarrow> False | Some (_, cs) \<Rightarrow> length cs = WZ_DMA_NOFBUFS) \<and>
     kfifo (wz_ext e) \<noteq> None \<and> \<not> running e \<and> transfer_list e = [] \<and> shutdown e AND ENGINE_SHUTDOWN_REQUEST = 0"

section \<open>Properties\<close>

text \<open>What a start does, in terms of the ring of descriptors it leaves.\<close>

lemma wz_start_run:
  assumes st: "wz_startable e" and al: "dalloc_fresh (dalloc w)"
    "\<And>m l. card (dom m) < card (dom (dmem w)) + WZ_DMA_NOFBUFS \<Longrightarrow> dalloc w m l 1 \<noteq> None"
    and xa: "\<And>m l. xalloc w m l \<noteq> 0"
  shows "\<exists>e' w'. ioctl_do_wz_start e w = Some (0, e', w') \<and> wz_ring WZ_DMA_NOFBUFS (wz_ext e') w' \<and>
    kfifo (wz_ext e') = kfifo (wz_ext e) \<and> buf_dma_t (wz_ext e') = buf_dma_t (wz_ext e) \<and>
    block_first_desc (wz_ext e') = 0 \<and> block_scanned_desc (wz_ext e') = 0 \<and>
    magic e' = magic e \<and> regs e' = regs e \<and> hw w' = hw w \<and> kint w' = kint w \<and>
    running e' \<and> transfer_list e' = [wz_transfer (wz_ext e')] \<and>
    (\<exists>t. xfers w' (wz_transfer (wz_ext e')) = Some t \<and> cyclic t \<and> desc_num t = WZ_DMA_NOFBUFS \<and>
       desc_bus t = desc_dma (wz_ext e') ! 0 \<and> state t = TRANSFER_STATE_SUBMITTED)"
proof -
  let ?N = WZ_DMA_NOFBUFS
  let ?x0 = "(wz_ext e)\<lparr>block_first_desc := 0, block_scanned_desc := 0\<rparr>"
  have N: "0 < ?N" "?N - 1 < ?N" by (simp_all add: WZ_DMA_NOFBUFS_def)
  have c0: "wz_chain 0 ?x0 w" using st by (simp add: wz_startable_def wz_chain_def)
  from wz_desc_loop[OF c0 al] obtain ds dd w1 where
    l1: "for_try 0 ?N wz_desc_one (?x0, w) = Some (None, ?x0\<lparr>desc := ds, desc_dma := dd\<rparr>, w1)"
    "wz_chain ?N (?x0\<lparr>desc := ds, desc_dma := dd\<rparr>) w1" "same_env w w1" by blast
  let ?x1 = "?x0\<lparr>desc := ds, desc_dma := dd\<rparr>"
  obtain cp cs where cs: "desc_copy (wz_ext e) = Some (cp, cs)" "length cs = ?N"
    using st by (auto simp: wz_startable_def split: option.splits)
  have "length (buf_dma_t ?x1) = ?N" "desc_copy ?x1 = Some (cp, cs)" using st cs by (auto simp: wz_startable_def)
  from wz_chain_closed[OF l1(2) this cs(2)] obtain w2 where
    l2: "xdma_desc_link (ds ! (?N - 1)) (ds ! 0) (dd ! 0) w1 = Some w2" "wz_ring 0 ?x1 w2" "same_env w1 w2" by auto
  from wz_fill_loop[OF l2(2)] obtain c w3 where
    l3: "for_range 0 ?N wz_fill_one (?x1, w2) = Some (?x1\<lparr>desc_copy := c\<rparr>, w3)"
    "wz_ring ?N (?x1\<lparr>desc_copy := c\<rparr>) w3" "same_env w2 w3" by blast
  have len: "length ds = ?N" "length dd = ?N" using l1(2) by (auto simp: wz_chain_def)
  define t where "t = xalloc w3 (xfers w3) (io w3)"
  have t0: "t \<noteq> 0" using xa l1(3) l2(3) l3(3) by (simp add: t_def same_env_def)
  let ?w4 = "emit (KP (C_kzalloc ''xdma_transfer'') t) (w3\<lparr>xfers := (xfers w3)(t \<mapsto> zero_transfer)\<rparr>)"
  let ?x2 = "?x1\<lparr>desc_copy := c, wz_transfer := t\<rparr>"
  let ?t = "zero_transfer\<lparr>desc_virt := ds ! 0, desc_bus := dd ! 0, desc_adjacent := 0, desc_num := ?N,
    xfer_dir_to_dev := False, sgl_nents := 1, cyclic := True\<rparr>"
  let ?w5 = "?w4\<lparr>xfers := (xfers ?w4)(t \<mapsto> ?t)\<rparr>"
  let ?w6 = "?w5\<lparr>xfers := (xfers ?w5)(t \<mapsto> ?t\<lparr>state := TRANSFER_STATE_SUBMITTED\<rparr>)\<rparr>"
  let ?e1 = "e\<lparr>wz_ext := ?x2\<rparr>" and ?e2 = "e\<lparr>wz_ext := ?x2, transfer_list := [t]\<rparr>"
  have mk: "wz_make_transfer ?x2 t ?w4 = Some ?w5" using len N by (simp add: wz_make_transfer_def xfer_upd_def)
  obtain v where es: "engine_start ?e2 ?w6 = Some (t, ?e2\<lparr>shutdown := ENGINE_SHUTDOWN_NONE, desc_dequeued := 0, running := True\<rparr>,
      ?w6\<lparr>io := io ?w6 @ start_log ?e2 (?t\<lparr>state := TRANSFER_STATE_SUBMITTED\<rparr>) ?w6 @ [Rd (regs ?e2 + er R_status) v]\<rparr>)"
    using engine_start_run[of ?e2 t "[]" ?w6 "?t\<lparr>state := TRANSFER_STATE_SUBMITTED\<rparr>"] st t0 by (auto simp: wz_startable_def)
  let ?e3 = "?e2\<lparr>shutdown := ENGINE_SHUTDOWN_NONE, desc_dequeued := 0, running := True\<rparr>"
  let ?w7 = "?w6\<lparr>io := io ?w6 @ start_log ?e2 (?t\<lparr>state := TRANSFER_STATE_SUBMITTED\<rparr>) ?w6 @ [Rd (regs ?e2 + er R_status) v]\<rparr>"
  have q: "transfer_queue ?e1 t ?w5 = Some (0, ?e3, ?w7)"
    using es st t0 N by (simp add: transfer_queue_def xfer_upd_def wz_startable_def)
  have "ioctl_do_wz_start e w = Some (0, ?e3, ?w7)"
    using st l1(1) l2(1) l3(1) len N t0 mk q
    by (simp add: ioctl_do_wz_start_def wz_startable_def kzalloc_transfer_def t_def[symmetric] Let_def)
  moreover have "wz_desc_of ?x2 = wz_desc_of (?x1\<lparr>desc_copy := c\<rparr>)" by (simp add: wz_desc_of_def fun_eq_iff)
  then have "wz_ring ?N ?x2 ?w7" using l3(2) by (simp add: wz_ring_def)
  moreover have "hw w3 = hw w" "kint w3 = kint w" using l1(3) l2(3) l3(3) by (simp_all add: same_env_def)
  ultimately show ?thesis by (intro exI[of _ ?e3] exI[of _ ?w7]) simp
qed

lemma wz_ring_wf:
  assumes "wz_ring WZ_DMA_NOFBUFS ext w" and "kfifo ext \<noteq> None" "block_first_desc ext = 0" "block_scanned_desc ext = 0"
  shows "wz_wf ext w" and "i < WZ_DMA_NOFBUFS \<Longrightarrow> dmem w (desc ext ! i) = Some (wz_desc_of ext i)"
    and "i < WZ_DMA_NOFBUFS \<Longrightarrow> wz_copy ext i = wz_desc_of ext i"
  using assms by (auto simp: wz_wf_def wz_ring_def wz_copy_def in_set_conv_nth WZ_DMA_NOFBUFS_def)

text \<open>C4. \<^verbatim>\<open>ioctl_do_wz_start\<close> builds the descriptor ring and starts the engine on it. With allocators that
  return fresh objects and do not run out within 128 descriptors: descriptor \<open>i\<close> is linked to descriptor \<open>(i + 1) mod 128\<close>, writes
  4 MiB into buffer \<open>i\<close>, takes its own address as the write-back address, has its magic and asks for
  an interrupt; the saved copies equal the descriptors; the scan starts at descriptor 0; and the only
  queued transfer is the ring, with the engine running and its first descriptor programmed.\<close>

theorem wz_start_builds_ring:
  assumes st: "wz_startable e" and al: "dalloc_fresh (dalloc w)"
    "\<And>m l. card (dom m) < card (dom (dmem w)) + WZ_DMA_NOFBUFS \<Longrightarrow> dalloc w m l 1 \<noteq> None"
    and xa: "\<And>m l. xalloc w m l \<noteq> 0"
  shows "\<exists>e' w'. ioctl_do_wz_start e w = Some (0, e', w') \<and> wz_wf (wz_ext e') w' \<and>
    (\<forall>i < WZ_DMA_NOFBUFS. \<exists>d. dmem w' (desc (wz_ext e') ! i) = Some d \<and> wz_copy (wz_ext e') i = d \<and>
       next_addr d = desc_dma (wz_ext e') ! ((i + 1) mod WZ_DMA_NOFBUFS) \<and>
       dst_addr d = buf_dma_t (wz_ext e) ! i \<and> src_addr d = desc_dma (wz_ext e') ! i \<and>
       bytes d = of_nat WZ_DMA_BUFLEN \<and> control d = DESC_MAGIC OR XDMA_DESC_COMPLETED) \<and>
    buf_dma_t (wz_ext e') = buf_dma_t (wz_ext e) \<and>
    block_first_desc (wz_ext e') = 0 \<and> block_scanned_desc (wz_ext e') = 0 \<and>
    running e' \<and> transfer_list e' = [wz_transfer (wz_ext e')] \<and>
    (\<exists>t. xfers w' (wz_transfer (wz_ext e')) = Some t \<and> cyclic t \<and> desc_num t = WZ_DMA_NOFBUFS \<and>
       desc_bus t = desc_dma (wz_ext e') ! 0 \<and> state t = TRANSFER_STATE_SUBMITTED)"
proof -
  from wz_start_run[OF st al xa] obtain e' w' where s: "ioctl_do_wz_start e w = Some (0, e', w')"
    "wz_ring WZ_DMA_NOFBUFS (wz_ext e') w'" "kfifo (wz_ext e') = kfifo (wz_ext e)" "buf_dma_t (wz_ext e') = buf_dma_t (wz_ext e)"
    "block_first_desc (wz_ext e') = 0" "block_scanned_desc (wz_ext e') = 0" "running e'" "transfer_list e' = [wz_transfer (wz_ext e')]"
    "\<exists>t. xfers w' (wz_transfer (wz_ext e')) = Some t \<and> cyclic t \<and> desc_num t = WZ_DMA_NOFBUFS \<and>
       desc_bus t = desc_dma (wz_ext e') ! 0 \<and> state t = TRANSFER_STATE_SUBMITTED"
    by blast
  have k: "kfifo (wz_ext e') \<noteq> None" using s(3) st by (simp add: wz_startable_def)
  note wf = wz_ring_wf[OF s(2) k s(5,6)]
  show ?thesis using s(1,4-9) wf by (intro exI[of _ e'] exI[of _ w']) (simp add: wz_desc_of_fields)
qed

text \<open>An allocator that meets the hypotheses: the first free one of \<open>K\<close> addresses.\<close>

definition first_fit :: "nat \<Rightarrow> (u64 \<Rightarrow> xdma_desc option) \<Rightarrow> io list \<Rightarrow> nat \<Rightarrow> (u64 \<times> u64) option" where
  "first_fit K m l n = (if n = 1 then
     map_option (\<lambda>v. (v, v)) (find (\<lambda>v. m v = None) (map of_nat [1..<Suc K])) else None)"

lemma first_fit_fresh:
  assumes "K < 2 ^ 32"
  shows "dalloc_fresh (first_fit K)"
proof -
  have "v \<noteq> 0 \<and> m v = None" if "find (\<lambda>v. m v = None) (map of_nat [1..<Suc K]) = Some v" for m :: "u64 \<Rightarrow> xdma_desc option" and v
  proof -
    let ?L = "map of_nat [1..<Suc K] :: u64 list"
    from that obtain i where i: "i < length ?L" "m (?L ! i) = None" "v = ?L ! i" by (auto simp only: find_Some_iff)
    then have "v = of_nat (Suc i)" "Suc i < 2 ^ 64" using assms by (simp_all del: upt_Suc)
    with i unat_small64[of "Suc i"] show ?thesis by (metis nat.simps(3) unat_0)
  qed
  then show ?thesis by (auto simp: dalloc_fresh_def first_fit_def split: if_splits)
qed

lemma first_fit_succeeds:
  assumes "card (dom m) < K" and "K < 2 ^ 32"
  shows "first_fit K m l 1 \<noteq> None"
proof
  assume "first_fit K m l 1 = None"
  then have "set (map of_nat [1..<Suc K]) \<subseteq> dom m" by (auto simp: first_fit_def find_None_iff simp del: upt_Suc)
  then have "card (set (map of_nat [1..<Suc K] :: u64 list)) \<le> card (dom m)" by (intro card_mono) auto
  moreover have "inj_on (of_nat :: nat \<Rightarrow> u64) {1..<Suc K}" using assms by (intro inj_on_inverseI[where g = unat]) simp
  then have "card (set (map of_nat [1..<Suc K] :: u64 list)) = K" by (simp add: card_image del: upt_Suc)
  ultimately show False using assms by simp
qed

theorem wz_start_builds_ring_witness:
  "\<exists>e' w'. ioctl_do_wz_start (zero_engine\<lparr>wz_ext := zero_ext\<lparr>buf_ready := True, buf_dma_t := map of_nat [5000..<5128],
       desc_copy := Some (1, replicate 128 zero_desc), kfifo := Some []\<rparr>\<rparr>) (quiet_world\<lparr>dalloc := first_fit 128, xalloc := \<lambda>_ _. 64\<rparr>)
     = Some (0, e', w') \<and> running e' \<and>
     (\<exists>d. dmem w' (desc (wz_ext e') ! 127) = Some d \<and> next_addr d = desc_dma (wz_ext e') ! 0 \<and> dst_addr d = 5127)"
proof -
  let ?e = "zero_engine\<lparr>wz_ext := zero_ext\<lparr>buf_ready := True, buf_dma_t := map of_nat [5000..<5128],
       desc_copy := Some (1, replicate 128 zero_desc), kfifo := Some []\<rparr>\<rparr>"
  let ?w = "quiet_world\<lparr>dalloc := first_fit 128, xalloc := \<lambda>_ _. 64\<rparr>"
  have st: "wz_startable ?e" by (simp add: wz_startable_def zero_engine_def zero_ext_def WZ_DMA_NOFBUFS_def)
  have al: "dalloc ?w m l 1 \<noteq> None" if "card (dom m) < card (dom (dmem ?w)) + WZ_DMA_NOFBUFS" for m l
    using first_fit_succeeds[of m 128 l] that by (simp add: WZ_DMA_NOFBUFS_def)
  from wz_start_builds_ring[of ?e ?w, OF st _ al] obtain e' w' where r:
    "ioctl_do_wz_start ?e ?w = Some (0, e', w')" "running e'" and d: "\<And>i. i < WZ_DMA_NOFBUFS \<Longrightarrow> \<exists>d. dmem w' (desc (wz_ext e') ! i) = Some d \<and>
       next_addr d = desc_dma (wz_ext e') ! ((i + 1) mod WZ_DMA_NOFBUFS) \<and> dst_addr d = buf_dma_t (wz_ext ?e) ! i"
    using first_fit_fresh[of 128] by auto
  have "buf_dma_t (wz_ext ?e) ! 127 = 5127" by simp
  with r d[of 127] show ?thesis by (auto simp: WZ_DMA_NOFBUFS_def)
qed

section \<open>Stopping and restarting\<close>

lemma dma_free_env: "same_env w (dma_free_coherent n v b w)"
  by (simp add: same_env_def dma_free_coherent_def)

lemma card_free_one: "card (dom (dmem (dma_free_coherent 1 v b w))) \<le> card (dom (dmem w))"
  by (simp add: dma_free_coherent_def card_Diff1_le)

lemma wz_stop_loop:
  assumes "length (desc ext) = WZ_DMA_NOFBUFS" "length (desc_dma ext) = WZ_DMA_NOFBUFS"
    "length (buf_dma_t ext) = WZ_DMA_NOFBUFS" and nz: "\<And>i. i < WZ_DMA_NOFBUFS \<Longrightarrow> desc ext ! i \<noteq> 0"
  shows "\<exists>w'. for_range 0 WZ_DMA_NOFBUFS wz_stop_one (ext, w) =
      Some (ext\<lparr>desc := replicate WZ_DMA_NOFBUFS 0, buf_dma_t := replicate WZ_DMA_NOFBUFS 0\<rparr>, w') \<and>
    same_env w w' \<and> card (dom (dmem w')) \<le> card (dom (dmem w))"
proof -
  let ?N = WZ_DMA_NOFBUFS
  let ?x = "\<lambda>k. ext\<lparr>desc := replicate k 0 @ drop k (desc ext), buf_dma_t := replicate k 0 @ drop k (buf_dma_t ext)\<rparr>"
  let ?P = "\<lambda>k s. \<exists>w'. s = (?x k, w') \<and> same_env w w' \<and> card (dom (dmem w')) \<le> card (dom (dmem w))"
  have "\<exists>s'. for_range 0 ?N wz_stop_one (ext, w) = Some s' \<and> ?P (0 + ?N) s'"
  proof (rule for_range_total)
    show "?P 0 (ext, w)" by (simp add: same_env_def)
  next
    fix k s assume k: "0 \<le> k" "k < 0 + ?N" and "?P k s"
    then obtain v where s: "s = (?x k, v)" and v: "same_env w v" "card (dom (dmem v)) \<le> card (dom (dmem w))" by blast
    let ?v = "dma_free_coherent 1 (desc ext ! k) (desc_dma ext ! k) v"
    have d: "desc (?x k) ! k = desc ext ! k" using assms(1) k by (simp add: nth_append)
    have u: "(replicate k 0 @ drop k xs)[k := 0] = replicate (Suc k) 0 @ drop (Suc k) xs" if "length xs = ?N" for xs :: "u64 list"
      using that k by (simp add: list_update_append replicate_append_same[symmetric] Cons_nth_drop_Suc[symmetric])
    have "wz_stop_one k s = Some (?x (Suc k), ?v)"
      using assms k nz[of k] d u by (simp add: s wz_stop_one_def xdma_desc_free_def)
    moreover have "?P (Suc k) (?x (Suc k), ?v)"
      using v dma_free_env[of v 1 "desc ext ! k" "desc_dma ext ! k"] card_free_one[of "desc ext ! k" "desc_dma ext ! k" v]
      by (auto simp: same_env_def)
    ultimately show "\<exists>s'. wz_stop_one k s = Some s' \<and> ?P (Suc k) s'" by blast
  qed
  then show ?thesis using assms by auto
qed

text \<open>C37. Stopping a stream forgets the buffers instead of the descriptors: on an idle engine the handler
  returns 0 with every descriptor freed, but it clears \<^verbatim>\<open>buf_dma_t\<close>, the bus addresses of the data
  buffers, and keeps the bus addresses of the freed descriptors. When the stream is started again,
  every descriptor of the new ring tells the device to write 4 MiB to bus address 0.\<close>

theorem wz_stop_then_start_writes_to_zero:
  assumes wf: "wz_wf (wz_ext e) w" "length (desc_dma (wz_ext e)) = WZ_DMA_NOFBUFS" "0 \<notin> set (desc (wz_ext e))"
    and idle: "\<not> running e" "transfer_list e = []" "shutdown e AND ENGINE_SHUTDOWN_REQUEST = 0"
    and ready: "buf_ready (wz_ext e)" and al: "dalloc_fresh (dalloc w)"
    "\<And>m l. card (dom m) < card (dom (dmem w)) + WZ_DMA_NOFBUFS \<Longrightarrow> dalloc w m l 1 \<noteq> None"
    and xa: "\<And>m l. xalloc w m l \<noteq> 0"
  shows "\<exists>e1 w1 e2 w2. ioctl_do_wz_stop sleep e w = Some (0, e1, w1) \<and>
    desc (wz_ext e1) = replicate WZ_DMA_NOFBUFS 0 \<and> buf_dma_t (wz_ext e1) = replicate WZ_DMA_NOFBUFS 0 \<and>
    desc_dma (wz_ext e1) = desc_dma (wz_ext e) \<and>
    ioctl_do_wz_start e1 w1 = Some (0, e2, w2) \<and>
    (\<forall>i < WZ_DMA_NOFBUFS. \<exists>d. dmem w2 (desc (wz_ext e2) ! i) = Some d \<and>
       dst_addr d = 0 \<and> bytes d = of_nat WZ_DMA_BUFLEN \<and> control d = DESC_MAGIC OR XDMA_DESC_COMPLETED)"
proof -
  let ?N = WZ_DMA_NOFBUFS
  let ?x = "(wz_ext e)\<lparr>wz_transfer := 0\<rparr>"
  let ?w = "wz_transfer_destroy (wz_transfer (wz_ext e)) w"
  have len: "length (desc ?x) = ?N" "length (desc_dma ?x) = ?N" "length (buf_dma_t ?x) = ?N" "\<And>i. i < ?N \<Longrightarrow> desc ?x ! i \<noteq> 0"
    using wf by (auto simp: wz_wf_def) (metis nth_mem)
  from wz_stop_loop[OF len, of ?w] obtain w1 where
    l: "for_range 0 ?N wz_stop_one (?x, ?w) = Some (?x\<lparr>desc := replicate ?N 0, buf_dma_t := replicate ?N 0\<rparr>, w1)"
      "same_env ?w w1" "card (dom (dmem w1)) \<le> card (dom (dmem ?w))" by blast
  let ?e1 = "e\<lparr>wz_ext := ?x\<lparr>desc := replicate ?N 0, buf_dma_t := replicate ?N 0\<rparr>\<rparr>"
  have stop: "ioctl_do_wz_stop sleep e w = Some (0, ?e1, w1)"
    using idle l(1) by (simp add: ioctl_do_wz_stop_def engine_cyclic_stop_def)
  have env: "dalloc w1 = dalloc w" "xalloc w1 = xalloc w" "card (dom (dmem w1)) \<le> card (dom (dmem w))"
    using l(2,3) by (auto simp: same_env_def wz_transfer_destroy_def kfree_transfer_def split: if_splits)
  have st: "wz_startable ?e1" using wf idle ready by (simp add: wz_startable_def wz_wf_def)
  have a1: "dalloc_fresh (dalloc w1)" and x1: "\<And>m l. xalloc w1 m l \<noteq> 0" using al(1) xa by (simp_all add: env)
  have a2: "dalloc w1 m l 1 \<noteq> None" if "card (dom m) < card (dom (dmem w1)) + ?N" for m l
    unfolding env(1) by (rule al(2)) (use that env(3) in linarith)
  from wz_start_builds_ring[OF st a1 a2 x1] obtain e2 w2 where
    "ioctl_do_wz_start ?e1 w1 = Some (0, e2, w2)"
    "\<forall>i < ?N. \<exists>d. dmem w2 (desc (wz_ext e2) ! i) = Some d \<and>
       dst_addr d = buf_dma_t (wz_ext ?e1) ! i \<and> bytes d = of_nat WZ_DMA_BUFLEN \<and> control d = DESC_MAGIC OR XDMA_DESC_COMPLETED"
    by blast
  with stop show ?thesis by (intro exI[of _ ?e1] exI[of _ w1] exI[of _ e2] exI[of _ w2]) simp
qed

lemma demo_desc_set: "set (desc demo_ext) = of_nat ` {4096..<4224}" and demo_desc_length: "length (desc demo_ext) = 128"
  by (simp_all add: demo_ext_def del: upt_rec_numeral)

lemma demo_desc_nz: "0 \<notin> set (desc demo_ext)"
proof
  assume "0 \<in> set (desc demo_ext)"
  then obtain n where "4096 \<le> n" "n < 4224" "(of_nat n :: u64) = 0" by (auto simp: demo_desc_set)
  with unat_small64[of n] show False by simp
qed

theorem wz_stop_then_start_writes_to_zero_witness:
  "\<exists>e1 w1 e2 w2. ioctl_do_wz_stop (\<lambda>s. s) (zero_engine\<lparr>wz_ext := demo_ext\<lparr>buf_ready := True, buf_dma_t := map of_nat [5000..<5128]\<rparr>\<rparr>)
      (quiet_world\<lparr>dmem := \<lambda>p. if p \<in> set (desc demo_ext) then Some zero_desc else None,
         dalloc := first_fit 256, xalloc := \<lambda>_ _. 64\<rparr>) = Some (0, e1, w1) \<and>
    ioctl_do_wz_start e1 w1 = Some (0, e2, w2) \<and> (\<exists>d. dmem w2 (desc (wz_ext e2) ! 5) = Some d \<and> dst_addr d = 0)"
proof -
  let ?e = "zero_engine\<lparr>wz_ext := demo_ext\<lparr>buf_ready := True, buf_dma_t := map of_nat [5000..<5128]\<rparr>\<rparr>"
  let ?w = "quiet_world\<lparr>dmem := \<lambda>p. if p \<in> set (desc demo_ext) then Some zero_desc else None,
         dalloc := first_fit 256, xalloc := \<lambda>_ _. 64\<rparr>"
  have "wz_wf demo_ext (?w\<lparr>dmem := \<lambda>_. Some zero_desc\<rparr>)" by (rule demo_ext_wf) simp
  then have wf: "wz_wf (wz_ext ?e) ?w" by (simp add: wz_wf_def WZ_DMA_NOFBUFS_def del: upt_rec_numeral)
  have nz: "0 \<notin> set (desc (wz_ext ?e))" using demo_desc_nz by simp
  have "dom (dmem ?w) = set (desc demo_ext)" by (auto split: if_splits)
  then have "card (dom (dmem ?w)) \<le> 128" using card_length[of "desc demo_ext"] by (simp only: demo_desc_length)
  then have al: "dalloc ?w m l 1 \<noteq> None" if "card (dom m) < card (dom (dmem ?w)) + WZ_DMA_NOFBUFS" for m l
    using first_fit_succeeds[of m 256 l] that by (simp add: WZ_DMA_NOFBUFS_def)
  have "\<exists>e1 w1 e2 w2. ioctl_do_wz_stop (\<lambda>s. s) ?e ?w = Some (0, e1, w1) \<and>
    desc (wz_ext e1) = replicate WZ_DMA_NOFBUFS 0 \<and> buf_dma_t (wz_ext e1) = replicate WZ_DMA_NOFBUFS 0 \<and>
    desc_dma (wz_ext e1) = desc_dma (wz_ext ?e) \<and>
    ioctl_do_wz_start e1 w1 = Some (0, e2, w2) \<and>
    (\<forall>i < WZ_DMA_NOFBUFS. \<exists>d. dmem w2 (desc (wz_ext e2) ! i) = Some d \<and>
       dst_addr d = 0 \<and> bytes d = of_nat WZ_DMA_BUFLEN \<and> control d = DESC_MAGIC OR XDMA_DESC_COMPLETED)"
    by (rule wz_stop_then_start_writes_to_zero[OF wf _ nz _ _ _ _ _ al])
      (use first_fit_fresh[of 256] in \<open>simp_all add: demo_ext_def zero_ext_def zero_engine_def WZ_DMA_NOFBUFS_def del: upt_rec_numeral\<close>)
  moreover have "5 < WZ_DMA_NOFBUFS" by (simp add: WZ_DMA_NOFBUFS_def)
  ultimately show ?thesis by blast
qed

end
