(* ===== verification/Refinement.thy ===== *)
theory Refinement
  imports Main
begin

text \<open>
  Forward simulation between a component and an abstract account of it: when every operation the
  specification allows is matched by the code and re-establishes the abstraction relation, every
  sequence of operations the specification allows runs in the code and stays related to it.
\<close>

fun run :: "('e \<Rightarrow> 's \<Rightarrow> 's option) \<Rightarrow> 'e list \<Rightarrow> 's \<Rightarrow> 's option" where
  "run step [] s = Some s"
| "run step (x # xs) s = Option.bind (step x s) (run step xs)"

lemma run_append: "run step (xs @ ys) s = Option.bind (run step xs s) (run step ys)"
proof (induction xs arbitrary: s)
  case (Cons x xs)
  then show ?case by (cases "step x s") simp_all
qed simp

locale simulation =
  fixes cstep :: "'e \<Rightarrow> 's \<Rightarrow> 's option" and astep :: "'e \<Rightarrow> 'a \<Rightarrow> 'a option" and R :: "'s \<Rightarrow> 'a \<Rightarrow> bool"
  assumes matched: "R s a \<Longrightarrow> astep x a = Some a' \<Longrightarrow> \<exists>s'. cstep x s = Some s' \<and> R s' a'"
begin

lemma run_matched:
  assumes "R s a" and "run astep xs a = Some a'"
  shows "\<exists>s'. run cstep xs s = Some s' \<and> R s' a'"
  using assms
proof (induction xs arbitrary: s a)
  case Nil
  then show ?case by simp
next
  case (Cons x xs)
  from Cons.prems(2) obtain b where b: "astep x a = Some b" "run astep xs b = Some a'"
    by (auto simp: bind_eq_Some_conv)
  from matched[OF Cons.prems(1) b(1)] obtain t where t: "cstep x s = Some t" "R t b" by blast
  from Cons.IH[OF t(2) b(2)] t(1) show ?case by auto
qed

end

end
