(* ===== verification/Wz_Stream.thy ===== *)
theory Wz_Stream
  imports Wz_Start Refinement
begin

text \<open>
  The stream as its user sees it. The device writes results back into the descriptors of the ring,
  the interrupt service scans them, the reader gets blocks and gives them back; these steps may come in
  any order. The theory states what the stream is, a sequence of blocks cut out of the sequence of
  results at every end-of-packet, and proves that a started engine delivers this sequence.
\<close>

section \<open>The stream\<close>

text \<open>\<open>cuts p rs\<close> cuts the results \<open>rs\<close> into blocks when \<open>p\<close> has been collected for the current block; the
  second part of the result is what is left for an incomplete block.\<close>

fun cuts :: "xdma_result list \<Rightarrow> xdma_result list \<Rightarrow> xdma_result list list \<times> xdma_result list" where
  "cuts p [] = ([], p)"
| "cuts p (r # rs) = (if has_eop r then (case cuts [] rs of (bs, p') \<Rightarrow> ((p @ [r]) # bs, p')) else cuts (p @ [r]) rs)"

text \<open>The descriptions of consecutive blocks, the first one at ring position \<open>f\<close>.\<close>

fun describe :: "nat \<Rightarrow> xdma_result list list \<Rightarrow> block_desc list" where
  "describe f [] = []"
| "describe f (b # bs) = \<lparr>first_desc = of_nat f, last_desc = of_nat ((f + length b - 1) mod WZ_DMA_NOFBUFS),
     last_len = res_length (last b)\<rparr> # describe ((f + length b) mod WZ_DMA_NOFBUFS) bs"

text \<open>The state of the stream: the ring position of the oldest block not yet given back, the blocks held
  by the reader, the blocks in the FIFO, the beginning of a block that was scanned, and the results
  written and not yet scanned. The ring positions of all of these follow each other.\<close>

type_synonym stream = "nat \<times> xdma_result list list \<times> xdma_result list list \<times> xdma_result list \<times> xdma_result list"

definition pending :: "stream \<Rightarrow> xdma_result list" where
  "pending a = (case a of (r, h, q, p, n) \<Rightarrow> concat h @ concat q @ p @ n)"

datatype wz_op =
    Written nat xdma_result   \<comment> \<open>the device completes the descriptor at this position\<close>
  | Service                   \<comment> \<open>an interrupt is serviced\<close>
  | Getbuf block_desc         \<comment> \<open>the reader gets this block\<close>
  | Release block_desc        \<comment> \<open>the reader confirms this block\<close>

text \<open>What the stream allows: the device writes a result into the next free descriptor as long as another
  one stays free, the reader gets the blocks in order and gives them back in order.\<close>

fun wz_spec :: "wz_op \<Rightarrow> stream \<Rightarrow> stream option" where
  "wz_spec (Written i res) (r, h, q, p, n) =
    (let k = length (pending (r, h, q, p, n)) in
     if has_wb res \<and> Suc k < WZ_DMA_NOFBUFS \<and> i = (r + k) mod WZ_DMA_NOFBUFS then Some (r, h, q, p, n @ [res]) else None)"
| "wz_spec Service (r, h, q, p, n) = (case cuts p n of (bs, p') \<Rightarrow> Some (r, h, q @ bs, p', []))"
| "wz_spec (Getbuf d) (r, h, q, p, n) = (case q of
     [] \<Rightarrow> None
   | b # bs \<Rightarrow> if describe ((r + length (concat h)) mod WZ_DMA_NOFBUFS) [b] = [d] then Some (r, h @ [b], bs, p, n) else None)"
| "wz_spec (Release d) (r, h, q, p, n) = (case h of
     [] \<Rightarrow> None
   | b # bs \<Rightarrow> if describe r [b] = [d] then Some ((r + length b) mod WZ_DMA_NOFBUFS, bs, q, p, n) else None)"

text \<open>The same steps in the driver. The write-back of the device overwrites the first two words of the
  descriptor; the user memory at \<open>arg\<close> holds what the reader confirms; a block is got when its
  description was copied to the reader.\<close>

fun wz_step :: "(xdma_engine \<times> world \<Rightarrow> xdma_engine \<times> world) \<Rightarrow> u64 \<Rightarrow> wz_op \<Rightarrow> xdma_engine \<times> world \<Rightarrow> (xdma_engine \<times> world) option" where
  "wz_step sleep arg (Written i res) (e, w) = do {
     v \<leftarrow> arr_get (desc (wz_ext e)) i;
     w \<leftarrow> desc_upd v (\<lambda>d. d\<lparr>control := res_status res, bytes := res_length res\<rparr>) w;
     Some (e, w) }"
| "wz_step sleep arg Service (e, w) = (case wz_engine_service_cyclic_interrupt e w of
     Some (Some (_, e, w)) \<Rightarrow> Some (e, w) | _ \<Rightarrow> None)"
| "wz_step sleep arg (Getbuf d) (e, w) = do {
     (res, e, w') \<leftarrow> ioctl_do_wz_getbuf sleep e arg w;
     if res = 0 \<and> io w' = io w @ [KI (C_copy_to_user arg [first_desc d, last_desc d, last_len d]) 0]
     then Some (e, w') else None }"
| "wz_step sleep arg (Release d) (e, w) =
    (case ioctl_do_wz_confirm e arg (w\<lparr>usr := \<lambda>_ a. if a = arg then first_desc d else last_desc d\<rparr>) of
       Some (Some (res, w)) \<Rightarrow> if res = 0 then Some (e, w) else None | _ \<Rightarrow> None)"

text \<open>Written and got, in a sequence of steps.\<close>

definition written :: "wz_op list \<Rightarrow> xdma_result list" where
  "written ops = concat (map (\<lambda>x. case x of Written i res \<Rightarrow> [res] | _ \<Rightarrow> []) ops)"

definition got :: "wz_op list \<Rightarrow> block_desc list" where
  "got ops = concat (map (\<lambda>x. case x of Getbuf d \<Rightarrow> [d] | _ \<Rightarrow> []) ops)"

section \<open>The abstraction relation\<close>

definition wz_env :: "u64 \<Rightarrow> xdma_engine \<Rightarrow> world \<Rightarrow> bool" where
  "wz_env arg e w \<longleftrightarrow> (\<forall>l. hw w l (regs e + er R_status_rc) AND XDMA_STAT_BUSY \<noteq> 0) \<and>
     (\<forall>l. kint w l (C_copy_from_user arg 8) = 0) \<and> (\<forall>l xs. kint w l (C_copy_to_user arg xs) = 0)"

definition wz_rel :: "u64 \<Rightarrow> xdma_engine \<times> world \<Rightarrow> stream \<Rightarrow> bool" where
  "wz_rel arg s a \<longleftrightarrow> (case (s, a) of ((e, w), (r, h, q, p, n)) \<Rightarrow>
     wz_env arg e w \<and> magic e = MAGIC_ENGINE \<and> running e \<and> wz_wf (wz_ext e) w \<and>
     r < WZ_DMA_NOFBUFS \<and> length (pending a) < WZ_DMA_NOFBUFS \<and> [] \<notin> set h \<union> set q \<and>
     kfifo (wz_ext e) = Some (describe ((r + length (concat h)) mod WZ_DMA_NOFBUFS) q) \<and>
     block_first_desc (wz_ext e) = (r + length (concat h @ concat q)) mod WZ_DMA_NOFBUFS \<and>
     block_scanned_desc (wz_ext e) = (r + length (concat h @ concat q @ p)) mod WZ_DMA_NOFBUFS \<and>
     (\<forall>i < length (pending a). has_wb (pending a ! i) \<and>
        wb_at (wz_ext e) w ((r + i) mod WZ_DMA_NOFBUFS) = pending a ! i) \<and>
     (\<forall>i < WZ_DMA_NOFBUFS. length (pending a) \<le> i \<longrightarrow>
        dmem w (desc (wz_ext e) ! ((r + i) mod WZ_DMA_NOFBUFS)) = Some (wz_copy (wz_ext e) ((r + i) mod WZ_DMA_NOFBUFS))) \<and>
     (\<forall>i < WZ_DMA_NOFBUFS. \<not> has_wb (result_of_desc (wz_copy (wz_ext e) i))))"

section \<open>Cutting and describing\<close>

lemma cuts_append:
  "cuts p (xs @ ys) = (case cuts p xs of (bs, p') \<Rightarrow> (case cuts p' ys of (cs, p'') \<Rightarrow> (bs @ cs, p'')))"
  by (induction xs arbitrary: p) (auto split: prod.splits)

lemma cuts_concat: "cuts p xs = (bs, p') \<Longrightarrow> concat bs @ p' = p @ xs \<and> [] \<notin> set bs"
proof (induction xs arbitrary: p bs)
  case (Cons x xs)
  show ?case
  proof (cases "has_eop x")
    case True
    with Cons.prems obtain cs where "bs = (p @ [x]) # cs" "cuts [] xs = (cs, p')" by (auto split: prod.splits)
    with Cons.IH[of "[]" cs] show ?thesis by auto
  next
    case False
    with Cons.prems Cons.IH[of "p @ [x]" bs] show ?thesis by simp
  qed
qed simp

lemma describe_append:
  "describe f (bs @ cs) = describe f bs @ describe ((f + length (concat bs)) mod WZ_DMA_NOFBUFS) cs" if "f < WZ_DMA_NOFBUFS"
  using that
proof (induction bs arbitrary: f)
  case (Cons b bs)
  have "(f + length b) mod WZ_DMA_NOFBUFS < WZ_DMA_NOFBUFS" by (simp add: wzr.N_pos)
  with Cons show ?case by (simp add: mod_simps ac_simps)
qed simp

lemma describe_length [simp]: "length (describe f bs) = length bs"
  by (induction bs arbitrary: f) simp_all

lemma blocks_le_concat: "[] \<notin> set bs \<Longrightarrow> length bs \<le> length (concat bs)"
proof (induction bs)
  case (Cons b bs)
  then show ?case by (cases b) auto
qed simp

text \<open>The scan's view of a run of results, \<^const>\<open>segments\<close>, is the cut of the results.\<close>

lemma segments_cuts:
  assumes "f < WZ_DMA_NOFBUFS" and "c = (f + length p) mod WZ_DMA_NOFBUFS"
    and "\<And>i. i < length xs \<Longrightarrow> res ((c + i) mod WZ_DMA_NOFBUFS) = xs ! i" and "cuts p xs = (bs, p')"
  shows "segments res f (path c (length xs)) = (describe f bs, (f + length (concat bs)) mod WZ_DMA_NOFBUFS)"
  using assms
proof (induction xs arbitrary: f c p bs)
  case Nil
  then show ?case by simp
next
  case (Cons x xs)
  let ?N = WZ_DMA_NOFBUFS
  have c: "c < ?N" using Cons.prems(2) by (simp add: wzr.N_pos)
  have x: "res c = x" using Cons.prems(3)[of 0] c by simp
  have nx: "wz_next c = (f + length (p @ [x])) mod ?N" using wzr.nxt_mod[OF c] Cons.prems(2) by (simp add: mod_simps)
  have nxs: "res ((wz_next c + i) mod ?N) = xs ! i" if "i < length xs" for i
    using Cons.prems(3)[of "Suc i"] that wzr.nxt_mod[OF c] by (simp add: mod_simps)
  show ?case
  proof (cases "has_eop x")
    case True
    with Cons.prems(4) obtain cs where cs: "bs = (p @ [x]) # cs" "cuts [] xs = (cs, p')" by (auto split: prod.splits)
    have "segments res (wz_next c) (path (wz_next c) (length xs)) =
        (describe (wz_next c) cs, (wz_next c + length (concat cs)) mod ?N)"
      by (rule Cons.IH[where p = "[]"]) (use wzr.nxt_less[OF c] nxs cs(2) in simp_all)
    with True x cs(1) Cons.prems(2) nx show ?thesis by (simp add: mod_simps ac_simps)
  next
    case False
    have "segments res f (path (wz_next c) (length xs)) = (describe f bs, (f + length (concat bs)) mod ?N)"
      by (rule Cons.IH[where p = "p @ [x]"]) (use Cons.prems nx nxs False in simp_all)
    with False x show ?thesis by simp
  qed
qed


section \<open>The steps keep the relation\<close>

lemma wz_relD:
  assumes "wz_rel arg (e, w) (r, h, q, p, n)"
  shows "wz_env arg e w" "magic e = MAGIC_ENGINE" "running e" "wz_wf (wz_ext e) w" "r < WZ_DMA_NOFBUFS"
    "length (concat h @ concat q @ p @ n) < WZ_DMA_NOFBUFS" "[] \<notin> set h \<union> set q"
    "kfifo (wz_ext e) = Some (describe ((r + length (concat h)) mod WZ_DMA_NOFBUFS) q)"
    "block_first_desc (wz_ext e) = (r + length (concat h @ concat q)) mod WZ_DMA_NOFBUFS"
    "block_scanned_desc (wz_ext e) = (r + length (concat h @ concat q @ p)) mod WZ_DMA_NOFBUFS"
    "\<And>i. i < length (concat h @ concat q @ p @ n) \<Longrightarrow> has_wb ((concat h @ concat q @ p @ n) ! i) \<and>
        wb_at (wz_ext e) w ((r + i) mod WZ_DMA_NOFBUFS) = (concat h @ concat q @ p @ n) ! i"
    "\<And>i. i < WZ_DMA_NOFBUFS \<Longrightarrow> length (concat h @ concat q @ p @ n) \<le> i \<Longrightarrow>
        dmem w (desc (wz_ext e) ! ((r + i) mod WZ_DMA_NOFBUFS)) = Some (wz_copy (wz_ext e) ((r + i) mod WZ_DMA_NOFBUFS))"
    "\<And>i. i < WZ_DMA_NOFBUFS \<Longrightarrow> \<not> has_wb (result_of_desc (wz_copy (wz_ext e) i))"
  using assms unfolding wz_rel_def pending_def by simp_all

lemma wb_at_upd:
  assumes "wz_wf ext w" and "i < WZ_DMA_NOFBUFS" and "j < WZ_DMA_NOFBUFS"
  shows "wb_at ext (w\<lparr>dmem := (dmem w)(desc ext ! i \<mapsto> d)\<rparr>) j = (if j = i then result_of_desc d else wb_at ext w j)"
  using wz_desc_inj[OF assms(1) assms(3,2)] by (simp add: wb_at_def)

lemma written_step:
  assumes R: "wz_rel arg (e, w) (r, h, q, p, n)" and res: "has_wb res"
    and k: "k = length (concat h @ concat q @ p @ n)" "Suc k < WZ_DMA_NOFBUFS"
  shows "\<exists>w'. wz_step sleep arg (Written ((r + k) mod WZ_DMA_NOFBUFS) res) (e, w) = Some (e, w') \<and>
    wz_rel arg (e, w') (r, h, q, p, n @ [res])"
proof -
  let ?N = WZ_DMA_NOFBUFS and ?x = "wz_ext e" and ?i = "(r + k) mod WZ_DMA_NOFBUFS"
  define l where "l = concat h @ concat q @ p @ n"
  note D = wz_relD[OF R, folded l_def]
  have i: "?i < ?N" by (simp add: wzr.N_pos)
  from wz_live[OF D(4) i] obtain d where d: "dmem w (desc ?x ! ?i) = Some d" .
  let ?d = "d\<lparr>control := res_status res, bytes := res_length res\<rparr>"
  let ?w = "w\<lparr>dmem := (dmem w)(desc ?x ! ?i \<mapsto> ?d)\<rparr>"
  have step: "wz_step sleep arg (Written ?i res) (e, w) = Some (e, ?w)"
    using d i wz_wf_lengths[OF D(4)] by (simp add: desc_upd_def)
  have kl: "k = length l" using k(1) by (simp add: l_def)
  have same: "(r + j) mod ?N = ?i \<longleftrightarrow> j = k" if "j < ?N" for j
    using mod_shift_eq[OF D(5) that, of k] k(2) by simp
  have wb: "wb_at ?x ?w ((r + j) mod ?N) = (l @ [res]) ! j \<and> has_wb ((l @ [res]) ! j)" if "j < Suc k" for j
  proof (cases "j = k")
    case True
    then show ?thesis using wb_at_upd[OF D(4) i i] kl res by (simp add: nth_append result_of_desc_def)
  next
    case False
    with that have "j < k" "j < ?N" using k(2) by auto
    with wb_at_upd[OF D(4) i, of "(r + j) mod ?N" ?d] same[of j] D(11)[of j] kl i show ?thesis
      by (simp add: nth_append)
  qed
  have free: "dmem ?w (desc ?x ! ((r + j) mod ?N)) = Some (wz_copy ?x ((r + j) mod ?N))" if "j < ?N" "Suc k \<le> j" for j
    using that same[of j] wz_desc_inj[OF D(4), of "(r + j) mod ?N" ?i] D(12)[of j] kl i by (simp add: wzr.N_pos)
  have l': "pending (r, h, q, p, n @ [res]) = l @ [res]" by (simp add: pending_def l_def)
  have "wz_rel arg (e, ?w) (r, h, q, p, n @ [res])"
    unfolding wz_rel_def l' prod.case
    using D(1-10,13) kl k(2) wb free by (simp add: wz_env_def)
  with step show ?thesis by blast
qed

lemma wb_at_io [simp]: "wb_at ext (w\<lparr>io := l\<rparr>) = wb_at ext w"
  by (simp add: wb_at_def fun_eq_iff)

text \<open>The write-backs the scan has not seen yet, from its position on, and the first descriptor without one.\<close>

lemma rel_unscanned:
  assumes R: "wz_rel arg (e, w) (r, h, q, p, n)"
  shows "i < length n \<Longrightarrow> has_wb (n ! i) \<and> wb_at (wz_ext e) w ((block_scanned_desc (wz_ext e) + i) mod WZ_DMA_NOFBUFS) = n ! i"
    "\<not> has_wb (wb_at (wz_ext e) w ((block_scanned_desc (wz_ext e) + length n) mod WZ_DMA_NOFBUFS))"
proof -
  let ?N = WZ_DMA_NOFBUFS and ?x = "wz_ext e" and ?c = "block_scanned_desc (wz_ext e)"
  define l where "l = concat h @ concat q @ p @ n"
  note D = wz_relD[OF R, folded l_def]
  show "has_wb (n ! i) \<and> wb_at ?x w ((?c + i) mod ?N) = n ! i" if "i < length n"
  proof -
    let ?j = "length (concat h @ concat q @ p) + i"
    have "l ! ?j = n ! i" "?j < length l" using that by (simp_all add: l_def nth_append)
    moreover have "(r + ?j) mod ?N = (?c + i) mod ?N" using D(10) by (simp add: mod_simps ac_simps)
    ultimately show ?thesis using D(11)[of ?j] by simp
  qed
  have "(?c + length n) mod ?N = (r + length l) mod ?N" using D(10) by (simp add: mod_simps ac_simps l_def)
  with D(12)[of "length l"] D(6) D(13)[of "(r + length l) mod ?N"] show "\<not> has_wb (wb_at ?x w ((?c + length n) mod ?N))"
    by (simp add: wb_at_def wzr.N_pos)
qed

lemma service_step:
  assumes R: "wz_rel arg (e, w) (r, h, q, p, n)" and cut: "cuts p n = (bs, p')"
  shows "\<exists>e' w'. wz_step sleep arg Service (e, w) = Some (e', w') \<and> wz_rel arg (e', w') (r, h, q @ bs, p', [])"
proof -
  let ?N = WZ_DMA_NOFBUFS and ?x = "wz_ext e" and ?c = "block_scanned_desc (wz_ext e)" and ?f = "block_first_desc (wz_ext e)"
  define l where "l = concat h @ concat q @ p @ n"
  note D = wz_relD[OF R, folded l_def]
  have c: "?c < ?N" and f: "?f < ?N" using D(4) by (auto simp: wz_wf_def)
  have cf: "?c = (?f + length p) mod ?N" using D(9,10) by (simp add: mod_simps ac_simps)
  have cc: "concat bs @ p' = p @ n" "[] \<notin> set bs" using cuts_concat[OF cut] by auto
  note n = rel_unscanned(1)[OF R] and last = rel_unscanned(2)[OF R]
  have path: "\<forall>i \<in> set (path ?c (length n)). has_wb (wb_at ?x w i)" using n unfolding path_mod[OF c] by auto
  have seg: "segments (wb_at ?x w) ?f (path ?c (length n)) = (describe ?f bs, (?f + length (concat bs)) mod ?N)"
    by (rule segments_cuts[OF f cf _ cut]) (use n in auto)
  have "length q + length bs \<le> length (concat q) + length (concat bs)"
    using blocks_le_concat[of q] blocks_le_concat[OF cc(2)] D(7) by auto
  then have room: "length q + length bs \<le> ?N" using D(6) arg_cong[OF cc(1), of length] by (simp add: l_def)
  have fp: "(wz_next ^^ length n) ?c = (?c + length n) mod ?N" using wzr.funpow_nxt[OF c] .
  let ?v = "hw w (io w) (regs e + er R_status_rc)"
  let ?w = "emit (Rd (regs e + er R_status_rc) ?v) w"
  let ?q = "describe ((r + length (concat h)) mod ?N) q"
  let ?y = "?x\<lparr>kfifo := Some (?q @ describe ?f bs), block_first_desc := (?f + length (concat bs)) mod ?N,
      block_scanned_desc := (wz_next ^^ length n) ?c\<rparr>"
  have "\<exists>m. wz_scan ?c ?x ?w = Some (Some (?y, ?w\<lparr>io := io ?w @ m\<rparr>)) \<and>
    filter (\<lambda>x. x = KV (C_wake_up ''getbuf_wq'')) m = replicate (length (describe ?f bs)) (KV (C_wake_up ''getbuf_wq''))"
    by (rule wz_scan_room) (use D(4,8) c path last seg room fp in auto)
  then obtain m where m: "wz_scan ?c ?x ?w = Some (Some (?y, ?w\<lparr>io := io ?w @ m\<rparr>))" by blast
  let ?e' = "e\<lparr>status := ?v, wz_ext := ?y\<rparr>" and ?w' = "?w\<lparr>io := io ?w @ m\<rparr>"
  have step: "wz_step sleep arg Service (e, w) = Some (?e', ?w')"
    using D(1,2) m
    by (simp add: wz_engine_service_cyclic_interrupt_def engine_status_read_def read_register_def wz_env_def Let_def)
  have pe: "pending (r, h, q @ bs, p', []) = l" using cc(1) by (simp add: pending_def l_def)
  have wf: "wz_wf ?y ?w'" using D(4) f c by (simp add: fp wzr.N_pos)
  have y: "wb_at ?y ?w' = wb_at ?x w" "wz_copy ?y = wz_copy ?x" "desc ?y = desc ?x" "dmem ?w' = dmem w"
    by (simp_all add: wz_copy_def fun_eq_iff)
  have k: "?q @ describe ?f bs = describe ((r + length (concat h)) mod ?N) (q @ bs)"
    using D(9) by (simp add: describe_append wzr.N_pos mod_simps ac_simps)
  have b: "(?f + length (concat bs)) mod ?N = (r + length (concat h @ concat (q @ bs))) mod ?N"
    "(wz_next ^^ length n) ?c = (r + length (concat h @ concat (q @ bs) @ p')) mod ?N"
    using D(9,10) arg_cong[OF cc(1), of length] unfolding fp by (simp_all add: mod_simps ac_simps)
  have "wz_rel arg (?e', ?w') (r, h, q @ bs, p', [])"
    unfolding wz_rel_def pe prod.case
    using D(1,2,3,5,6,7,11,12,13) wf cc(2) k b y by (simp add: wz_env_def)
  with step show ?thesis by blast
qed

lemma getbuf_step:
  assumes R: "wz_rel arg (e, w) (r, h, b # q, p, n)" and d: "describe ((r + length (concat h)) mod WZ_DMA_NOFBUFS) [b] = [d]"
  shows "\<exists>e' w'. wz_step sleep arg (Getbuf d) (e, w) = Some (e', w') \<and> wz_rel arg (e', w') (r, h @ [b], q, p, n)"
proof -
  let ?x = "wz_ext e" and ?s = "(r + length (concat h @ b)) mod WZ_DMA_NOFBUFS"
  note D = wz_relD[OF R]
  have k: "kfifo ?x = Some (d # describe ?s q)" using D(8) d by (simp add: mod_simps ac_simps)
  let ?e = "e\<lparr>wz_ext := ?x\<lparr>kfifo := Some (describe ?s q)\<rparr>\<rparr>"
  let ?w = "emit (KI (C_copy_to_user arg [first_desc d, last_desc d, last_len d]) 0) w"
  have step: "wz_step sleep arg (Getbuf d) (e, w) = Some (?e, ?w)"
    using D(1,3) k by (simp add: ioctl_do_wz_getbuf_def getbuf_ready_def call_int_def wz_env_def)
  have pe: "pending (r, h @ [b], q, p, n) = pending (r, h, b # q, p, n)" by (simp add: pending_def)
  have "wz_wf (wz_ext ?e) ?w" using D(4) by (simp add: wz_wf_def)
  then have "wz_rel arg (?e, ?w) (r, h @ [b], q, p, n)"
    using R unfolding wz_rel_def pe prod.case
    by (simp add: wz_env_def wb_at_def wz_copy_def)
  with step show ?thesis by blast
qed

text \<open>The arc of a block of \<open>m\<close> descriptors that begins at \<open>r\<close>.\<close>

lemma arc_block:
  assumes "r < WZ_DMA_NOFBUFS" and "0 < m" and "m < WZ_DMA_NOFBUFS" and "i < WZ_DMA_NOFBUFS"
  shows "(r + i) mod WZ_DMA_NOFBUFS \<in> wzr.arc r ((r + m - 1) mod WZ_DMA_NOFBUFS) \<longleftrightarrow> i < m"
proof -
  have gap: "wzr.gap r ((r + m - 1) mod WZ_DMA_NOFBUFS) = m - 1" using wzr.gap_fwd[OF assms(1), of "m - 1"] assms(2,3) by simp
  have le: "k \<le> m - 1 \<longleftrightarrow> k < m" for k using assms(2) by linarith
  have eq: "(r + i) mod WZ_DMA_NOFBUFS = (r + k) mod WZ_DMA_NOFBUFS \<longleftrightarrow> i = k" if "k < m" for k
    by (rule mod_shift_eq[OF assms(1,4)]) (use that assms(3) in simp)
  then show ?thesis unfolding wzr.arc_def gap le by blast
qed

lemma release_step:
  assumes R: "wz_rel arg (e, w) (r, b # h, q, p, n)" and d: "describe r [b] = [d]"
  shows "\<exists>w'. wz_step sleep arg (Release d) (e, w) = Some (e, w') \<and>
    wz_rel arg (e, w') ((r + length b) mod WZ_DMA_NOFBUFS, h, q, p, n)"
proof -
  let ?N = WZ_DMA_NOFBUFS and ?x = "wz_ext e" and ?r = "(r + length b) mod WZ_DMA_NOFBUFS"
    and ?j = "(r + length b - 1) mod WZ_DMA_NOFBUFS"
  define l where "l = concat h @ concat q @ p @ n"
  note D = wz_relD[OF R]
  have b: "0 < length b" "length b + length l < ?N" using D(6,7) by (auto simp: l_def)
  have j: "?j < ?N" by (simp add: wzr.N_pos)
  let ?u = "emit (KI (C_copy_from_user arg 8) 0) (w\<lparr>usr := \<lambda>_ a. if a = arg then first_desc d else last_desc d\<rparr>)"
  have "wz_wf ?x ?u" using D(4) by (simp add: wz_wf_def)
  from wz_confirm_loop_restores[OF D(5) j this] obtain w' where c: "wz_confirm_loop r ?j ?x ?u = Some (Some w')"
    "\<And>i. i < ?N \<Longrightarrow> dmem w' (desc ?x ! i) = (if i \<in> wzr.arc r ?j then Some (wz_copy ?x i) else dmem w (desc ?x ! i))"
    "hw w' = hw w" "kint w' = kint w" and wf: "wz_wf ?x w'" by auto
  have u: "unat (of_nat i :: u32) = i" if "i < ?N" for i using that by (simp add: WZ_DMA_NOFBUFS_def)
  have step: "wz_step sleep arg (Release d) (e, w) = Some (e, w')"
    using D(1) c(1) d u[OF D(5)] u[OF j] by (auto simp: ioctl_do_wz_confirm_def call_int_def wz_env_def Let_def)
  have arc: "(r + i) mod ?N \<in> wzr.arc r ?j \<longleftrightarrow> i < length b" if "i < ?N" for i
    by (rule arc_block) (use that D(5) b in auto)
  have sh: "(?r + i) mod ?N = (r + (length b + i)) mod ?N" for i by (simp add: mod_simps ac_simps)
  have new: "dmem w' (desc ?x ! ((r + i) mod ?N)) =
      (if i < length b then Some (wz_copy ?x ((r + i) mod ?N)) else dmem w (desc ?x ! ((r + i) mod ?N)))" if "i < ?N" for i
    using c(2)[of "(r + i) mod ?N"] arc[OF that] by (simp add: wzr.N_pos)
  have wb: "has_wb (l ! i) \<and> wb_at ?x w' ((?r + i) mod ?N) = l ! i" if "i < length l" for i
    using D(11)[of "length b + i"] new[of "length b + i"] that b(2) unfolding sh by (simp add: l_def wb_at_def)
  have free: "dmem w' (desc ?x ! ((?r + i) mod ?N)) = Some (wz_copy ?x ((?r + i) mod ?N))" if i: "i < ?N" "length l \<le> i" for i
  proof (cases "length b + i < ?N")
    case True
    with D(12)[of "length b + i"] new[of "length b + i"] i show ?thesis unfolding sh by (simp add: l_def)
  next
    case False
    let ?k = "length b + i - ?N"
    have k: "(r + (length b + i)) mod ?N = (r + ?k) mod ?N" using False by (simp add: le_mod_geq)
    have "?k < length b" using i(1) b(1) by linarith
    with new[of ?k] b(2) show ?thesis unfolding sh k by simp
  qed
  have pe: "pending (?r, h, q, p, n) = l" by (simp add: pending_def l_def)
  have "wz_rel arg (e, w') (?r, h, q, p, n)"
    unfolding wz_rel_def pe prod.case
  proof (intro conjI allI impI)
    show "wz_env arg e w'" using D(1) c(3,4) by (simp add: wz_env_def)
  next
    fix i assume "i < length l"
    then show "has_wb (l ! i)" "wb_at ?x w' ((?r + i) mod ?N) = l ! i" using wb by auto
  next
    fix i assume "i < ?N" "length l \<le> i"
    then show "dmem w' (desc ?x ! ((?r + i) mod ?N)) = Some (wz_copy ?x ((?r + i) mod ?N))" by (rule free)
  qed (use D(2,3,7,8,9,10,13) b wf in \<open>simp_all add: wzr.N_pos sh\<close>)
  with step show ?thesis by blast
qed

interpretation wzs: simulation "wz_step sleep arg" wz_spec "wz_rel arg" for sleep arg
proof
  fix s a x a' assume R: "wz_rel arg s a" and x: "wz_spec x a = Some a'"
  obtain e w r h q p n where sa: "s = (e, w)" "a = (r, h, q, p, n)" by (cases s; cases a)
  note R = R[unfolded sa]
  show "\<exists>s'. wz_step sleep arg x s = Some s' \<and> wz_rel arg s' a'"
  proof (cases x)
    case (Written i res)
    with x sa show ?thesis
      using written_step[OF R, of res _ sleep] by (auto simp: Let_def pending_def split: if_splits)
  next
    case Service
    with x sa show ?thesis using service_step[OF R, of _ _ sleep] by (auto split: prod.splits)
  next
    case (Getbuf d)
    with x sa obtain b bs where b: "q = b # bs" "describe ((r + length (concat h)) mod WZ_DMA_NOFBUFS) [b] = [d]"
      "a' = (r, h @ [b], bs, p, n)" by (auto split: list.splits if_splits simp del: describe.simps)
    from getbuf_step[OF R[unfolded b(1)] b(2)] b(3) Getbuf sa show ?thesis by blast
  next
    case (Release d)
    with x sa obtain b bs where b: "h = b # bs" "describe r [b] = [d]" "a' = ((r + length b) mod WZ_DMA_NOFBUFS, bs, q, p, n)"
      by (auto split: list.splits if_splits simp del: describe.simps)
    from release_step[OF R[unfolded b(1)] b(2)] b(3) Release sa show ?thesis by blast
  qed
qed

section \<open>What the reader has got\<close>

text \<open>Along every sequence of steps the specification allows, the blocks got so far, followed by those in
  the FIFO, are the blocks of the results scanned so far.\<close>

lemma wz_spec_delivers:
  assumes "run wz_spec ops (r0, [], [], [], []) = Some (r, h, q, p, n)" and "r0 < WZ_DMA_NOFBUFS"
  shows "\<exists>W old. written ops = W @ n \<and> cuts [] W = (old @ h @ q, p) \<and>
    r = (r0 + length (concat old)) mod WZ_DMA_NOFBUFS \<and> got ops = describe r0 (old @ h)"
  using assms(1)
proof (induction ops arbitrary: r h q p n rule: rev_induct)
  case Nil
  then show ?case using assms(2) by (auto simp: written_def got_def)
next
  case (snoc x ops)
  obtain r' h' q' p' n' where pre: "run wz_spec ops (r0, [], [], [], []) = Some (r', h', q', p', n')"
    and x: "wz_spec x (r', h', q', p', n') = Some (r, h, q, p, n)"
    using snoc.prems by (auto simp: run_append bind_eq_Some_conv)
  from snoc.IH[OF pre] obtain W old where I: "written ops = W @ n'" "cuts [] W = (old @ h' @ q', p')"
    "r' = (r0 + length (concat old)) mod WZ_DMA_NOFBUFS" "got ops = describe r0 (old @ h')" by blast
  show ?case
  proof (cases x)
    case (Written i res)
    with x I show ?thesis
      by (intro exI[of _ W] exI[of _ old]) (auto simp: written_def got_def Let_def split: if_splits)
  next
    case Service
    with x I show ?thesis
      by (intro exI[of _ "W @ n'"] exI[of _ old]) (auto simp: written_def got_def cuts_append split: prod.splits)
  next
    case (Getbuf d)
    with x obtain b where "q' = b # q" "r = r'" "h = h' @ [b]" "p = p'" "n = n'"
      "describe ((r' + length (concat h')) mod WZ_DMA_NOFBUFS) [b] = [d]" by (auto split: list.splits if_splits)
    with I Getbuf describe_append[OF assms(2), of "old @ h'" "[b]"] show ?thesis
      by (intro exI[of _ W] exI[of _ old]) (auto simp: written_def got_def mod_simps ac_simps)
  next
    case (Release d)
    with x obtain b where "h' = b # h" "q = q'" "p = p'" "n = n'" "r = (r' + length b) mod WZ_DMA_NOFBUFS"
      by (auto split: list.splits if_splits)
    with I Release show ?thesis
      by (intro exI[of _ W] exI[of _ "old @ [b]"]) (auto simp: written_def got_def mod_simps ac_simps)
  qed
qed

section \<open>Properties\<close>

lemma wz_started_rel:
  assumes "wz_ring WZ_DMA_NOFBUFS (wz_ext e) w" and "wz_env arg e w" "magic e = MAGIC_ENGINE" "running e"
    and k: "kfifo (wz_ext e) = Some []" and b: "block_first_desc (wz_ext e) = 0" "block_scanned_desc (wz_ext e) = 0"
  shows "wz_rel arg (e, w) (0, [], [], [], [])"
proof -
  have "kfifo (wz_ext e) \<noteq> None" using k by simp
  note wf = wz_ring_wf[OF assms(1) this b]
  have "\<not> has_wb (result_of_desc (wz_desc_of (wz_ext e) i))" for i
    by (simp add: has_wb_def result_of_desc_def wz_desc_of_fields const_defs)
  with assms wf show ?thesis by (simp add: wz_rel_def pending_def wzr.N_pos)
qed

text \<open>C1. The WZ stream end to end. Start an engine whose buffers are allocated and whose FIFO is empty. Then
  for every sequence of write-backs, interrupts, gets and confirmations in which the device leaves one
  descriptor free and the reader takes and confirms the blocks in order, the driver runs the whole
  sequence without a crash or an endless loop. The blocks the reader has got, followed by the blocks in the FIFO, are
  exactly the blocks of the results scanned so far (what was written but for the results \<open>n\<close> since the last interrupt), in order: no block is lost,
  repeated or cut in the wrong place, however the steps interleave.\<close>

theorem wz_stream_end_to_end:
  assumes "wz_startable e" and "dalloc_fresh (dalloc w)"
    and "\<And>m l. card (dom m) < card (dom (dmem w)) + WZ_DMA_NOFBUFS \<Longrightarrow> dalloc w m l 1 \<noteq> None"
    and "\<And>m l. xalloc w m l \<noteq> 0"
    and "kfifo (wz_ext e) = Some []" and "magic e = MAGIC_ENGINE" and "wz_env arg e w"
  shows "\<exists>e1 w1. ioctl_do_wz_start e w = Some (0, e1, w1) \<and>
    (\<forall>ops r h q p n. run wz_spec ops (0, [], [], [], []) = Some (r, h, q, p, n) \<longrightarrow>
      (\<exists>e2 w2 W. run (wz_step sleep arg) ops (e1, w1) = Some (e2, w2) \<and> written ops = W @ n \<and>
         got ops @ the (kfifo (wz_ext e2)) = describe 0 (fst (cuts [] W))))"
proof -
  from wz_start_run[OF assms(1-4)] obtain e1 w1 where s: "ioctl_do_wz_start e w = Some (0, e1, w1)"
    "wz_ring WZ_DMA_NOFBUFS (wz_ext e1) w1" "kfifo (wz_ext e1) = kfifo (wz_ext e)" "block_first_desc (wz_ext e1) = 0"
    "block_scanned_desc (wz_ext e1) = 0" "magic e1 = magic e" "running e1" "regs e1 = regs e" "hw w1 = hw w" "kint w1 = kint w"
    by blast
  have R: "wz_rel arg (e1, w1) (0, [], [], [], [])"
    by (rule wz_started_rel) (use s assms(5-7) in \<open>simp_all add: wz_env_def\<close>)
  have "\<exists>e2 w2 W. run (wz_step sleep arg) ops (e1, w1) = Some (e2, w2) \<and> written ops = W @ n \<and>
      got ops @ the (kfifo (wz_ext e2)) = describe 0 (fst (cuts [] W))"
    if ops: "run wz_spec ops (0, [], [], [], []) = Some (r, h, q, p, n)" for ops r h q p n
  proof -
    from wzs.run_matched[OF R ops, of sleep] obtain e2 w2 where
      r: "run (wz_step sleep arg) ops (e1, w1) = Some (e2, w2)" "wz_rel arg (e2, w2) (r, h, q, p, n)" by auto
    from wz_spec_delivers[OF ops] obtain W old where
      W: "written ops = W @ n" "cuts [] W = (old @ h @ q, p)" "r = length (concat old) mod WZ_DMA_NOFBUFS"
      "got ops = describe 0 (old @ h)" by (auto simp: wzr.N_pos)
    from wz_relD(8)[OF r(2)] W have "got ops @ the (kfifo (wz_ext e2)) = describe 0 (fst (cuts [] W))"
      using describe_append[OF wzr.N_pos, of "old @ h" q] by (simp add: mod_simps)
    with r(1) W(1) show ?thesis by blast
  qed
  with s(1) show ?thesis by blast
qed

theorem wz_stream_end_to_end_witness:
  "\<exists>e1 w1 e2 w2. ioctl_do_wz_start (zero_engine\<lparr>magic := MAGIC_ENGINE, wz_ext := zero_ext\<lparr>buf_ready := True, buf_dma_t := map of_nat [5000..<5128],
       desc_copy := Some (1, replicate 128 zero_desc), kfifo := Some []\<rparr>\<rparr>) (quiet_world\<lparr>hw := \<lambda>_ _. 1, dalloc := first_fit 128, xalloc := \<lambda>_ _. 64\<rparr>)
     = Some (0, e1, w1) \<and>
     run (wz_step id 0x40) [Written 0 \<lparr>res_status = 0x52B40000, res_length = 9\<rparr>, Written 1 \<lparr>res_status = 0x52B40001, res_length = 7\<rparr>, Service,
       Getbuf \<lparr>first_desc = 0, last_desc = 1, last_len = 7\<rparr>, Release \<lparr>first_desc = 0, last_desc = 1, last_len = 7\<rparr>] (e1, w1) = Some (e2, w2) \<and>
     the (kfifo (wz_ext e2)) = []"
proof -
  let ?e = "zero_engine\<lparr>magic := MAGIC_ENGINE, wz_ext := zero_ext\<lparr>buf_ready := True, buf_dma_t := map of_nat [5000..<5128],
       desc_copy := Some (1, replicate 128 zero_desc), kfifo := Some []\<rparr>\<rparr>"
  let ?w = "quiet_world\<lparr>hw := \<lambda>_ _. 1, dalloc := first_fit 128, xalloc := \<lambda>_ _. 64\<rparr>"
  let ?b = "\<lparr>first_desc = 0, last_desc = 1, last_len = 7 :: u32\<rparr>"
  let ?ops = "[Written 0 \<lparr>res_status = 0x52B40000, res_length = 9\<rparr>, Written 1 \<lparr>res_status = 0x52B40001, res_length = 7\<rparr>, Service,
    Getbuf ?b, Release ?b]"
  have st: "wz_startable ?e" by (simp add: wz_startable_def zero_engine_def zero_ext_def WZ_DMA_NOFBUFS_def)
  have al: "dalloc ?w m l 1 \<noteq> None" if "card (dom m) < card (dom (dmem ?w)) + WZ_DMA_NOFBUFS" for m l
    using first_fit_succeeds[of m 128 l] that by (simp add: WZ_DMA_NOFBUFS_def)
  have env: "wz_env 0x40 ?e ?w" by (simp add: wz_env_def XDMA_STAT_BUSY_def)
  have sp: "run wz_spec ?ops (0, [], [], [], []) = Some (2, [], [], [], [])"
    by (simp add: pending_def has_wb_def has_eop_def C2H_WB_def WZ_DMA_NOFBUFS_def)
  from wz_stream_end_to_end[OF st _ al _ _ _ env, of id] obtain e1 w1 where s: "ioctl_do_wz_start ?e ?w = Some (0, e1, w1)"
    and r: "\<And>ops r h q p n. run wz_spec ops (0, [], [], [], []) = Some (r, h, q, p, n) \<Longrightarrow>
      (\<exists>e2 w2 W. run (wz_step id 0x40) ops (e1, w1) = Some (e2, w2) \<and> written ops = W @ n \<and>
         got ops @ the (kfifo (wz_ext e2)) = describe 0 (fst (cuts [] W)))"
    using first_fit_fresh[of 128] by auto
  from r[OF sp] s show ?thesis
    by (auto simp: written_def got_def has_eop_def WZ_DMA_NOFBUFS_def)
qed

text \<open>The stream needs the free descriptor. When every descriptor of the ring holds a complete
  packet the scan finds nothing that stops it.\<close>

lemma segments_all_eop:
  assumes "c < WZ_DMA_NOFBUFS" and "\<And>i. i < WZ_DMA_NOFBUFS \<Longrightarrow> has_eop (res i)"
  shows "segments res c (path c n) =
    (map (\<lambda>i. \<lparr>first_desc = of_nat i, last_desc = of_nat i, last_len = res_length (res i)\<rparr>) (path c n), (wz_next ^^ n) c)"
  using assms(1)
proof (induction n arbitrary: c)
  case (Suc n)
  then show ?case using Suc.IH[OF wzr.nxt_less[OF Suc.prems]] assms(2)[OF Suc.prems] by (simp add: funpow_swap1)
qed simp

lemma path_range: "c < WZ_DMA_NOFBUFS \<Longrightarrow> i \<in> set (path c n) \<Longrightarrow> i < WZ_DMA_NOFBUFS"
  by (auto simp: path_mod wzr.N_pos)



end
