(* ===== verification/Wz_Safety.thy ===== *)
theory Wz_Safety
  imports Wz_Stream
begin

text \<open>
  A started stream cannot be crashed from outside. The device may write anything into the memory of
  the descriptors at any time, registers, kernel calls and user memory may return anything; what the
  driver keeps to itself stays well-formed, and no interrupt, get or confirmation inside the ring brings
  the kernel down.
\<close>

section \<open>What the environment may do\<close>

text \<open>A well-formed stream: the typing of its extension and the queue it was started with.\<close>

definition stream_ok :: "xdma_engine \<times> world \<Rightarrow> bool" where
  "stream_ok s \<longleftrightarrow> (case s of (e, w) \<Rightarrow> magic e = MAGIC_ENGINE \<and> wz_wf (wz_ext e) w \<and>
     (transfer_list e = [] \<or> transfer_list e = [wz_transfer (wz_ext e)]))"

text \<open>The steps: the environment changes everything but the set of live descriptors, an interrupt is
  serviced, a reader gets or confirms a block. A reader that finds nothing sleeps; \<open>s\<close> then is the state in
  which it is woken.\<close>

inductive stream_step :: "xdma_engine \<times> world \<Rightarrow> xdma_engine \<times> world \<Rightarrow> bool" where
  Environment: "dom (dmem w') = dom (dmem w) \<Longrightarrow> stream_step (e, w) (e, w')"
| Interrupt: "wz_engine_service_cyclic_interrupt e w = Some (Some (rc, e', w')) \<Longrightarrow> stream_step (e, w) (e', w')"
| Get: "ioctl_do_wz_getbuf sleep e arg w = Some (rc, e', w') \<Longrightarrow> getbuf_ready e \<Longrightarrow> stream_step (e, w) (e', w')"
| Confirm: "ioctl_do_wz_confirm e arg w = Some (Some (rc, w')) \<Longrightarrow> stream_step (e, w) (e, w')"

inductive_cases stream_stepE: "stream_step (e, w) s"

section \<open>Preservation\<close>

lemma wz_scan_safe:
  assumes "wz_scan c ext w = Some r" and "wz_wf ext w" and "c < WZ_DMA_NOFBUFS"
  shows "\<exists>ext' w'. r = Some (ext', w') \<and> wz_wf ext' w' \<and> wz_transfer ext' = wz_transfer ext"
  using assms
proof (induction rule: wz_scan_induct)
  case (stop c x v)
  then show ?case by (simp add: wz_wf_def)
qed auto

lemma interrupt_safe:
  assumes "stream_ok (e, w)" and "wz_engine_service_cyclic_interrupt e w = Some r"
  shows "\<exists>rc e' w'. r = Some (rc, e', w') \<and> stream_ok (e', w')"
proof -
  let ?x = "wz_ext e" and ?v = "hw w (io w) (regs e + er R_status_rc)"
  have ok: "magic e = MAGIC_ENGINE" "wz_wf ?x w" "transfer_list e = [] \<or> transfer_list e = [wz_transfer ?x]"
    "block_scanned_desc ?x < WZ_DMA_NOFBUFS" using assms(1) by (auto simp: stream_ok_def wz_wf_def)
  obtain q where s: "wz_scan (block_scanned_desc ?x) ?x (emit (Rd (regs e + er R_status_rc) ?v) w) = Some q"
    using assms(2) ok(1)
    by (auto simp: wz_engine_service_cyclic_interrupt_def engine_status_read_def read_register_def Let_def split: option.splits)
  from wz_scan_safe[OF s _ ok(4)] ok(2) obtain x' w' where q: "q = Some (x', w')" "wz_wf x' w'" "wz_transfer x' = wz_transfer ?x"
    by auto
  show ?thesis
    using assms(2) ok(1,3) s q
    by (auto simp: wz_engine_service_cyclic_interrupt_def engine_status_read_def read_register_def Let_def stream_ok_def
        wz_engine_transfer_dequeue_def engine_service_shutdown_def xdma_engine_stop_def write_register_def call_void_def
        split: if_splits)
qed

lemma getbuf_safe:
  assumes "stream_ok (e, w)" and "getbuf_ready e"
  shows "\<exists>rc e' w'. ioctl_do_wz_getbuf sleep e arg w = Some (rc, e', w') \<and> stream_ok (e', w')"
proof (cases "running e")
  case True
  with assms(2) obtain b bs where "kfifo (wz_ext e) = Some (b # bs)"
    by (auto simp: getbuf_ready_def neq_Nil_conv split: option.splits)
  with assms True show ?thesis by (auto simp: ioctl_do_wz_getbuf_def call_int_def Let_def stream_ok_def wz_wf_def)
next
  case False
  with assms show ?thesis by (simp add: ioctl_do_wz_getbuf_def)
qed

lemma confirm_safe:
  assumes "stream_ok (e, w)"
  shows "ioctl_do_wz_confirm e arg w = Some (Some (rc, w')) \<Longrightarrow> stream_ok (e, w')"
    and "(\<And>l. unat (usr w l arg) < WZ_DMA_NOFBUFS) \<Longrightarrow> (\<And>l. unat (usr w l (arg + 4)) < WZ_DMA_NOFBUFS) \<Longrightarrow>
      \<exists>rc w'. ioctl_do_wz_confirm e arg w = Some (Some (rc, w'))"
proof -
  define r where "r = kint w (io w) (C_copy_from_user arg 8)"
  let ?w = "emit (KI (C_copy_from_user arg 8) r) w"
  define f l where "f = unat (usr w (io ?w) arg)" and "l = unat (usr w (io ?w) (arg + 4))"
  have wf: "wz_wf (wz_ext e) ?w" using assms by (simp add: stream_ok_def)
  have run: "ioctl_do_wz_confirm e arg w = (if r \<noteq> 0 then Some (Some (- EINVAL, ?w))
      else map_option (map_option (\<lambda>w. (0, w))) (wz_confirm_loop f l (wz_ext e) ?w))"
    by (simp add: ioctl_do_wz_confirm_def call_int_def r_def f_def l_def Let_def)
  have restore: "wz_restore_one f (wz_ext e) ?w = None" if "\<not> f < WZ_DMA_NOFBUFS"
    using that wf by (simp add: wz_restore_one_def wz_wf_def)
  have inside: "\<exists>v. wz_confirm_loop f l (wz_ext e) ?w = Some (Some v) \<and> wz_wf (wz_ext e) v" if "f < WZ_DMA_NOFBUFS" "l < WZ_DMA_NOFBUFS"
    using wz_confirm_loop_restores[OF that wf] by blast
  show "stream_ok (e, w')" if "ioctl_do_wz_confirm e arg w = Some (Some (rc, w'))"
  proof (cases "r = 0")
    case False
    with run that assms show ?thesis by (auto simp: stream_ok_def)
  next
    case True
    with run that have loop: "wz_confirm_loop f l (wz_ext e) ?w = Some (Some w')"
      by (cases "wz_confirm_loop f l (wz_ext e) ?w") (auto simp: map_option_case split: option.splits)
    have "f < WZ_DMA_NOFBUFS"
    proof (rule ccontr)
      assume "\<not> f < WZ_DMA_NOFBUFS"
      with loop restore show False by (subst (asm) wz_confirm_loop.simps) simp
    qed
    moreover from this loop have "l < WZ_DMA_NOFBUFS" using wz_confirm_diverges[OF _ _ wf, of f l] by (cases "l < WZ_DMA_NOFBUFS") auto
    ultimately show ?thesis using inside loop assms by (auto simp: stream_ok_def)
  qed
  show "\<exists>rc w'. ioctl_do_wz_confirm e arg w = Some (Some (rc, w'))"
    if "\<And>l. unat (usr w l arg) < WZ_DMA_NOFBUFS" "\<And>l. unat (usr w l (arg + 4)) < WZ_DMA_NOFBUFS"
    using run inside[unfolded f_def l_def, OF that] by (auto simp: f_def l_def)
qed

lemma stream_step_ok: "stream_step s s' \<Longrightarrow> stream_ok s \<Longrightarrow> stream_ok s'"
proof (induction rule: stream_step.induct)
  case (Environment w' w e)
  then show ?case by (auto simp: stream_ok_def wz_wf_def dom_def)
next
  case (Interrupt e w rc e' w')
  with interrupt_safe show ?case by fastforce
next
  case (Get sleep e arg w rc e' w')
  with getbuf_safe[of e w sleep arg] show ?case by auto
next
  case (Confirm e arg w rc w')
  with confirm_safe(1) show ?case by blast
qed

lemma stream_steps_ok: "stream_step\<^sup>*\<^sup>* s s' \<Longrightarrow> stream_ok s \<Longrightarrow> stream_ok s'"
  by (induction rule: rtranclp_induct) (auto intro: stream_step_ok)

section \<open>Properties\<close>

lemma wz_start_ok:
  assumes "wz_startable e" and "dalloc_fresh (dalloc w)"
    and "\<And>m l. card (dom m) < card (dom (dmem w)) + WZ_DMA_NOFBUFS \<Longrightarrow> dalloc w m l 1 \<noteq> None"
    and "\<And>m l. xalloc w m l \<noteq> 0" and "magic e = MAGIC_ENGINE"
  shows "\<exists>e1 w1. ioctl_do_wz_start e w = Some (0, e1, w1) \<and> stream_ok (e1, w1)"
proof -
  from wz_start_run[OF assms(1-4)] obtain e1 w1 where s: "ioctl_do_wz_start e w = Some (0, e1, w1)"
    "wz_ring WZ_DMA_NOFBUFS (wz_ext e1) w1" "kfifo (wz_ext e1) = kfifo (wz_ext e)" "block_first_desc (wz_ext e1) = 0"
    "block_scanned_desc (wz_ext e1) = 0" "magic e1 = magic e" "transfer_list e1 = [wz_transfer (wz_ext e1)]" by blast
  have "kfifo (wz_ext e1) \<noteq> None" using s(3) assms(1) by (simp add: wz_startable_def)
  from wz_ring_wf(1)[OF s(2) this s(4,5)] s assms(5) show ?thesis by (simp add: stream_ok_def)
qed

text \<open>C2. A started stream is type safe. After a successful start, whatever the device writes into the
  descriptors, whatever registers, kernel calls and user memory return, and in whatever order interrupts,
  gets and confirmations happen: every state that is reached is well-formed, and in every such state
  the interrupt service does not crash (it may only fail to return), a reader that is woken gets an
  answer, and a confirmation of positions inside the ring returns.\<close>

theorem wz_stream_type_safe:
  assumes "wz_startable e" and "dalloc_fresh (dalloc w)"
    and "\<And>m l. card (dom m) < card (dom (dmem w)) + WZ_DMA_NOFBUFS \<Longrightarrow> dalloc w m l 1 \<noteq> None"
    and "\<And>m l. xalloc w m l \<noteq> 0" and "magic e = MAGIC_ENGINE"
  shows "\<exists>e1 w1. ioctl_do_wz_start e w = Some (0, e1, w1) \<and>
    (\<forall>e2 w2. stream_step\<^sup>*\<^sup>* (e1, w1) (e2, w2) \<longrightarrow> stream_ok (e2, w2) \<and>
       wz_engine_service_cyclic_interrupt e2 w2 \<noteq> Some None \<and>
       (getbuf_ready e2 \<longrightarrow> ioctl_do_wz_getbuf sleep e2 arg w2 \<noteq> None) \<and>
       ((\<forall>l. unat (usr w2 l arg) < WZ_DMA_NOFBUFS \<and> unat (usr w2 l (arg + 4)) < WZ_DMA_NOFBUFS) \<longrightarrow>
          (\<exists>rc w3. ioctl_do_wz_confirm e2 arg w2 = Some (Some (rc, w3)))))"
proof -
  from wz_start_ok[OF assms] obtain e1 w1 where s: "ioctl_do_wz_start e w = Some (0, e1, w1)" "stream_ok (e1, w1)" by blast
  have "stream_ok (e2, w2) \<and> wz_engine_service_cyclic_interrupt e2 w2 \<noteq> Some None \<and>
       (getbuf_ready e2 \<longrightarrow> ioctl_do_wz_getbuf sleep e2 arg w2 \<noteq> None) \<and>
       ((\<forall>l. unat (usr w2 l arg) < WZ_DMA_NOFBUFS \<and> unat (usr w2 l (arg + 4)) < WZ_DMA_NOFBUFS) \<longrightarrow>
          (\<exists>rc w3. ioctl_do_wz_confirm e2 arg w2 = Some (Some (rc, w3))))"
    if "stream_step\<^sup>*\<^sup>* (e1, w1) (e2, w2)" for e2 w2
  proof (intro conjI impI)
    show ok: "stream_ok (e2, w2)" using stream_steps_ok[OF that s(2)] .
    show "wz_engine_service_cyclic_interrupt e2 w2 \<noteq> Some None" using interrupt_safe[OF ok] by blast
    show "ioctl_do_wz_getbuf sleep e2 arg w2 \<noteq> None" if "getbuf_ready e2" using getbuf_safe[OF ok that] by fastforce
    show "\<exists>rc w3. ioctl_do_wz_confirm e2 arg w2 = Some (Some (rc, w3))"
      if "\<forall>l. unat (usr w2 l arg) < WZ_DMA_NOFBUFS \<and> unat (usr w2 l (arg + 4)) < WZ_DMA_NOFBUFS"
      using confirm_safe(2)[OF ok] that by blast
  qed
  with s(1) show ?thesis by blast
qed

theorem wz_stream_type_safe_witness:
  "\<exists>e1 w1. ioctl_do_wz_start (zero_engine\<lparr>magic := MAGIC_ENGINE, wz_ext := zero_ext\<lparr>buf_ready := True, buf_dma_t := map of_nat [5000..<5128],
       desc_copy := Some (1, replicate 128 zero_desc), kfifo := Some []\<rparr>\<rparr>) (quiet_world\<lparr>dalloc := first_fit 128, xalloc := \<lambda>_ _. 64\<rparr>)
     = Some (0, e1, w1) \<and>
     wz_engine_service_cyclic_interrupt e1 (w1\<lparr>dmem := \<lambda>p. map_option (\<lambda>_. zero_desc\<lparr>control := 0x52B40001\<rparr>) (dmem w1 p)\<rparr>) \<noteq> Some None"
proof -
  let ?e = "zero_engine\<lparr>magic := MAGIC_ENGINE, wz_ext := zero_ext\<lparr>buf_ready := True, buf_dma_t := map of_nat [5000..<5128],
       desc_copy := Some (1, replicate 128 zero_desc), kfifo := Some []\<rparr>\<rparr>"
  let ?w = "quiet_world\<lparr>dalloc := first_fit 128, xalloc := \<lambda>_ _. 64\<rparr>"
  have st: "wz_startable ?e" by (simp add: wz_startable_def zero_engine_def zero_ext_def WZ_DMA_NOFBUFS_def)
  have al: "dalloc ?w m l 1 \<noteq> None" if "card (dom m) < card (dom (dmem ?w)) + WZ_DMA_NOFBUFS" for m l
    using first_fit_succeeds[of m 128 l] that by (simp add: WZ_DMA_NOFBUFS_def)
  from wz_stream_type_safe[OF st _ al, of id 0] obtain e1 w1 where s: "ioctl_do_wz_start ?e ?w = Some (0, e1, w1)"
    and r: "\<And>e2 w2. stream_step\<^sup>*\<^sup>* (e1, w1) (e2, w2) \<Longrightarrow> wz_engine_service_cyclic_interrupt e2 w2 \<noteq> Some None"
    using first_fit_fresh[of 128] by auto
  have "stream_step (e1, w1) (e1, w1\<lparr>dmem := \<lambda>p. map_option (\<lambda>_. zero_desc\<lparr>control := 0x52B40001\<rparr>) (dmem w1 p)\<rparr>)"
    by (rule stream_step.Environment) (auto simp: dom_def)
  from r[OF r_into_rtranclp[of stream_step, OF this]] s show ?thesis by blast
qed

end
