(* ===== verification/Wz_Tester.thy ===== *)
theory Wz_Tester
  imports Wz_Stream
begin

text \<open>
  The programs that use a WZ stream, \<^verbatim>\<open>tester2.c\<close> and \<^verbatim>\<open>tester3.c\<close>, and the driver and its user together. A program
  sees the kernel through its system calls: \<open>sys\<close> is the kernel as a function of the call and a state, \<open>bd\<close>
  the structure \<^verbatim>\<open>bdesc\<close> the last \<^verbatim>\<open>GETBUF\<close> filled, and \<open>buf\<close> the mapped buffers, read a 32-bit word at a time.
  Both are arguments of the programs; the driver's model is one instance of them. Time and throughput, which the
  programs measure for their messages only, are left out.
\<close>

section \<open>The calls of the programs\<close>

datatype sysc =
    Sopen string | Smmap string nat | Smunmap nat | Sclose string
  | Salloc | Sstart | Sgetbuf | Sconfirm u32 u32 | Sstop | Sfree
  | Stouch nat | Sreg nat u32 | Swrite nat nat | Susleep nat

definition TOT_BUF_LEN :: nat where "TOT_BUF_LEN = WZ_DMA_BUFLEN * WZ_DMA_NOFBUFS"
definition PACKET_LEN :: nat where "PACKET_LEN = 0x4000"

text \<open>The header of the data, at byte \<open>i\<close> of the buffers.\<close>

definition get_step :: "(nat \<Rightarrow> u32) \<Rightarrow> nat \<Rightarrow> u32" where
  "get_step buf i = drop_bit 8 (buf i) AND 0xf"

definition get_init :: "(nat \<Rightarrow> u32) \<Rightarrow> nat \<Rightarrow> u32" where
  "get_init buf i = buf i AND 0xff"

definition get_len :: "(nat \<Rightarrow> u32) \<Rightarrow> nat \<Rightarrow> u32" where
  "get_len buf i = buf (i + 4)"

text \<open>The length of a block: the difference of the descriptor numbers is taken in 32 bits and reduced in 64.\<close>

definition cur_len :: "block_desc \<Rightarrow> int" where
  "cur_len d = int WZ_DMA_BUFLEN * (uint (last_desc d - first_desc d) mod int WZ_DMA_NOFBUFS) + uint (last_len d)"

record tester =
  first_block :: bool
  tot_len :: int
  bad_lengths :: "(u32 \<times> int \<times> int) list"   \<comment> \<open>buffer, expected and received length\<close>
  errors :: "(nat \<times> nat \<times> u32 \<times> u32) list"   \<comment> \<open>byte index, position, expected and received word\<close>

definition tester_start :: tester where
  "tester_start = \<lparr>first_block = True, tot_len = 0, bad_lengths = [], errors = []\<rparr>"

section \<open>tester2\<close>

definition start_source2 :: "(sysc \<Rightarrow> 's \<Rightarrow> int \<times> 's) \<Rightarrow> 's \<Rightarrow> 's" where
  "start_source2 sys s = snd (sys (Sreg (0x10000 div 4) 1) s)"

definition stop_source2 :: "(sysc \<Rightarrow> 's \<Rightarrow> int \<times> 's) \<Rightarrow> 's \<Rightarrow> 's" where
  "stop_source2 sys s = snd (sys (Sreg (0x10000 div 4) 0) s)"

text \<open>The two nested loops that check the data of a block.\<close>

definition check_payload :: "(nat \<Rightarrow> u32) \<Rightarrow> nat \<Rightarrow> u32 \<Rightarrow> (nat \<times> nat \<times> u32 \<times> u32) list" where
  "check_payload buf idx dinit = concat (map (\<lambda>j. let dta = buf (idx + 4 * j) in
     if dta \<noteq> dinit + of_nat j then [(idx, j, dinit + of_nat j, dta)] else []) [0..<8])"

function check_data :: "(nat \<Rightarrow> u32) \<Rightarrow> int \<Rightarrow> int \<Rightarrow> nat \<Rightarrow> u32 \<Rightarrow> u32 \<Rightarrow> (nat \<times> nat \<times> u32 \<times> u32) list" where
  "check_data buf i dlen idx dinit dstep =
    (if i < dlen then
       let idx = (idx + 32) AND (TOT_BUF_LEN - 1)
       in check_payload buf idx dinit @ check_data buf (i + 32) dlen idx (dinit + dstep) dstep
     else [])"
  by pat_completeness auto
termination by (relation "measure (\<lambda>(_, i, dlen, _). nat (dlen - i))") auto

declare check_data.simps [simp del]

text \<open>One round of the loop: \<open>Inl\<close> the exit code, \<open>Inr\<close> the state to go on with.\<close>

definition tester2_round ::
  "(sysc \<Rightarrow> 's \<Rightarrow> int \<times> 's) \<Rightarrow> ('s \<Rightarrow> block_desc) \<Rightarrow> ('s \<Rightarrow> nat \<Rightarrow> u32) \<Rightarrow> tester \<Rightarrow> 's \<Rightarrow> (int \<times> 's) + (tester \<times> 's)" where
  "tester2_round sys bd buf t s = (case sys Sgetbuf s of (res, s) \<Rightarrow>
     if res < 0 then Inl (4, s)
     else let d = bd s;
              dta_index = WZ_DMA_BUFLEN * unat (first_desc d);
              n = (if first_block t then 0 else cur_len d);
              dlen = get_len (buf s) dta_index;
              exp_len = sint (dlen * 32);
              bad = (if first_block t \<or> n = exp_len then [] else [(first_desc d, exp_len, n)]);
              errs = (if first_block t then []
                      else check_data (buf s) 0 (sint dlen) dta_index (get_init (buf s) dta_index) (get_step (buf s) dta_index));
              t = \<lparr>first_block = False, tot_len = tot_len t + n, bad_lengths = bad_lengths t @ bad, errors = errors t @ errs\<rparr>
          in (case sys (Sconfirm (first_desc d) (last_desc d)) s of (res, s) \<Rightarrow>
                if res < 0 then Inl (4, s) else Inr (t, s)))"

text \<open>The loop ends only with an error; the outer \<open>None\<close> is running for ever.\<close>

partial_function (option) tester2_loop ::
  "(sysc \<Rightarrow> 's \<Rightarrow> int \<times> 's) \<Rightarrow> ('s \<Rightarrow> block_desc) \<Rightarrow> ('s \<Rightarrow> nat \<Rightarrow> u32) \<Rightarrow> tester \<Rightarrow> 's \<Rightarrow> (int \<times> 's) option" where
  "tester2_loop sys bd buf t s = (case tester2_round sys bd buf t s of
     Inl r \<Rightarrow> Some r | Inr (t, s) \<Rightarrow> tester2_loop sys bd buf t s)"

text \<open>The calls both programs make first, each with the exit code of its failure.\<close>

fun first_failure :: "(sysc \<Rightarrow> 's \<Rightarrow> int \<times> 's) \<Rightarrow> (sysc \<times> int) list \<Rightarrow> 's \<Rightarrow> int option \<times> 's" where
  "first_failure sys [] s = (None, s)"
| "first_failure sys ((c, code) # cs) s = (case sys c s of (res, s) \<Rightarrow>
     if res < 0 then (Some code, s) else first_failure sys cs s)"

definition map_calls :: "(sysc \<times> int) list" where
  "map_calls = [(Sopen ''/dev/wz-xdma0_user'', 1), (Sopen ''/dev/wz-xdma0_control'', 1), (Sopen ''/dev/wz-xdma0_c2h_0'', 1),
     (Salloc, 3), (Smmap ''fu'' (1024 * 1024), 2), (Smmap ''fm'' TOT_BUF_LEN, 2)]"

text \<open>The bytes the programs read so that all pages are mapped before the acquisition starts. A read may
  fault a page in and is a call for that reason.\<close>

definition touched :: "nat list" where
  "touched = [0..<TOT_BUF_LEN div 8]"

definition touch_pages :: "(sysc \<Rightarrow> 's \<Rightarrow> int \<times> 's) \<Rightarrow> 's \<Rightarrow> 's" where
  "touch_pages sys s = fold (\<lambda>i s. snd (sys (Stouch i) s)) touched s"

definition tester2_main ::
  "(sysc \<Rightarrow> 's \<Rightarrow> int \<times> 's) \<Rightarrow> ('s \<Rightarrow> block_desc) \<Rightarrow> ('s \<Rightarrow> nat \<Rightarrow> u32) \<Rightarrow> 's \<Rightarrow> (int \<times> 's) option" where
  "tester2_main sys bd buf s = (case first_failure sys map_calls s of
     (Some code, s) \<Rightarrow> Some (code, s)
   | (None, s) \<Rightarrow> let s = stop_source2 sys (touch_pages sys s) in
      (case sys Sstart s of (res, s) \<Rightarrow>
         if res < 0 then Some (3, s)
         else tester2_loop sys bd buf tester_start (start_source2 sys s)))"

section \<open>tester3\<close>

definition start_source3 :: "(sysc \<Rightarrow> 's \<Rightarrow> int \<times> 's) \<Rightarrow> 's \<Rightarrow> 's" where
  "start_source3 sys s = snd (sys (Sreg 0xf 0xf) s)"

definition stop_source3 :: "(sysc \<Rightarrow> 's \<Rightarrow> int \<times> 's) \<Rightarrow> 's \<Rightarrow> 's" where
  "stop_source3 sys s = snd (sys (Sreg 0xf 0) s)"

definition reset_fifo :: "(sysc \<Rightarrow> 's \<Rightarrow> int \<times> 's) \<Rightarrow> 's \<Rightarrow> 's" where
  "reset_fifo sys s =
    (let s = snd (sys (Sreg 0xf 0xf0) s); s = snd (sys (Susleep 500) s); s = snd (sys (Sreg 0xf 0) s)
     in snd (sys (Susleep 500) s))"

definition tester3_round ::
  "(sysc \<Rightarrow> 's \<Rightarrow> int \<times> 's) \<Rightarrow> ('s \<Rightarrow> block_desc) \<Rightarrow> tester \<Rightarrow> 's \<Rightarrow> (int \<times> 's) + (tester \<times> 's)" where
  "tester3_round sys bd t s = (case sys Sgetbuf s of (res, s) \<Rightarrow>
     if res < 0 then Inl (4, s)
     else let d = bd s;
              n = (if first_block t then 0 else cur_len d);
              t = t\<lparr>first_block := False, tot_len := tot_len t + n\<rparr>
          in (case sys (Sconfirm (first_desc d) (last_desc d)) s of (res, s) \<Rightarrow>
                if res < 0 then Inl (4, s) else Inr (t, s)))"

fun tester3_loop ::
  "(sysc \<Rightarrow> 's \<Rightarrow> int \<times> 's) \<Rightarrow> ('s \<Rightarrow> block_desc) \<Rightarrow> nat \<Rightarrow> tester \<Rightarrow> 's \<Rightarrow> (int \<times> 's) + (tester \<times> 's)" where
  "tester3_loop sys bd 0 t s = Inr (t, s)"
| "tester3_loop sys bd (Suc n) t s = (case tester3_round sys bd t s of
     Inl r \<Rightarrow> Inl r | Inr (t, s) \<Rightarrow> tester3_loop sys bd n t s)"

definition tester3_end :: "(sysc \<Rightarrow> 's \<Rightarrow> int \<times> 's) \<Rightarrow> 's \<Rightarrow> 's" where
  "tester3_end sys s = fold (\<lambda>c s. snd (sys c s))
     [Sstop, Susleep 5000, Swrite 0 PACKET_LEN, Swrite WZ_DMA_BUFLEN PACKET_LEN, Smunmap TOT_BUF_LEN, Sfree,
      Sclose ''data/data.hex'', Sclose ''fm'', Sclose ''fc'', Sclose ''fu''] (stop_source3 sys s)"

definition tester3_main ::
  "(sysc \<Rightarrow> 's \<Rightarrow> int \<times> 's) \<Rightarrow> ('s \<Rightarrow> block_desc) \<Rightarrow> 's \<Rightarrow> int \<times> 's" where
  "tester3_main sys bd s = (case first_failure sys ((Sopen ''data/data.hex'', 134) # map_calls) s of
     (Some code, s) \<Rightarrow> (code, s)
   | (None, s) \<Rightarrow> let s = reset_fifo sys (stop_source3 sys (touch_pages sys s)) in
      (case sys Sstart s of (res, s) \<Rightarrow>
         if res < 0 then (3, s)
         else (case tester3_loop sys bd 4000 tester_start (start_source3 sys s) of
             Inl r \<Rightarrow> r
           | Inr (t, s) \<Rightarrow> (0, tester3_end sys s))))"

section \<open>The length of a block\<close>

lemma cur_len_block:
  assumes "f < WZ_DMA_NOFBUFS" and "k < WZ_DMA_NOFBUFS"
  shows "cur_len \<lparr>first_desc = of_nat f, last_desc = of_nat ((f + k) mod WZ_DMA_NOFBUFS), last_len = n\<rparr> =
    int WZ_DMA_BUFLEN * int k + uint n"
proof -
  let ?N = WZ_DMA_NOFBUFS and ?l = "(f + k) mod WZ_DMA_NOFBUFS"
  have u: "uint (of_nat i :: u32) = int i" if "i < ?N" for i
    using that by (simp add: uint_nat WZ_DMA_NOFBUFS_def)
  have l: "?l < ?N" by (simp add: wzr.N_pos)
  have d: "int ?N dvd 2 ^ 32" by (simp add: WZ_DMA_NOFBUFS_def)
  have "uint (of_nat ?l - of_nat f :: u32) = (int ?l - int f) mod 2 ^ 32"
    using u[OF l] u[OF assms(1)] by (simp add: uint_word_ariths(2))
  then have "uint (of_nat ?l - of_nat f :: u32) mod int ?N = (int ?l - int f) mod int ?N"
    using d by (simp add: mod_mod_cancel)
  also have "\<dots> = (int (f + k) - int f) mod int ?N" unfolding of_nat_mod by (simp only: mod_diff_left_eq)
  also have "\<dots> = int k" using assms(2) by simp
  finally show ?thesis by (simp add: cur_len_def)
qed

lemma describe_cur_len:
  assumes "f < WZ_DMA_NOFBUFS" and "b \<noteq> []" and "length b \<le> WZ_DMA_NOFBUFS"
  shows "cur_len \<lparr>first_desc = of_nat f, last_desc = of_nat ((f + length b - 1) mod WZ_DMA_NOFBUFS), last_len = n\<rparr> =
    int WZ_DMA_BUFLEN * int (length b - 1) + uint n"
proof -
  have "f + length b - 1 = f + (length b - 1)" "length b - 1 < WZ_DMA_NOFBUFS" using assms(2,3) by (cases b; simp)+
  with cur_len_block[OF assms(1), of "length b - 1"] show ?thesis by simp
qed

section \<open>The data check of tester2\<close>

lemma TOT_mask: "(i :: nat) AND (TOT_BUF_LEN - 1) = i mod TOT_BUF_LEN"
proof -
  have "i AND mask 29 = i mod 2 ^ 29" by (simp only: take_bit_eq_mask[symmetric] take_bit_eq_mod)
  then show ?thesis by (simp add: TOT_BUF_LEN_def WZ_DMA_BUFLEN_def WZ_DMA_NOFBUFS_def mask_eq_exp_minus_1)
qed

lemma check_data_payloads:
  assumes "idx mod TOT_BUF_LEN = k0 mod TOT_BUF_LEN"
  shows "check_data buf i dlen idx dinit dstep =
    concat (map (\<lambda>k. check_payload buf ((k0 + 32 * Suc k) mod TOT_BUF_LEN) (dinit + of_nat k * dstep)) [0..<nat ((dlen - i + 31) div 32)])"
  using assms
proof (induction buf i dlen idx dinit dstep arbitrary: k0 rule: check_data.induct)
  case (1 buf i dlen idx dinit dstep)
  show ?case
  proof (cases "i < dlen")
    case False
    then have "nat ((dlen - i + 31) div 32) = 0" by simp
    with False show ?thesis by (subst check_data.simps) simp
  next
    case True
    let ?idx = "(idx + 32) mod TOT_BUF_LEN"
    have n: "nat ((dlen - i + 31) div 32) = Suc (nat ((dlen - (i + 32) + 31) div 32))" using True by linarith
    have i: "?idx = (k0 + 32) mod TOT_BUF_LEN" using 1(2) by (metis mod_add_left_eq)
    have "check_data buf (i + 32) dlen ?idx (dinit + dstep) dstep =
      concat (map (\<lambda>k. check_payload buf ((k0 + 32 + 32 * Suc k) mod TOT_BUF_LEN) (dinit + dstep + of_nat k * dstep)) [0..<nat ((dlen - (i + 32) + 31) div 32)])"
      by (rule 1(1)[OF True TOT_mask[symmetric], of "k0 + 32"]) (simp add: i)
    moreover have "check_data buf i dlen idx dinit dstep = check_payload buf ?idx dinit @ check_data buf (i + 32) dlen ?idx (dinit + dstep) dstep"
      using True TOT_mask[of "idx + 32"] by (subst check_data.simps) (simp add: Let_def)
    ultimately show ?thesis
      unfolding n i by (simp add: upt_conv_Cons map_Suc_upt[symmetric] comp_def algebra_simps del: upt_Suc)
  qed
qed

section \<open>A program and a source of blocks\<close>

text \<open>What a program that reads a stream relies on: as long as blocks wait, a get returns the first of them, and the
  oldest block that is held can be confirmed.\<close>

locale block_source =
  fixes sys :: "sysc \<Rightarrow> 's \<Rightarrow> int \<times> 's" and bd :: "'s \<Rightarrow> block_desc"
    and ok :: "'s \<Rightarrow> bool" and waiting held_blocks :: "'s \<Rightarrow> block_desc list"
  assumes get: "ok s \<Longrightarrow> waiting s = d # ds \<Longrightarrow> \<exists>s'. sys Sgetbuf s = (0, s') \<and> bd s' = d \<and> ok s' \<and>
      waiting s' = ds \<and> held_blocks s' = held_blocks s @ [d]"
    and confirm: "ok s \<Longrightarrow> held_blocks s = d # hs \<Longrightarrow> \<exists>s'. sys (Sconfirm (first_desc d) (last_desc d)) s = (0, s') \<and> ok s' \<and>
      waiting s' = waiting s \<and> held_blocks s' = hs"
begin

lemma round3:
  assumes "ok s" and "waiting s = d # ds" and "held_blocks s = []"
  shows "\<exists>s'. tester3_round sys bd t s = Inr (t\<lparr>first_block := False, tot_len := tot_len t + (if first_block t then 0 else cur_len d)\<rparr>, s') \<and>
    ok s' \<and> waiting s' = ds \<and> held_blocks s' = []"
proof -
  from get[OF assms(1,2)] obtain s1 where s1: "sys Sgetbuf s = (0, s1)" "bd s1 = d" "ok s1" "waiting s1 = ds" "held_blocks s1 = [d]"
    using assms(3) by auto
  from confirm[OF s1(3,5)] s1 show ?thesis by (auto simp: tester3_round_def Let_def)
qed

lemma loop3:
  assumes "ok s" and "n \<le> length (waiting s)" and "held_blocks s = []" and "0 < n"
  shows "\<exists>s'. tester3_loop sys bd n t s = Inr (t\<lparr>first_block := False, tot_len := tot_len t +
        sum_list (map cur_len (drop (if first_block t then 1 else 0) (take n (waiting s))))\<rparr>, s') \<and>
    ok s' \<and> waiting s' = drop n (waiting s) \<and> held_blocks s' = []"
  using assms
proof (induction n arbitrary: t s)
  case 0
  then show ?case by simp
next
  case (Suc n)
  then obtain d ds where w: "waiting s = d # ds" by (cases "waiting s") auto
  let ?t = "t\<lparr>first_block := False, tot_len := tot_len t + (if first_block t then 0 else cur_len d)\<rparr>"
  from round3[OF Suc.prems(1) w Suc.prems(3), of t] obtain s1 where
    s1: "tester3_round sys bd t s = Inr (?t, s1)" "ok s1" "waiting s1 = ds" "held_blocks s1 = []"
    by auto
  show ?case
  proof (cases "n = 0")
    case True
    with s1 w show ?thesis by auto
  next
    case False
    with Suc.IH[OF s1(2) _ s1(4), of ?t] Suc.prems w s1(1,3) show ?thesis by (auto simp: add.assoc)
  qed
qed

end

text \<open>The driver as a kernel for the programs. The state is that of the driver, together with the stream it
  stands for; the block is what the driver copied to the user last.\<close>

fun copied :: "io list \<Rightarrow> block_desc" where
  "copied l = (case rev l of KI (C_copy_to_user _ [f, b, n]) _ # _ \<Rightarrow> \<lparr>first_desc = f, last_desc = b, last_len = n\<rparr>
     | _ \<Rightarrow> \<lparr>first_desc = 0, last_desc = 0, last_len = 0\<rparr>)"

definition drv_bd :: "(xdma_engine \<times> world) \<times> stream \<Rightarrow> block_desc" where
  "drv_bd s = copied (io (snd (fst s)))"

fun drv_sys :: "(xdma_engine \<times> world \<Rightarrow> xdma_engine \<times> world) \<Rightarrow> u64 \<Rightarrow> sysc \<Rightarrow> (xdma_engine \<times> world) \<times> stream \<Rightarrow>
    int \<times> (xdma_engine \<times> world) \<times> stream" where
  "drv_sys sleep arg Sgetbuf ((e, w), a) = (case ioctl_do_wz_getbuf sleep e arg w of
     Some (res, e, w) \<Rightarrow> (res, (e, w), (case wz_spec (Getbuf (copied (io w))) a of Some a \<Rightarrow> a | None \<Rightarrow> a))
   | None \<Rightarrow> (-1, (e, w), a))"
| "drv_sys sleep arg (Sconfirm f l) ((e, w), a) =
    (case ioctl_do_wz_confirm e arg (w\<lparr>usr := \<lambda>_ b. if b = arg then f else l\<rparr>) of
       Some (Some (res, w)) \<Rightarrow> (res, (e, w), (case a of (r, b # h, q, p, n) \<Rightarrow> ((r + length b) mod WZ_DMA_NOFBUFS, h, q, p, n) | _ \<Rightarrow> a))
     | _ \<Rightarrow> (-1, (e, w), a))"
| "drv_sys sleep arg _ s = (-1, s)"

definition drv_waiting :: "(xdma_engine \<times> world) \<times> stream \<Rightarrow> block_desc list" where
  "drv_waiting s = (case s of (_, r, h, q, p, n) \<Rightarrow> describe ((r + length (concat h)) mod WZ_DMA_NOFBUFS) q)"

definition drv_held :: "(xdma_engine \<times> world) \<times> stream \<Rightarrow> block_desc list" where
  "drv_held s = (case s of (_, r, h, q, p, n) \<Rightarrow> describe r h)"

interpretation drv: block_source "drv_sys sleep arg" drv_bd "\<lambda>s. wz_rel arg (fst s) (snd s)" drv_waiting drv_held for sleep arg
proof
  fix s :: "(xdma_engine \<times> world) \<times> stream" and d ds
  assume R: "wz_rel arg (fst s) (snd s)" and w: "drv_waiting s = d # ds"
  obtain e v r h q p n where s: "s = ((e, v), r, h, q, p, n)" by (metis prod.exhaust)
  with w obtain b bs where q: "q = b # bs" "describe ((r + length (concat h)) mod WZ_DMA_NOFBUFS) [b] = [d]"
    "ds = describe ((r + length (concat h) + length b) mod WZ_DMA_NOFBUFS) bs"
    by (cases q) (auto simp: drv_waiting_def mod_simps)
  from getbuf_step[of arg e v r h b bs p n d sleep] R s q obtain e' v' where
    g: "wz_step sleep arg (Getbuf d) (e, v) = Some (e', v')" "wz_rel arg (e', v') (r, h @ [b], bs, p, n)" by auto
  from g(1) have i: "ioctl_do_wz_getbuf sleep e arg v = Some (0, e', v')"
    "io v' = io v @ [KI (C_copy_to_user arg [first_desc d, last_desc d, last_len d]) 0]"
    by (auto simp: bind_eq_Some_conv split: if_splits)
  have c: "copied (io v') = d" by (simp add: i(2))
  have r: "r < WZ_DMA_NOFBUFS" using wz_relD(5)[OF g(2)] .
  have "drv_sys sleep arg Sgetbuf s = (0, (e', v'), r, h @ [b], bs, p, n)"
    using i(1) c q(1,2) by (simp add: s del: describe.simps)
  moreover have "describe r (h @ [b]) = describe r h @ [d]" using describe_append[OF r, of h "[b]"] q(2) by simp
  ultimately show "\<exists>s'. drv_sys sleep arg Sgetbuf s = (0, s') \<and> drv_bd s' = d \<and> wz_rel arg (fst s') (snd s') \<and>
      drv_waiting s' = ds \<and> drv_held s' = drv_held s @ [d]"
    using g(2) c q(3) s by (simp add: drv_bd_def drv_waiting_def drv_held_def ac_simps)
next
  fix s :: "(xdma_engine \<times> world) \<times> stream" and d hs
  assume R: "wz_rel arg (fst s) (snd s)" and h: "drv_held s = d # hs"
  obtain e v r h q p n where s: "s = ((e, v), r, h, q, p, n)" by (metis prod.exhaust)
  with h obtain b bs where b: "h = b # bs" "describe r [b] = [d]" "hs = describe ((r + length b) mod WZ_DMA_NOFBUFS) bs"
    by (cases h) (auto simp: drv_held_def)
  from release_step[of arg e v r b bs q p n d sleep] R s b obtain v' where
    g: "wz_step sleep arg (Release d) (e, v) = Some (e, v')" "wz_rel arg (e, v') ((r + length b) mod WZ_DMA_NOFBUFS, bs, q, p, n)" by auto
  from g(1) have i: "ioctl_do_wz_confirm e arg (v\<lparr>usr := \<lambda>_ a. if a = arg then first_desc d else last_desc d\<rparr>) = Some (Some (0, v'))"
    by (auto split: option.splits if_splits)
  have "drv_sys sleep arg (Sconfirm (first_desc d) (last_desc d)) s = (0, (e, v'), (r + length b) mod WZ_DMA_NOFBUFS, bs, q, p, n)"
    using i b(1) by (simp add: s)
  then show "\<exists>s'. drv_sys sleep arg (Sconfirm (first_desc d) (last_desc d)) s = (0, s') \<and> wz_rel arg (fst s') (snd s') \<and>
      drv_waiting s' = drv_waiting s \<and> drv_held s' = hs"
    using g(2) b s by (simp add: drv_waiting_def drv_held_def mod_simps ac_simps)
qed

section \<open>Properties\<close>

lemma take_describe: "take n (describe f q) = describe f (take n q)"
  by (induction q arbitrary: f n) (simp_all add: take_Cons split: nat.splits)

lemma sum_cur_len:
  assumes "f < WZ_DMA_NOFBUFS" and "[] \<notin> set q" and "length (concat q) < WZ_DMA_NOFBUFS"
  shows "sum_list (map cur_len (describe f q)) =
    sum_list (map (\<lambda>b. int WZ_DMA_BUFLEN * int (length b - 1) + uint (res_length (last b))) q)"
  using assms
proof (induction q arbitrary: f)
  case Nil
  then show ?case by simp
next
  case (Cons b q)
  then have b: "b \<noteq> []" "length b \<le> WZ_DMA_NOFBUFS" by auto
  have "(f + length b) mod WZ_DMA_NOFBUFS < WZ_DMA_NOFBUFS" by (simp add: wzr.N_pos)
  from Cons.IH[OF this] Cons.prems describe_cur_len[OF Cons.prems(1) b]
  show ?case by simp
qed

lemma length_concat_take: "length (concat (take n q)) \<le> length (concat q)"
  by (metis append_take_drop_id concat_append le_add1 length_append)

lemma length_concat_drop: "length (concat (drop n q)) \<le> length (concat q)"
  by (metis append_take_drop_id concat_append le_add2 length_append)

lemma demo_started: "\<exists>e w. wz_rel 0x40 (e, w) (0, [], [], [], [])"
proof -
  define e where "e = zero_engine\<lparr>magic := MAGIC_ENGINE, wz_ext := zero_ext\<lparr>buf_ready := True, buf_dma_t := map of_nat [5000..<5128],
       desc_copy := Some (1, replicate 128 zero_desc), kfifo := Some []\<rparr>\<rparr>"
  define w where "w = quiet_world\<lparr>hw := \<lambda>_ _. 1, dalloc := first_fit 128, xalloc := \<lambda>_ _. 64\<rparr>"
  have e: "wz_startable e" "magic e = MAGIC_ENGINE" "kfifo (wz_ext e) = Some []"
    by (simp_all add: e_def wz_startable_def zero_engine_def zero_ext_def WZ_DMA_NOFBUFS_def)
  have w: "dalloc_fresh (dalloc w)" "\<And>m l. xalloc w m l \<noteq> 0" "hw w = (\<lambda>_ _. 1)" "kint w = (\<lambda>_ _. 0)"
    using first_fit_fresh[of 128] by (simp_all add: w_def)
  have al: "dalloc w m l 1 \<noteq> None" if "card (dom m) < card (dom (dmem w)) + WZ_DMA_NOFBUFS" for m l
    using first_fit_succeeds[of m 128 l] that by (simp add: w_def WZ_DMA_NOFBUFS_def)
  from wz_start_run[OF e(1) w(1) al w(2)] obtain e1 :: xdma_engine and w1 :: world where s: "wz_ring WZ_DMA_NOFBUFS (wz_ext e1) w1"
    "kfifo (wz_ext e1) = kfifo (wz_ext e)" "block_first_desc (wz_ext e1) = 0" "block_scanned_desc (wz_ext e1) = 0"
    "magic e1 = magic e" "running e1" "hw w1 = hw w" "kint w1 = kint w"
    by simp blast
  have "wz_env 0x40 e1 w1" using s(7,8) w(3,4) by (simp add: wz_env_def XDMA_STAT_BUSY_def)
  from wz_started_rel[OF s(1) this _ s(6) _ s(3,4)] s(2,5) e(2,3) show ?thesis by auto
qed

lemma drop_describe:
  assumes "f < WZ_DMA_NOFBUFS" and "n \<le> length q"
  shows "drop n (describe f q) = describe ((f + length (concat (take n q))) mod WZ_DMA_NOFBUFS) (drop n q)"
  using describe_append[OF assms(1), of "take n q" "drop n q"] assms(2) by simp



text \<open>C39. The data check of \<^verbatim>\<open>tester2\<close> examines every 32-byte word it looks at, but it looks at \<open>\<lceil>dlen / 32\<rceil>\<close> of them only: the
  header gives the length in words, \<^verbatim>\<open>exp_len\<close> multiplies it by 32, and the loop advances its counter by 32 for every
  word. The words beyond are not compared.\<close>

theorem tester2_check_data_words:
  "check_data buf 0 dlen idx dinit dstep =
    concat (map (\<lambda>k. check_payload buf ((idx + 32 * Suc k) mod TOT_BUF_LEN) (dinit + of_nat k * dstep)) [0..<nat ((dlen + 31) div 32)])"
  using check_data_payloads[OF refl, of buf 0 dlen idx] by simp

text \<open>The loop that means to map all pages before the acquisition reads the bytes of the first 16 of the 128 buffers.\<close>

lemma touched_buffers: "(\<lambda>i. i div WZ_DMA_BUFLEN) ` set touched = {0..<16}"
proof (intro set_eqI iffI)
  fix b assume "b \<in> (\<lambda>i. i div WZ_DMA_BUFLEN) ` set touched"
  then show "b \<in> {0..<16}"
    by (auto simp: touched_def TOT_BUF_LEN_def WZ_DMA_BUFLEN_def WZ_DMA_NOFBUFS_def div_less_iff_less_mult)
next
  fix b assume "b \<in> {0..<16 :: nat}"
  then show "b \<in> (\<lambda>i. i div WZ_DMA_BUFLEN) ` set touched"
    by (intro image_eqI[of _ _ "b * WZ_DMA_BUFLEN"]) (auto simp: touched_def TOT_BUF_LEN_def WZ_DMA_BUFLEN_def WZ_DMA_NOFBUFS_def)
qed

end
