(* ===== verification/Test_Xdma.thy ===== *)
theory Test_Xdma
  imports Prelude
begin

text \<open>
  Two small programs beside the testers of the WZ stream: \<^verbatim>\<open>test_xdma.c\<close>, which reads a stream through the \<^verbatim>\<open>c2h\<close> node of the
  XDMA driver, and \<^verbatim>\<open>xtest1.c\<close> of the first design. A program sees the kernel through its system calls: \<open>sys\<close> answers
  a call in a state. The bytes a \<^verbatim>\<open>read\<close> delivers (\<open>bytes\<close>) and the time a clock call reports (\<open>clk\<close>) are read off
  the state after the call. Both are arguments of the programs. A failed assertion and the access to memory that was not allocated are the
  result \<open>Abort\<close>. Messages are left out.
\<close>

section \<open>Calls and results\<close>

datatype ucall =
    Uopen string | Uclose string | Ummap nat | Umunmap nat | Ucalloc nat | Umemalign nat | Ufree
  | Uread nat | Uclock | Uusleep nat | Uget nat | Uput nat u32 | Umsync

datatype uexit = Exit int | Abort

record timespec = tv_sec :: int  tv_nsec :: int

section \<open>test_xdma.c\<close>

definition timespec_sub :: "timespec \<Rightarrow> timespec \<Rightarrow> timespec option" where
  "timespec_sub t1 t2 =
    (if \<not> (tv_nsec t1 \<ge> 0 \<and> tv_nsec t1 < 1000000000 \<and> tv_nsec t2 \<ge> 0 \<and> tv_nsec t2 < 1000000000) then None
     else let t1 = t1\<lparr>tv_sec := tv_sec t1 - tv_sec t2, tv_nsec := tv_nsec t1 - tv_nsec t2\<rparr> in
       Some (if tv_nsec t1 \<ge> 1000000000 then t1\<lparr>tv_sec := tv_sec t1 + 1, tv_nsec := tv_nsec t1 - 1000000000\<rparr>
             else if tv_nsec t1 < 0 then t1\<lparr>tv_sec := tv_sec t1 - 1, tv_nsec := tv_nsec t1 + 1000000000\<rparr>
             else t1))"

text \<open>What a read of the length \<open>rc\<close> leaves in the buffer.\<close>

definition read_into :: "int \<Rightarrow> nat list \<Rightarrow> nat list \<Rightarrow> nat list" where
  "read_into rc bs buffer = take (nat rc) bs @ drop (length (take (nat rc) bs)) buffer"

text \<open>The loop of \<^verbatim>\<open>test_stream_dma\<close>: each round reads into \<open>buffer\<close>, of \<open>sz\<close> bytes, and copies all of it to the next part
  of the destination. The times are those of the last round.\<close>

fun stream_dma_loop ::
  "(ucall \<Rightarrow> 's \<Rightarrow> int \<times> 's) \<Rightarrow> ('s \<Rightarrow> nat list) \<Rightarrow> ('s \<Rightarrow> timespec) \<Rightarrow> nat \<Rightarrow> nat \<Rightarrow> nat list \<Rightarrow> nat list \<Rightarrow>
    timespec \<times> timespec \<Rightarrow> 's \<Rightarrow> nat list \<times> (timespec \<times> timespec) \<times> 's" where
  "stream_dma_loop sys bytes clk sz 0 buffer dbuff ts s = (dbuff, ts, s)"
| "stream_dma_loop sys bytes clk sz (Suc ndma) buffer dbuff ts s =
    (let (_, s) = sys Uclock s; ts_start = clk s;
         (rc, s) = sys (Uread sz) s; buffer = read_into rc (bytes s) buffer;
         (_, s) = sys Uclock s; ts_end = clk s;
         (_, s) = sys (Uusleep 10) s
     in stream_dma_loop sys bytes clk sz ndma buffer (dbuff @ buffer) (ts_start, ts_end) s)"

text \<open>\<open>ts0\<close> is what the two uninitialised time stamps hold; they are subtracted as they are when no round was made. A destination that was
  not allocated is \<open>False\<close>.\<close>

definition test_stream_dma ::
  "(ucall \<Rightarrow> 's \<Rightarrow> int \<times> 's) \<Rightarrow> ('s \<Rightarrow> nat list) \<Rightarrow> ('s \<Rightarrow> timespec) \<Rightarrow> timespec \<times> timespec \<Rightarrow> string \<Rightarrow> nat \<Rightarrow> nat \<Rightarrow>
    string \<Rightarrow> bool \<Rightarrow> 's \<Rightarrow> (nat list \<times> 's) option" where
  "test_stream_dma sys bytes clk ts0 devicename sz cnt filename dest s = do {
     let (m, s) = sys (Umemalign (sz + 4096)) s;
     if m \<noteq> 0 then None else do {
     let (fpga_fd, s) = sys (Uopen devicename) s;
     if fpga_fd < 0 then None else do {
     let (file_fd, s) = sys (Uopen filename) s;
     if file_fd < 0 then None
     else if \<not> dest \<and> cnt \<noteq> 0 then None
     else do {
       let (dbuff, (ts_start, ts_end), s) = stream_dma_loop sys bytes clk sz cnt (replicate sz 0) [] ts0 s;
       t \<leftarrow> timespec_sub ts_end ts_start;
       let (_, s) = sys (Uclose devicename) s;
       let (_, s) = sys (Uclose filename) s;
       let (_, s) = sys Ufree s;
       Some (dbuff, s) } } } }"

definition MAP_SIZE :: nat where "MAP_SIZE = 32 * 1024"
definition DEV_NAME :: string where "DEV_NAME = ''/dev/xdma0''"
definition FILENAME_NAME_DEFAULT :: string where "FILENAME_NAME_DEFAULT = ''data/output_file.bin''"
definition SIZE_DEFAULT :: nat where "SIZE_DEFAULT = 16384"
definition COUNT_DEFAULT :: nat where "COUNT_DEFAULT = 2"

definition test_xdma_main ::
  "(ucall \<Rightarrow> 's \<Rightarrow> int \<times> 's) \<Rightarrow> ('s \<Rightarrow> nat list) \<Rightarrow> ('s \<Rightarrow> timespec) \<Rightarrow> timespec \<times> timespec \<Rightarrow> 's \<Rightarrow> uexit \<times> nat list \<times> 's" where
  "test_xdma_main sys bytes clk ts0 s =
    (let (p, s) = sys (Ucalloc (COUNT_DEFAULT * SIZE_DEFAULT)) s;
         (fd, s) = sys (Uopen (DEV_NAME @ ''_user'')) s
     in if fd = -1 then (Exit 1, [], s)
     else let (m, s) = sys (Ummap MAP_SIZE) s in
     if m = -1 then (Exit 1, [], s)
     else let (_, s) = sys (Uget 0) s;
         (_, s) = sys (Uget 0x14) s;
         (_, s) = sys (Uput 0x3C 0xFFFFFFFF) s;
         (_, s) = sys (Uget 0x3C) s;
         (_, s) = sys (Uusleep 10) s
     in case test_stream_dma sys bytes clk ts0 (DEV_NAME @ ''_c2h_0'') SIZE_DEFAULT COUNT_DEFAULT FILENAME_NAME_DEFAULT (p \<noteq> 0) s of
       None \<Rightarrow> (Abort, [], s)
     | Some (d, s) \<Rightarrow>
        let (_, s) = sys (Uput 0x3C 0) s;
            (_, s) = sys (Uget 0x3C) s;
            (u, s) = sys (Umunmap MAP_SIZE) s
        in if u = -1 then (Exit 1, d, s)
        else let (_, s) = sys (Uclose (DEV_NAME @ ''_user'')) s;
                 (_, s) = sys Ufree s
        in (Exit 0, d, s))"

section \<open>xtest1.c\<close>

text \<open>The program tests the result of \<^verbatim>\<open>mmap\<close> against NULL, not against \<^verbatim>\<open>MAP_FAILED\<close>: a failed mapping is used.\<close>

fun xtest1_loop :: "(ucall \<Rightarrow> 's \<Rightarrow> int \<times> 's) \<Rightarrow> nat \<Rightarrow> nat \<Rightarrow> 's \<Rightarrow> 's" where
  "xtest1_loop sys j 0 s = s"
| "xtest1_loop sys j (Suc n) s =
    (let s = snd (sys (Uput 0 (of_nat j)) s);
         s = snd (sys Umsync s);
         s = fold (\<lambda>i s. snd (sys (Uget (4 * i)) s)) [0..<4] s
     in xtest1_loop sys (j + 1) n s)"

definition xtest1_main :: "(ucall \<Rightarrow> 's \<Rightarrow> int \<times> 's) \<Rightarrow> 's \<Rightarrow> uexit \<times> 's" where
  "xtest1_main sys s =
    (let (f, s) = sys (Uopen ''resource1'') s in
     if f < 0 then (Exit 1, s)
     else let (m, s) = sys (Ummap 1024) s in
     if m = 0 then (Exit 1, s)
     else if m = -1 then (Abort, s)
     else let s = snd (sys (Uput 4 0xffffffff) s);
              s = xtest1_loop sys 0 32 s
          in (Exit 0, snd (sys (Umunmap 1024) s)))"

section \<open>What the stream test achieves\<close>

text \<open>\<^verbatim>\<open>timespec_sub\<close> subtracts normalised times: the result is normalised again and is the difference in nanoseconds.\<close>

theorem timespec_sub_normalised:
  assumes "0 \<le> tv_nsec t1" "tv_nsec t1 < 1000000000" "0 \<le> tv_nsec t2" "tv_nsec t2 < 1000000000"
  shows "\<exists>t. timespec_sub t1 t2 = Some t \<and> 0 \<le> tv_nsec t \<and> tv_nsec t < 1000000000 \<and>
    tv_sec t * 1000000000 + tv_nsec t = (tv_sec t1 * 1000000000 + tv_nsec t1) - (tv_sec t2 * 1000000000 + tv_nsec t2)"
  using assms by (auto simp: timespec_sub_def Let_def)

theorem timespec_sub_normalised_witness:
  "timespec_sub \<lparr>tv_sec = 5, tv_nsec = 100\<rparr> \<lparr>tv_sec = 3, tv_nsec = 200\<rparr> = Some \<lparr>tv_sec = 1, tv_nsec = 999999900\<rparr>"
proof -
  have "\<exists>t. timespec_sub \<lparr>tv_sec = 5, tv_nsec = 100\<rparr> \<lparr>tv_sec = 3, tv_nsec = 200\<rparr> = Some t \<and> 0 \<le> tv_nsec t \<and> tv_nsec t < 1000000000 \<and>
      tv_sec t * 1000000000 + tv_nsec t = 5 * 1000000000 + 100 - (3 * 1000000000 + 200)"
    using timespec_sub_normalised[of "\<lparr>tv_sec = 5, tv_nsec = 100\<rparr>" "\<lparr>tv_sec = 3, tv_nsec = 200\<rparr>"] by simp
  then show ?thesis by (simp add: timespec_sub_def)
qed

lemma read_into_length: "length buffer = sz \<Longrightarrow> rc \<le> int sz \<Longrightarrow> length (read_into rc bs buffer) = sz"
  by (auto simp: read_into_def)

lemma read_into_full: "rc = int (length buffer) \<Longrightarrow> length bs = length buffer \<Longrightarrow> read_into rc bs buffer = bs"
  by (simp add: read_into_def)

text \<open>A read that fails, or delivers fewer bytes, leaves the rest of the read before in the buffer, and all of it is copied.\<close>

lemma read_into_stale:
  assumes "i < length buffer" and "nat rc \<le> i"
  shows "read_into rc bs buffer ! i = buffer ! i"
  using assms by (auto simp: read_into_def nth_append)

lemma stream_dma_length:
  assumes "length buffer = sz" and "\<And>s. fst (sys (Uread sz) s) \<le> int sz"
  shows "length (fst (stream_dma_loop sys bytes clk sz n buffer dbuff ts s)) = length dbuff + n * sz"
  using assms(1)
proof (induction n arbitrary: buffer dbuff ts s)
  case 0
  then show ?case by simp
next
  case (Suc n)
  have "length (read_into (fst (sys (Uread sz) v)) bs buffer) = sz" for v bs using read_into_length[OF Suc.prems assms(2)] .
  with Suc.IH show ?case by (simp add: Let_def split_def)
qed

text \<open>When every read delivers all it was asked for, the destination holds the reads one after the other.\<close>

fun reads :: "(ucall \<Rightarrow> 's \<Rightarrow> int \<times> 's) \<Rightarrow> ('s \<Rightarrow> nat list) \<Rightarrow> nat \<Rightarrow> nat \<Rightarrow> 's \<Rightarrow> nat list list" where
  "reads sys bytes sz 0 s = []"
| "reads sys bytes sz (Suc n) s = (let s1 = snd (sys (Uread sz) (snd (sys Uclock s))) in
     bytes s1 # reads sys bytes sz n (snd (sys (Uusleep 10) (snd (sys Uclock s1)))))"

lemma stream_dma_reads:
  assumes "length buffer = sz" and "\<And>s. fst (sys (Uread sz) s) = int sz" and "\<And>s. length (bytes (snd (sys (Uread sz) s))) = sz"
  shows "fst (stream_dma_loop sys bytes clk sz n buffer dbuff ts s) = dbuff @ concat (reads sys bytes sz n s)"
  using assms(1)
proof (induction n arbitrary: buffer dbuff ts s)
  case 0
  then show ?case by simp
next
  case (Suc n)
  have "read_into (int sz) (bytes (snd (sys (Uread sz) v))) buffer = bytes (snd (sys (Uread sz) v))" for v
    by (rule read_into_full) (simp_all add: Suc.prems assms(3))
  with Suc.IH[OF assms(3)] assms(2) show ?case by (simp add: Let_def split_def)
qed

text \<open>\<^verbatim>\<open>test_xdma\<close> with a kernel whose reads keep the limit they are given: what is copied fills the memory that was allocated for it
  exactly. Nothing is written beyond it.\<close>

theorem test_xdma_fits:
  assumes "\<And>s. fst (sys (Uread SIZE_DEFAULT) s) \<le> int SIZE_DEFAULT" and "test_xdma_main sys bytes clk ts0 s = (Exit 0, d, s')"
  shows "length d = COUNT_DEFAULT * SIZE_DEFAULT"
proof -
  have "length d' = cnt * SIZE_DEFAULT" if "test_stream_dma sys bytes clk ts0 dn SIZE_DEFAULT cnt fn dest v = Some (d', v')" for dn cnt fn dest v d' v'
    using that stream_dma_length[of "replicate SIZE_DEFAULT 0" SIZE_DEFAULT sys bytes clk cnt "[]" ts0] assms(1)
    by (auto simp: test_stream_dma_def Let_def split_def bind_eq_Some_conv split: if_splits)
  with assms(2) show ?thesis
    by (auto simp: test_xdma_main_def Let_def split_def split: if_splits option.splits)
qed

text \<open>A kernel that grants every call.\<close>

definition demo_kernel :: "ucall \<Rightarrow> nat \<Rightarrow> int \<times> nat" where
  "demo_kernel c s = (case c of Uread n \<Rightarrow> int n | Umemalign _ \<Rightarrow> 0 | _ \<Rightarrow> 3, s + 1)"

lemma demo_calls [simp]:
  "demo_kernel (Uread n) s = (int n, s + 1)" "demo_kernel (Umemalign n) s = (0, s + 1)" "demo_kernel (Uopen f) s = (3, s + 1)"
  "demo_kernel (Uclose f) s = (3, s + 1)" "demo_kernel (Ummap n) s = (3, s + 1)" "demo_kernel (Umunmap n) s = (3, s + 1)"
  "demo_kernel (Ucalloc n) s = (3, s + 1)" "demo_kernel Ufree s = (3, s + 1)" "demo_kernel (Uget a) s = (3, s + 1)"
  "demo_kernel (Uput a v) s = (3, s + 1)" "demo_kernel (Uusleep n) s = (3, s + 1)" "demo_kernel Uclock s = (3, s + 1)"
  by (simp_all add: demo_kernel_def)

lemma demo_loop: "\<exists>d s'. stream_dma_loop demo_kernel bytes (\<lambda>s. \<lparr>tv_sec = int s, tv_nsec = 0\<rparr>) sz 2 b d0 ts s =
    (d, (\<lparr>tv_sec = int (s + 5), tv_nsec = 0\<rparr>, \<lparr>tv_sec = int (s + 7), tv_nsec = 0\<rparr>), s')"
  by (simp add: numeral_2_eq_2 Let_def)

theorem test_xdma_fits_witness:
  "\<exists>d s'. test_xdma_main demo_kernel bytes (\<lambda>s. \<lparr>tv_sec = int s, tv_nsec = 0\<rparr>) ts0 0 = (Exit 0, d, s') \<and> length d = COUNT_DEFAULT * SIZE_DEFAULT"
proof -
  have "\<exists>d s'. test_stream_dma demo_kernel bytes (\<lambda>s. \<lparr>tv_sec = int s, tv_nsec = 0\<rparr>) ts0 dn SIZE_DEFAULT 2 fn True s = Some (d, s')" for dn fn s
    using demo_loop[of bytes SIZE_DEFAULT "replicate SIZE_DEFAULT 0" "[]" ts0 "Suc (Suc (Suc s))"]
    by (auto simp: test_stream_dma_def timespec_sub_def Let_def)
  from this[of "DEV_NAME @ ''_c2h_0''" FILENAME_NAME_DEFAULT "Suc (Suc (Suc (Suc (Suc (Suc (Suc (Suc 0)))))))"] obtain d v where
    "test_stream_dma demo_kernel bytes (\<lambda>s. \<lparr>tv_sec = int s, tv_nsec = 0\<rparr>) ts0 (DEV_NAME @ ''_c2h_0'') SIZE_DEFAULT 2 FILENAME_NAME_DEFAULT True
      (Suc (Suc (Suc (Suc (Suc (Suc (Suc (Suc 0)))))))) = Some (d, v)"
    by blast
  then have "\<exists>d s'. test_xdma_main demo_kernel bytes (\<lambda>s. \<lparr>tv_sec = int s, tv_nsec = 0\<rparr>) ts0 0 = (Exit 0, d, s')"
    by (simp add: test_xdma_main_def COUNT_DEFAULT_def)
  then obtain d s' where r: "test_xdma_main demo_kernel bytes (\<lambda>s. \<lparr>tv_sec = int s, tv_nsec = 0\<rparr>) ts0 0 = (Exit 0, d, s')" by blast
  have "length d = COUNT_DEFAULT * SIZE_DEFAULT" by (rule test_xdma_fits[OF _ r]) (simp add: demo_kernel_def)
  with r show ?thesis by blast
qed

text \<open>\<^verbatim>\<open>xtest1\<close> writes the numbers 0 to 31 to the first register, in order, and reads four registers after each.\<close>

lemma xtest1_loop_writes:
  "xtest1_loop (\<lambda>c l. (1, l @ [c])) j n l =
    l @ concat (map (\<lambda>k. [Uput 0 (of_nat k), Umsync, Uget 0, Uget 4, Uget 8, Uget 12]) [j..<j + n])"
proof (induction n arbitrary: j l)
  case 0
  then show ?case by simp
next
  case (Suc n)
  have "[j..<j + Suc n] = j # [Suc j..<Suc j + n]" by (simp add: upt_conv_Cons)
  then show ?case by (simp add: Suc Let_def upt_conv_Cons)
qed

lemma xtest1_calls:
  "xtest1_main (\<lambda>c l. (1, l @ [c])) [] = (Exit 0, [Uopen ''resource1'', Ummap 1024, Uput 4 0xffffffff] @
     concat (map (\<lambda>k. [Uput 0 (of_nat k), Umsync, Uget 0, Uget 4, Uget 8, Uget 12]) [0..<32]) @ [Umunmap 1024])"
  by (simp add: xtest1_main_def xtest1_loop_writes)

end
