(* ===== verification/Accounting.thy ===== *)
theory Accounting
  imports Kworld "HOL-Library.Multiset"
begin

text \<open>
  Resources kept in arrays: the contract every acquire-and-release pair of the driver shares. The
  DMA pages, the DMA mappings and the mapped BARs are its instances.
\<close>

text \<open>What a history did to a resource, event by event.\<close>

definition tally :: "(io \<Rightarrow> 'a multiset) \<Rightarrow> io list \<Rightarrow> 'a multiset" where
  "tally f l = sum_list (map f l)"

lemma tally_simps [simp]:
  "tally f [] = {#}" "tally f (l @ l') = tally f l + tally f l'" "tally f (x # l) = f x + tally f l"
  by (simp_all add: tally_def)

lemma tally_none: "list_all P l \<Longrightarrow> (\<And>e. P e \<Longrightarrow> f e = {#}) \<Longrightarrow> tally f l = {#}"
  by (induction l) auto

text \<open>A resource kept in an array with 0 for an empty slot: its account is what was held at first (\<open>H\<close>) and
  acquired since, against what was released and what the slots hold now.\<close>

locale slot_account =
  fixes got freed :: "io \<Rightarrow> u64 multiset" and slots :: "'s \<Rightarrow> u64 list"
begin

definition total :: "(io \<Rightarrow> u64 multiset) \<Rightarrow> io list \<Rightarrow> u64 multiset" where
  "total f l = sum_list (map f l)"

definition held :: "'s \<Rightarrow> u64 multiset" where
  "held x = mset (filter (\<lambda>p. p \<noteq> 0) (slots x))"

definition balanced :: "u64 multiset \<Rightarrow> io list \<Rightarrow> 's \<Rightarrow> bool" where
  "balanced H l x \<longleftrightarrow> H + total got l = total freed l + held x"

lemma total_simps [simp]: "total f [] = {#}" "total f (l @ l') = total f l + total f l'" "total f [x] = f x"
  by (simp_all add: total_def)

lemma balanced_frame: "balanced H l x \<Longrightarrow> slots x' = slots x \<Longrightarrow> got e = {#} \<Longrightarrow> freed e = {#} \<Longrightarrow> balanced H (l @ [e]) x'"
  by (simp add: balanced_def held_def)

lemma held_empty: "slots x = replicate n 0 \<Longrightarrow> held x = {#}"
  by (simp add: held_def)

lemma held_put:
  assumes "i < length (slots x)" and "slots x ! i = 0" and "slots x' = (slots x)[i := p]"
  shows "held x' = held x + (if p = 0 then {#} else {#p#})"
  using assms by (simp add: held_def mset_filter mset_update)

lemma held_drop:
  assumes "i < length (slots x)" and "slots x ! i = p" and "p \<noteq> 0" and "slots x' = (slots x)[i := 0]"
  shows "held x = held x' + {#p#}"
proof -
  have "p \<in># mset (slots x)" using assms(1,2) by auto
  with assms show ?thesis by (simp add: held_def mset_filter mset_update)
qed

lemma balanced_put:
  assumes "balanced H l x" "i < length (slots x)" "slots x ! i = 0" "slots x' = (slots x)[i := p]"
    "got e = (if p = 0 then {#} else {#p#})" "freed e = {#}"
  shows "balanced H (l @ [e]) x'"
  using assms by (simp add: balanced_def held_put)

lemma balanced_drop:
  assumes "balanced H l x" "i < length (slots x)" "slots x ! i = p" "p \<noteq> 0" "slots x' = (slots x)[i := 0]"
    "got e = {#}" "freed e = {#p#}"
  shows "balanced H (l @ [e]) x'"
  using assms by (simp add: balanced_def held_drop)

end

end
