(* ===== verification/Wz_Buffers.thy ===== *)
theory Wz_Buffers
  imports Wz_Xdma Accounting
begin

text \<open>
  The buffers of the WZ extension as resources: what their allocation acquires, that a failure and the
  release give back everything exactly once, what a page fault maps, and what a reader gets.
\<close>

section \<open>Accounting\<close>

text \<open>The pages a history has acquired and released, and the same for streaming DMA mappings.\<close>

fun pages_got :: "io \<Rightarrow> u64 multiset" where
  "pages_got (KP C_alloc_pages p) = (if p = 0 then {#} else {#p#})"
| "pages_got _ = {#}"

fun pages_freed :: "io \<Rightarrow> u64 multiset" where
  "pages_freed (KV (C_free_pages p)) = {#p#}"
| "pages_freed _ = {#}"

fun maps_got :: "io \<Rightarrow> u64 multiset" where
  "maps_got (KP (C_dma_map_page _) a) = (if a = 0 then {#} else {#a#})"
| "maps_got _ = {#}"

fun maps_freed :: "io \<Rightarrow> u64 multiset" where
  "maps_freed (KV (C_dma_unmap_page a)) = {#a#}"
| "maps_freed _ = {#}"

interpretation pg: slot_account pages_got pages_freed buf_page .

interpretation mp: slot_account maps_got maps_freed buf_dma_t .

text \<open>The state of the two arrays while buffers are allocated or released, between positions.\<close>

definition bufs_ok :: "u64 multiset \<Rightarrow> u64 multiset \<Rightarrow> io list \<Rightarrow> wz_ext \<times> world \<Rightarrow> bool" where
  "bufs_ok HP HM l0 s \<longleftrightarrow> (case s of (x, w) \<Rightarrow>
     length (buf_page x) = WZ_DMA_NOFBUFS \<and> length (buf_dma_t x) = WZ_DMA_NOFBUFS \<and>
     (\<exists>l. io w = l0 @ l \<and> pg.balanced HP l x \<and> mp.balanced HM l x))"

lemma wz_alloc_one_ok:
  assumes "bufs_ok HP HM l0 (x, w)" and "i < WZ_DMA_NOFBUFS" and "\<forall>j. i \<le> j \<and> j < WZ_DMA_NOFBUFS \<longrightarrow> buf_page x ! j = 0 \<and> buf_dma_t x ! j = 0"
    and "\<forall>j < i. buf_page x ! j \<noteq> 0 \<and> buf_dma_t x ! j \<noteq> 0"
  shows "\<exists>r x' w'. wz_alloc_one i (x, w) = Some (r, x', w') \<and> bufs_ok HP HM l0 (x', w') \<and>
    x'\<lparr>buf_page := buf_page x, buf_dma_t := buf_dma_t x\<rparr> = x \<and>
    (case r of None \<Rightarrow> (\<forall>j. Suc i \<le> j \<and> j < WZ_DMA_NOFBUFS \<longrightarrow> buf_page x' ! j = 0 \<and> buf_dma_t x' ! j = 0) \<and>
        (\<forall>j < Suc i. buf_page x' ! j \<noteq> 0 \<and> buf_dma_t x' ! j \<noteq> 0)
     | Some rc \<Rightarrow> rc = - ENOMEM)"
proof -
  from assms(1) obtain l where l: "io w = l0 @ l" "pg.balanced HP l x" "mp.balanced HM l x"
    and len: "length (buf_page x) = WZ_DMA_NOFBUFS" "length (buf_dma_t x) = WZ_DMA_NOFBUFS" by (auto simp: bufs_ok_def)
  define p where "p = kptr w (io w) C_alloc_pages"
  define w1 where "w1 = emit (KP C_alloc_pages p) w"
  define a where "a = kptr w1 (io w1) (C_dma_map_page p)"
  define w2 where "w2 = emit (KP (C_dma_map_page p) a) w1"
  let ?x1 = "x\<lparr>buf_page := (buf_page x)[i := p]\<rparr>" and ?x2 = "x\<lparr>buf_page := (buf_page x)[i := p], buf_dma_t := (buf_dma_t x)[i := a]\<rparr>"
  let ?l1 = "l @ [KP C_alloc_pages p]" and ?l2 = "(l @ [KP C_alloc_pages p]) @ [KP (C_dma_map_page p) a]"
  have z: "buf_page x ! i = 0" "buf_dma_t x ! i = 0" using assms(2,3) by auto
  have b1: "pg.balanced HP ?l1 ?x1" "mp.balanced HM ?l1 ?x1"
    by (rule pg.balanced_put[OF l(2), of i]; use len assms(2) z in simp)
      (rule mp.balanced_frame[OF l(3)]; simp)
  have b2: "pg.balanced HP ?l2 ?x2" "mp.balanced HM ?l2 ?x2"
    by (rule pg.balanced_frame[OF b1(1)]; simp) (rule mp.balanced_put[OF b1(2), of i]; use len assms(2) z in simp)
  have b3: "pg.balanced HP (?l2 @ [KV (C_sync_for_device a)]) ?x2" "mp.balanced HM (?l2 @ [KV (C_sync_for_device a)]) ?x2"
    by (rule pg.balanced_frame[OF b2(1)]; simp) (rule mp.balanced_frame[OF b2(2)]; simp)
  have run: "wz_alloc_one i (x, w) = (if p = 0 then Some (Some (- ENOMEM), ?x1, w1)
      else if a = 0 then Some (Some (- ENOMEM), ?x2, w2) else Some (None, ?x2, emit (KV (C_sync_for_device a)) w2))"
    using assms(2) len
    by (cases "p = 0") (simp_all add: wz_alloc_one_def call_ptr_def call_void_def p_def[symmetric] w1_def a_def w2_def Let_def)
  have io: "io w1 = l0 @ ?l1" "io w2 = l0 @ ?l2" by (simp_all add: w1_def w2_def l)
  consider "p = 0" | "p \<noteq> 0" "a = 0" | "p \<noteq> 0" "a \<noteq> 0" by blast
  then show ?thesis
  proof cases
    case 1
    with run b1 io len show ?thesis by (auto simp: bufs_ok_def)
  next
    case 2
    with run b2 io len show ?thesis by (auto simp: bufs_ok_def)
  next
    case 3
    have "io (emit (KV (C_sync_for_device a)) w2) = l0 @ ?l2 @ [KV (C_sync_for_device a)]" by (simp add: io)
    with 3 run b3 len assms(2-4) show ?thesis
      by (auto simp: bufs_ok_def nth_list_update less_Suc_eq)
  qed
qed

lemma wz_free_one_ok:
  assumes "bufs_ok HP HM l0 (x, w)" and "i < WZ_DMA_NOFBUFS"
  shows "\<exists>x' w'. wz_free_one i (x, w) = Some (x', w') \<and> bufs_ok HP HM l0 (x', w') \<and>
    x'\<lparr>buf_page := buf_page x, buf_dma_t := buf_dma_t x\<rparr> = x \<and>
    buf_page x' = (buf_page x)[i := 0] \<and> buf_dma_t x' = (buf_dma_t x)[i := 0]"
proof -
  from assms(1) obtain l where l: "io w = l0 @ l" "pg.balanced HP l x" "mp.balanced HM l x"
    and len: "length (buf_page x) = WZ_DMA_NOFBUFS" "length (buf_dma_t x) = WZ_DMA_NOFBUFS" by (auto simp: bufs_ok_def)
  define a where "a = buf_dma_t x ! i"
  define p where "p = buf_page x ! i"
  define x1 where "x1 = (if a = 0 then x else x\<lparr>buf_dma_t := (buf_dma_t x)[i := 0]\<rparr>)"
  define w1 where "w1 = (if a = 0 then w else emit (KV (C_dma_unmap_page a)) w)"
  define x2 where "x2 = (if p = 0 then x1 else x1\<lparr>buf_page := (buf_page x1)[i := 0]\<rparr>)"
  define w2 where "w2 = (if p = 0 then w1 else emit (KV (C_free_pages p)) w1)"
  have run: "wz_free_one i (x, w) = Some (x2, w2)"
    using assms(2) len by (simp add: wz_free_one_def x1_def x2_def w1_def w2_def a_def p_def call_void_def)
  have s1: "buf_page x1 = buf_page x" "buf_dma_t x1 = (buf_dma_t x)[i := 0]"
    by (auto simp: x1_def a_def) (metis list_update_id)
  obtain l1 where l1: "io w1 = l0 @ l1" "pg.balanced HP l1 x1" "mp.balanced HM l1 x1"
  proof (cases "a = 0")
    case False
    have "pg.balanced HP (l @ [KV (C_dma_unmap_page a)]) x1" by (rule pg.balanced_frame[OF l(2)]) (simp_all add: s1)
    moreover have "mp.balanced HM (l @ [KV (C_dma_unmap_page a)]) x1"
      by (rule mp.balanced_drop[OF l(3), of i a]) (use False s1 len assms(2) in \<open>simp_all add: a_def\<close>)
    ultimately show ?thesis using that[of "l @ [KV (C_dma_unmap_page a)]"] False l(1) by (simp add: w1_def)
  qed (use that[of l] l in \<open>simp add: x1_def w1_def\<close>)
  have s2: "buf_page x2 = (buf_page x)[i := 0]" "buf_dma_t x2 = (buf_dma_t x)[i := 0]"
    using s1 by (auto simp: x2_def p_def) (metis list_update_id)
  obtain l2 where l2: "io w2 = l0 @ l2" "pg.balanced HP l2 x2" "mp.balanced HM l2 x2"
  proof (cases "p = 0")
    case False
    have "mp.balanced HM (l1 @ [KV (C_free_pages p)]) x2" by (rule mp.balanced_frame[OF l1(3)]) (simp_all add: s1 s2)
    moreover have "pg.balanced HP (l1 @ [KV (C_free_pages p)]) x2"
      by (rule pg.balanced_drop[OF l1(2), of i p]) (use False s1 s2 len assms(2) in \<open>simp_all add: p_def\<close>)
    ultimately show ?thesis using that[of "l1 @ [KV (C_free_pages p)]"] False l1(1) by (simp add: w2_def)
  qed (use that[of l1] l1 in \<open>simp add: x2_def w2_def\<close>)
  have "x2\<lparr>buf_page := buf_page x, buf_dma_t := buf_dma_t x\<rparr> = x" by (simp add: x1_def x2_def)
  with run s2 l2 len show ?thesis by (auto simp: bufs_ok_def)
qed

lemma wz_free_loop:
  assumes "bufs_ok HP HM l0 (x, w)"
  shows "\<exists>w'. for_range 0 WZ_DMA_NOFBUFS wz_free_one (x, w) =
      Some (x\<lparr>buf_page := replicate WZ_DMA_NOFBUFS 0, buf_dma_t := replicate WZ_DMA_NOFBUFS 0\<rparr>, w') \<and>
    (\<exists>l. io w' = l0 @ l \<and> HP + sum_list (map pages_got l) = sum_list (map pages_freed l) \<and>
      HM + sum_list (map maps_got l) = sum_list (map maps_freed l))"
proof -
  let ?N = WZ_DMA_NOFBUFS
  let ?x = "\<lambda>k. x\<lparr>buf_page := replicate k 0 @ drop k (buf_page x), buf_dma_t := replicate k 0 @ drop k (buf_dma_t x)\<rparr>"
  let ?P = "\<lambda>k s. fst s = ?x k \<and> bufs_ok HP HM l0 s"
  have len: "length (buf_page x) = ?N" "length (buf_dma_t x) = ?N" using assms by (auto simp: bufs_ok_def)
  have u: "(replicate k 0 @ drop k xs)[k := 0] = replicate (Suc k) 0 @ drop (Suc k) xs" if "length xs = ?N" "k < ?N" for xs :: "u64 list" and k
    using that by (simp add: list_update_append replicate_append_same[symmetric] Cons_nth_drop_Suc[symmetric])
  have "\<exists>s'. for_range 0 ?N wz_free_one (x, w) = Some s' \<and> ?P (0 + ?N) s'"
  proof (rule for_range_total)
    show "?P 0 (x, w)" using assms by simp
  next
    fix k s assume k: "0 \<le> k" "k < 0 + ?N" and P: "?P k s"
    then obtain v where s: "s = (?x k, v)" "bufs_ok HP HM l0 (?x k, v)" by (cases s) auto
    from wz_free_one_ok[OF s(2), of k] k obtain x' v' where r: "wz_free_one k s = Some (x', v')" "bufs_ok HP HM l0 (x', v')"
      "x'\<lparr>buf_page := buf_page (?x k), buf_dma_t := buf_dma_t (?x k)\<rparr> = ?x k"
      "buf_page x' = (buf_page (?x k))[k := 0]" "buf_dma_t x' = (buf_dma_t (?x k))[k := 0]" by (auto simp: s(1))
    have "x' = (?x k)\<lparr>buf_page := buf_page x', buf_dma_t := buf_dma_t x'\<rparr>" by (subst r(3)[symmetric]) simp
    also have "\<dots> = ?x (Suc k)" unfolding r(4,5) using u len k by simp
    finally have "x' = ?x (Suc k)" .
    with r show "\<exists>s'. wz_free_one k s = Some s' \<and> ?P (Suc k) s'" by auto
  qed
  then obtain w' where r: "for_range 0 ?N wz_free_one (x, w) = Some (?x ?N, w')" "bufs_ok HP HM l0 (?x ?N, w')" by auto
  then obtain l where "io w' = l0 @ l" "pg.balanced HP l (?x ?N)" "mp.balanced HM l (?x ?N)" by (auto simp: bufs_ok_def)
  with r(1) len show ?thesis
    by (auto simp: pg.balanced_def mp.balanced_def pg.held_def mp.held_def pg.total_def)
qed

lemma wz_alloc_loop:
  assumes "buf_page x = replicate WZ_DMA_NOFBUFS 0" and "buf_dma_t x = replicate WZ_DMA_NOFBUFS 0"
  shows "\<exists>r x' w'. for_try 0 WZ_DMA_NOFBUFS wz_alloc_one (x, w) = Some (r, x', w') \<and> bufs_ok {#} {#} (io w) (x', w') \<and>
    x'\<lparr>buf_page := buf_page x, buf_dma_t := buf_dma_t x\<rparr> = x \<and>
    (case r of None \<Rightarrow> \<forall>j < WZ_DMA_NOFBUFS. buf_page x' ! j \<noteq> 0 \<and> buf_dma_t x' ! j \<noteq> 0 | Some rc \<Rightarrow> rc = - ENOMEM)"
proof -
  let ?N = WZ_DMA_NOFBUFS
  let ?F = "\<lambda>s. bufs_ok {#} {#} (io w) s \<and> (fst s)\<lparr>buf_page := buf_page x, buf_dma_t := buf_dma_t x\<rparr> = x"
  let ?P = "\<lambda>k s. ?F s \<and>
    (\<forall>j. k \<le> j \<and> j < ?N \<longrightarrow> buf_page (fst s) ! j = 0 \<and> buf_dma_t (fst s) ! j = 0) \<and>
    (\<forall>j < k. buf_page (fst s) ! j \<noteq> 0 \<and> buf_dma_t (fst s) ! j \<noteq> 0)"
  let ?Q = "\<lambda>rc s. ?F s \<and> rc = - ENOMEM"
  have "\<exists>r s'. for_try 0 ?N wz_alloc_one (x, w) = Some (r, s') \<and>
      (case r of None \<Rightarrow> ?P (0 + ?N) s' | Some rc \<Rightarrow> ?Q rc s')"
  proof (rule for_try_total)
    have "pg.held x = {#}" "mp.held x = {#}" using assms pg.held_empty mp.held_empty by blast+
    then show "?P 0 (x, w)"
      using assms by (auto simp: bufs_ok_def pg.balanced_def mp.balanced_def intro!: exI[of _ "[]"])
  next
    fix k s assume k: "0 \<le> k" "k < 0 + ?N" and P: "?P k s"
    obtain y v where s: "s = (y, v)" by (cases s)
    from wz_alloc_one_ok[of "{#}" "{#}" "io w" y v k] P k obtain r y' v' where r: "wz_alloc_one k s = Some (r, y', v')"
      "bufs_ok {#} {#} (io w) (y', v')" "y'\<lparr>buf_page := buf_page y, buf_dma_t := buf_dma_t y\<rparr> = y"
      "case r of None \<Rightarrow> (\<forall>j. Suc k \<le> j \<and> j < ?N \<longrightarrow> buf_page y' ! j = 0 \<and> buf_dma_t y' ! j = 0) \<and>
        (\<forall>j < Suc k. buf_page y' ! j \<noteq> 0 \<and> buf_dma_t y' ! j \<noteq> 0) | Some rc \<Rightarrow> rc = - ENOMEM"
      by (auto simp: s)
    have "y'\<lparr>buf_page := buf_page x, buf_dma_t := buf_dma_t x\<rparr> = x"
      using arg_cong[OF r(3), of "\<lambda>y. y\<lparr>buf_page := buf_page x, buf_dma_t := buf_dma_t x\<rparr>"] P by (simp add: s)
    with r show "\<exists>r s'. wz_alloc_one k s = Some (r, s') \<and> (case r of None \<Rightarrow> ?P (Suc k) s' | Some rc \<Rightarrow> ?Q rc s')"
      by (intro exI[of _ r] exI[of _ "(y', v')"]) (auto split: option.splits)
  qed
  then show ?thesis by (fastforce split: option.splits)
qed

lemma bufs_ok_copy:
  assumes "bufs_ok HP HM l0 (x, w)" and "io w' = io w @ [e]" and "buf_page x' = buf_page x" "buf_dma_t x' = buf_dma_t x"
    and "pages_got e = {#}" "pages_freed e = {#}" "maps_got e = {#}" "maps_freed e = {#}"
  shows "bufs_ok HP HM l0 (x', w')"
proof -
  from assms(1) obtain l where "io w = l0 @ l" "pg.balanced HP l x" "mp.balanced HM l x" by (auto simp: bufs_ok_def)
  moreover from this have "pg.balanced HP (l @ [e]) x'" "mp.balanced HM (l @ [e]) x'"
    using assms by (auto intro: pg.balanced_frame mp.balanced_frame)
  ultimately show ?thesis using assms(1-4) by (auto simp: bufs_ok_def)
qed

lemma wz_err1_releases:
  assumes "bufs_ok HP HM l0 (x, w)"
  shows "\<exists>x' w' l. wz_alloc_err1 rc (x, w) = Some (rc, x', w') \<and> io w' = l0 @ l \<and>
    HP + sum_list (map pages_got l) = sum_list (map pages_freed l) \<and> HM + sum_list (map maps_got l) = sum_list (map maps_freed l) \<and>
    \<not> buf_ready x' \<and> desc_copy x' = None \<and> buf_page x' = replicate WZ_DMA_NOFBUFS 0 \<and> buf_dma_t x' = replicate WZ_DMA_NOFBUFS 0"
proof -
  from wz_free_loop[OF assms] obtain w1 l where r: "for_range 0 WZ_DMA_NOFBUFS wz_free_one (x, w) =
      Some (x\<lparr>buf_page := replicate WZ_DMA_NOFBUFS 0, buf_dma_t := replicate WZ_DMA_NOFBUFS 0\<rparr>, w1)" "io w1 = l0 @ l"
    "HP + sum_list (map pages_got l) = sum_list (map pages_freed l)" "HM + sum_list (map maps_got l) = sum_list (map maps_freed l)" by blast
  show ?thesis
  proof (cases "desc_copy x")
    case None
    with r show ?thesis by (auto simp: wz_alloc_err1_def wz_free_copy_def)
  next
    case (Some c)
    with r show ?thesis
      by (cases c) (auto simp: wz_alloc_err1_def wz_free_copy_def call_void_def intro!: exI[of _ "l @ [KV (C_vfree p)]" for p])
  qed
qed

section \<open>Properties\<close>

text \<open>C17. Allocating the buffers is all or nothing. It returns 0 with 128 pages and 128 DMA mappings in
  place, the copy area and an empty FIFO, marked ready; or it returns \<^verbatim>\<open>-ENOMEM\<close>, not ready, with every
  slot empty, and every page allocated and every mapping made on the way released exactly once.\<close>

theorem wz_alloc_all_or_nothing:
  assumes "buf_page (wz_ext e) = replicate WZ_DMA_NOFBUFS 0" and "buf_dma_t (wz_ext e) = replicate WZ_DMA_NOFBUFS 0"
  shows "\<exists>rc e' w' l. ioctl_do_wz_alloc_buffers e w = Some (rc, e', w') \<and> io w' = io w @ l \<and>
    (if rc = 0 then buf_ready (wz_ext e') \<and> kfifo (wz_ext e') = Some [] \<and> desc_copy (wz_ext e') \<noteq> None \<and>
       (\<forall>i < WZ_DMA_NOFBUFS. buf_page (wz_ext e') ! i \<noteq> 0 \<and> buf_dma_t (wz_ext e') ! i \<noteq> 0)
     else rc = - ENOMEM \<and> \<not> buf_ready (wz_ext e') \<and> desc_copy (wz_ext e') = None \<and>
       buf_page (wz_ext e') = replicate WZ_DMA_NOFBUFS 0 \<and> buf_dma_t (wz_ext e') = replicate WZ_DMA_NOFBUFS 0 \<and>
       sum_list (map pages_got l) = sum_list (map pages_freed l) \<and> sum_list (map maps_got l) = sum_list (map maps_freed l))"
proof -
  from wz_alloc_loop[OF assms] obtain r x w1 where
    r: "for_try 0 WZ_DMA_NOFBUFS wz_alloc_one (wz_ext e, w) = Some (r, x, w1)" "bufs_ok {#} {#} (io w) (x, w1)"
      "case r of None \<Rightarrow> \<forall>j < WZ_DMA_NOFBUFS. buf_page x ! j \<noteq> 0 \<and> buf_dma_t x ! j \<noteq> 0 | Some rc \<Rightarrow> rc = - ENOMEM" by blast
  show ?thesis
  proof (cases r)
    case (Some rc)
    with r wz_err1_releases[OF r(2), of rc] show ?thesis
      by (fastforce simp: ioctl_do_wz_alloc_buffers_def)
  next
    case None
    define p where "p = kptr w1 (io w1) (C_vmalloc (WZ_DMA_NOFBUFS * 32))"
    define w2 where "w2 = emit (KP (C_vmalloc (WZ_DMA_NOFBUFS * 32)) p) w1"
    define x2 where "x2 = x\<lparr>desc_copy := (if p = 0 then None else Some (p, replicate WZ_DMA_NOFBUFS zero_desc))\<rparr>"
    define k where "k = kint w2 (io w2) (C_kfifo_alloc WZ_DMA_NOFBUFS)"
    define w3 where "w3 = emit (KI (C_kfifo_alloc WZ_DMA_NOFBUFS) k) w2"
    have ok: "bufs_ok {#} {#} (io w) (x2, w2)" 
      by (rule bufs_ok_copy[OF r(2), where e = "KP (C_vmalloc (WZ_DMA_NOFBUFS * 32)) p"]) (simp_all add: w2_def x2_def)
    then have ok3: "bufs_ok {#} {#} (io w) (x2, w3)" 
      by (rule bufs_ok_copy[where e = "KI (C_kfifo_alloc WZ_DMA_NOFBUFS) k"]) (simp_all add: w3_def)
    have run: "ioctl_do_wz_alloc_buffers e w = map_option (\<lambda>(rc, x, w). (rc, e\<lparr>wz_ext := x\<rparr>, w))
        (if p = 0 then wz_alloc_err1 (- ENOMEM) (x2, w2) else if k < 0 then wz_alloc_err1 (- ENOMEM) (x2, w3)
         else Some (0, x2\<lparr>kfifo := Some [], buf_ready := True\<rparr>, w3))"
      using r(1) None by (simp add: ioctl_do_wz_alloc_buffers_def call_ptr_def call_int_def Let_def
          p_def[symmetric] w2_def x2_def k_def w3_def map_option_case split: option.splits)
    consider "p = 0" | "p \<noteq> 0" "k < 0" | "p \<noteq> 0" "\<not> k < 0" by blast
    then show ?thesis
    proof cases
      case 1
      with run wz_err1_releases[OF ok, of "- ENOMEM"] show ?thesis by fastforce
    next
      case 2
      with run wz_err1_releases[OF ok3, of "- ENOMEM"] show ?thesis by fastforce
    next
      case 3
      moreover obtain l where "io w3 = io w @ l" using ok3 by (auto simp: bufs_ok_def)
      ultimately show ?thesis using run r(3) None by (auto simp: x2_def)
    qed
  qed
qed

theorem wz_alloc_all_or_nothing_witness:
  "\<exists>e' w'. ioctl_do_wz_alloc_buffers zero_engine (quiet_world\<lparr>kptr := \<lambda>l _. if l = [] then 0x1000 else 0\<rparr>) = Some (- ENOMEM, e', w') \<and>
    sum_list (map pages_got (io w')) = sum_list (map pages_freed (io w')) \<and> buf_page (wz_ext e') = replicate WZ_DMA_NOFBUFS 0"
proof -
  let ?w = "quiet_world\<lparr>kptr := \<lambda>l _. if l = [] then 0x1000 else 0\<rparr>"
  have z: "buf_page (wz_ext zero_engine) = replicate WZ_DMA_NOFBUFS 0" "buf_dma_t (wz_ext zero_engine) = replicate WZ_DMA_NOFBUFS 0"
    by (simp_all add: zero_engine_def zero_ext_def)
  obtain x v where one: "wz_alloc_one 0 (wz_ext zero_engine, ?w) = Some (Some (- ENOMEM), x, v)"
    by (simp add: wz_alloc_one_def z call_ptr_def WZ_DMA_NOFBUFS_def)
  then have "for_try 0 (Suc 127) wz_alloc_one (wz_ext zero_engine, ?w) = Some (Some (- ENOMEM), x, v)"
    by (subst for_try.simps(2)) (simp add: one)
  then have t: "for_try 0 WZ_DMA_NOFBUFS wz_alloc_one (wz_ext zero_engine, ?w) = Some (Some (- ENOMEM), x, v)"
    by (simp add: WZ_DMA_NOFBUFS_def)
  from wz_alloc_all_or_nothing[OF z, of ?w] obtain rc e' w' l where
    r: "ioctl_do_wz_alloc_buffers zero_engine ?w = Some (rc, e', w')" "io w' = l" and
    c: "if rc = 0 then buf_ready (wz_ext e') \<and> kfifo (wz_ext e') = Some [] \<and> desc_copy (wz_ext e') \<noteq> None \<and>
       (\<forall>i < WZ_DMA_NOFBUFS. buf_page (wz_ext e') ! i \<noteq> 0 \<and> buf_dma_t (wz_ext e') ! i \<noteq> 0)
     else rc = - ENOMEM \<and> \<not> buf_ready (wz_ext e') \<and> desc_copy (wz_ext e') = None \<and>
       buf_page (wz_ext e') = replicate WZ_DMA_NOFBUFS 0 \<and> buf_dma_t (wz_ext e') = replicate WZ_DMA_NOFBUFS 0 \<and>
       sum_list (map pages_got l) = sum_list (map pages_freed l) \<and> sum_list (map maps_got l) = sum_list (map maps_freed l)"
    by auto
  from r(1) t have "rc = - ENOMEM"
    by (auto simp: ioctl_do_wz_alloc_buffers_def wz_alloc_err1_def bind_eq_Some_conv split_beta Let_def)
  with c r show ?thesis by auto
qed

text \<open>C18. Releasing the buffers gives back every page and every DMA mapping that is held, exactly once: what
  the slots held, with whatever the call itself would acquire, is what the call releases, and all
  slots are empty afterwards and the extension not ready.\<close>

theorem wz_free_releases_all:
  assumes "buf_ready (wz_ext e)" and "length (buf_page (wz_ext e)) = WZ_DMA_NOFBUFS" "length (buf_dma_t (wz_ext e)) = WZ_DMA_NOFBUFS"
  shows "\<exists>e' w' l. ioctl_do_wz_free_buffers e w = Some (0, e', w') \<and> io w' = io w @ l \<and>
    sum_list (map pages_freed l) = mset (filter (\<lambda>p. p \<noteq> 0) (buf_page (wz_ext e))) + sum_list (map pages_got l) \<and>
    sum_list (map maps_freed l) = mset (filter (\<lambda>p. p \<noteq> 0) (buf_dma_t (wz_ext e))) + sum_list (map maps_got l) \<and>
    \<not> buf_ready (wz_ext e') \<and> kfifo (wz_ext e') = None \<and> desc_copy (wz_ext e') = None \<and>
    buf_page (wz_ext e') = replicate WZ_DMA_NOFBUFS 0 \<and> buf_dma_t (wz_ext e') = replicate WZ_DMA_NOFBUFS 0"
proof -
  let ?HP = "mset (filter (\<lambda>p. p \<noteq> 0) (buf_page (wz_ext e)))" and ?HM = "mset (filter (\<lambda>p. p \<noteq> 0) (buf_dma_t (wz_ext e)))"
  have "bufs_ok ?HP ?HM (io w) (wz_ext e, w)"
    using assms by (auto simp: bufs_ok_def pg.balanced_def mp.balanced_def pg.held_def mp.held_def intro!: exI[of _ "[]"])
  from wz_free_loop[OF this] obtain w1 l where
    r: "for_range 0 WZ_DMA_NOFBUFS wz_free_one (wz_ext e, w) =
      Some ((wz_ext e)\<lparr>buf_page := replicate WZ_DMA_NOFBUFS 0, buf_dma_t := replicate WZ_DMA_NOFBUFS 0\<rparr>, w1)" "io w1 = io w @ l"
    "?HP + sum_list (map pages_got l) = sum_list (map pages_freed l)" "?HM + sum_list (map maps_got l) = sum_list (map maps_freed l)" by blast
  show ?thesis
  proof (cases "desc_copy (wz_ext e)")
    case None
    with r assms(1) show ?thesis
      by (simp add: ioctl_do_wz_free_buffers_def wz_free_copy_def call_void_def)
  next
    case (Some c)
    with r assms(1) show ?thesis
      by (cases c) (simp add: ioctl_do_wz_free_buffers_def wz_free_copy_def call_void_def)
  qed
qed

theorem wz_free_releases_all_witness:
  "\<exists>e' w'. ioctl_do_wz_free_buffers (zero_engine\<lparr>wz_ext := zero_ext\<lparr>buf_ready := True, buf_page := 7 # replicate 127 0\<rparr>\<rparr>) quiet_world
      = Some (0, e', w') \<and> sum_list (map pages_freed (io w')) = {#7#} + sum_list (map pages_got (io w')) \<and>
    buf_page (wz_ext e') = replicate WZ_DMA_NOFBUFS 0"
  using wz_free_releases_all[where e = "zero_engine\<lparr>wz_ext := zero_ext\<lparr>buf_ready := True, buf_page := 7 # replicate 127 0\<rparr>\<rparr>" and w = quiet_world]
  by (auto simp: zero_ext_def WZ_DMA_NOFBUFS_def)

text \<open>C38. A page fault in the mapping of the buffers inserts the page frame that holds the faulting byte:
  for an offset inside the 128 buffers it is the frame of buffer \<open>offset div 4 MiB\<close> plus the page index
  inside that buffer. One buffer further the range check lets the fault through although no such
  buffer exists, and the array of pages is read out of bounds; only beyond that the fault is refused.\<close>

theorem swz_mmap_fault_frame:
  assumes "length (buf_page ext) = WZ_DMA_NOFBUFS" and "unat (address - vm_start vma) = off" and "off < 2 ^ 40"
  shows "swz_mmap_fault pfn ext vma address w =
    (if off < 128 * 2 ^ 22 then
       Some (VM_FAULT_NOPAGE, emit (KV (C_vm_insert_pfn address
         (pfn (buf_page ext ! (off div 2 ^ 22)) + of_nat (off mod 2 ^ 22 div 4096)))) w)
     else if off < 129 * 2 ^ 22 then None else Some (- EFAULT, w))"
proof -
  have "address - vm_start vma = of_nat off" using assms(2) by (metis of_nat_unat ucast_id)
  then have s: "sint (address - vm_start vma) = int off"
    using assms(3) by (simp add: signed_of_nat signed_take_bit_int_eq_self)
  have b: "int off sdiv int WZ_DMA_BUFLEN = int (off div 2 ^ 22)"
    by (cases "off = 0") (simp_all add: signed_divide_int_def WZ_DMA_BUFLEN_def zdiv_int)
  have m: "int off - int (off div 2 ^ 22) * int WZ_DMA_BUFLEN = int (off mod 2 ^ 22)"
    by (simp add: WZ_DMA_BUFLEN_def minus_div_mult_eq_mod[symmetric] of_nat_mod of_nat_div)
  have d: "of_int (drop_bit 12 (int (off mod 2 ^ 22))) = (of_nat (off mod 2 ^ 22 div 4096) :: u64)"
  proof -
    have "drop_bit 12 (int n) = int (n div 4096)" for n by (simp add: drop_bit_eq_div zdiv_int)
    then show ?thesis by (simp only: of_int_of_nat_eq)
  qed
  have r: "swz_mmap_fault pfn ext vma address w =
    (if off div 2 ^ 22 > 128 then Some (- EFAULT, w) else do {
       buffer \<leftarrow> arr_get (buf_page ext) (off div 2 ^ 22);
       Some (VM_FAULT_NOPAGE, emit (KV (C_vm_insert_pfn address (pfn buffer + of_nat (off mod 2 ^ 22 div 4096)))) w) })"
    unfolding swz_mmap_fault_def s b m PAGE_SHIFT_def d Let_def by (simp add: WZ_DMA_NOFBUFS_def call_void_def)
  consider "off < 128 * 2 ^ 22" | "128 * 2 ^ 22 \<le> off" "off < 129 * 2 ^ 22" | "129 * 2 ^ 22 \<le> off" by linarith
  then show ?thesis
  proof cases
    case 1
    then have "off div 2 ^ 22 < 128" by (simp add: less_mult_imp_div_less)
    with 1 assms(1) show ?thesis by (simp add: r WZ_DMA_NOFBUFS_def)
  next
    case 2
    then have "off div 2 ^ 22 = 128" by (intro div_nat_eqI) auto
    with 2 assms(1) show ?thesis by (simp add: r WZ_DMA_NOFBUFS_def)
  next
    case 3
    then have "129 * 2 ^ 22 div 2 ^ 22 \<le> off div 2 ^ 22" by (rule div_le_mono)
    with 3 show ?thesis by (simp add: r)
  qed
qed

theorem swz_mmap_fault_frame_witness:
  "swz_mmap_fault (\<lambda>p. p) (zero_ext\<lparr>buf_page := replicate 127 0 @ [0x500]\<rparr>)
      \<lparr>vm_start = 0x1000, vm_end = 0, vm_pgoff = 0, vm_flags = 0, vm_ops = []\<rparr> 0x1FFFF000 quiet_world =
    Some (VM_FAULT_NOPAGE, emit (KV (C_vm_insert_pfn 0x1FFFF000 0x8fe)) quiet_world) \<and>
   swz_mmap_fault (\<lambda>p. p) (zero_ext\<lparr>buf_page := replicate 127 0 @ [0x500]\<rparr>)
      \<lparr>vm_start = 0x1000, vm_end = 0, vm_pgoff = 0, vm_flags = 0, vm_ops = []\<rparr> 0x20001000 quiet_world = None"
proof -
  let ?x = "zero_ext\<lparr>buf_page := replicate 127 0 @ [0x500]\<rparr>"
  let ?v = "\<lparr>vm_start = 0x1000, vm_end = 0, vm_pgoff = 0, vm_flags = 0, vm_ops = []\<rparr>"
  have l: "length (buf_page ?x) = WZ_DMA_NOFBUFS" by (simp add: WZ_DMA_NOFBUFS_def)
  show ?thesis
    using swz_mmap_fault_frame[OF l, of "0x1FFFF000" ?v "0x1FFFE000" "\<lambda>p. p" quiet_world]
      swz_mmap_fault_frame[OF l, of "0x20001000" ?v "0x20000000" "\<lambda>p. p" quiet_world]
    by (simp add: nth_append)
qed

end
