(* ===== verification/Xdma_Irq.thy ===== *)
theory Xdma_Irq
  imports Xdma_Engine
begin

text \<open>
  Interrupts, from \<^verbatim>\<open>xdma-core.c\<close>: the handlers for a shared (legacy or MSI) line and for per-source MSI-X
  vectors, the latch of user events, and requesting and releasing the interrupt lines.

  Waking the waiters of event \<open>i\<close> is the kernel call \<open>C_misc ''events_wq'' i\<close>; queueing the work item of
  the engine at channel \<open>c\<close>, direction \<open>d\<close> is \<open>C_schedule_work c d\<close>.
\<close>

section \<open>Handlers\<close>

definition user_irq_service :: "nat \<Rightarrow> xdma_dev \<Rightarrow> world \<Rightarrow> (xdma_dev \<times> world) option" where
  "user_irq_service i lro w = do {
     latched \<leftarrow> arr_get (user_irq lro) i;
     if \<not> latched then Some (lro\<lparr>user_irq := (user_irq lro)[i := True]\<rparr>, call_void (C_misc ''events_wq'' i) w)
     else Some (lro, w) }"

definition isr_user :: "u32 \<Rightarrow> nat \<Rightarrow> xdma_dev \<times> world \<Rightarrow> (xdma_dev \<times> world) option" where
  "isr_user req i s = (case s of (lro, w) \<Rightarrow>
     if req AND push_bit i 1 \<noteq> 0 then user_irq_service i lro w else Some (lro, w))"

definition isr_engine :: "xdma_dev \<Rightarrow> u32 \<Rightarrow> nat \<Rightarrow> nat \<Rightarrow> world \<Rightarrow> world option" where
  "isr_engine lro ch_irq d ch w = (case engine lro ch d of
     None \<Rightarrow> Some w
   | Some e \<Rightarrow> Some (if irq_bitmask e AND ch_irq \<noteq> 0 then call_void (C_schedule_work ch d) w else w))"

definition xdma_isr :: "xdma_dev \<Rightarrow> world \<Rightarrow> (xdma_dev \<times> world) option" where
  "xdma_isr lro w = do {
     req \<leftarrow> int_ctrl lro I_channel_int_request;
     let (ch_irq, w) = read_register req w;
     w \<leftarrow> channel_interrupts_disable lro ch_irq w;
     ureq \<leftarrow> int_ctrl lro I_user_int_request;
     let (u_irq, w) = read_register ureq w;
     (lro, w) \<leftarrow> for_range 0 MAX_USER_IRQ (isr_user u_irq) (lro, w);
     w \<leftarrow> for_range 0 XDMA_CHANNEL_NUM_MAX (isr_engine lro ch_irq 0) w;
     w \<leftarrow> for_range 0 XDMA_CHANNEL_NUM_MAX (isr_engine lro ch_irq 1) w;
     Some (lro\<lparr>irq_count := irq_count lro + 1\<rparr>, w) }"

definition xdma_user_irq :: "nat \<Rightarrow> xdma_dev \<Rightarrow> world \<Rightarrow> (xdma_dev \<times> world) option" where
  "xdma_user_irq i lro w = user_irq_service i lro w"

text \<open>The MSI-X handler of one engine remembers the enabled interrupts of the engine and disables them;
  the work item enables them again.\<close>

definition xdma_channel_irq :: "xdma_engine \<Rightarrow> xdma_dev \<Rightarrow> world \<Rightarrow> (xdma_engine \<times> xdma_dev \<times> world) option" where
  "xdma_channel_irq e lro w = do {
     let (v, w) = read_register (regs e + er R_interrupt_enable_mask) w;
     let e = e\<lparr>interrupt_enable_mask_value := v\<rparr>;
     let w = write_register v (regs e + er R_interrupt_enable_mask_w1c) w;
     pend \<leftarrow> int_ctrl lro I_channel_int_pending;
     let (_, w) = read_register pend w;
     let w = call_void (C_schedule_work (channel e) (number_in_channel e)) w;
     Some (e, lro\<lparr>irq_count := irq_count lro + 1\<rparr>, w) }"

section \<open>Lines and vectors\<close>

definition build_vector_reg :: "u32 \<Rightarrow> u32 \<Rightarrow> u32 \<Rightarrow> u32 \<Rightarrow> u32" where
  "build_vector_reg a b c d = (a AND 0x1f) OR push_bit 8 (b AND 0x1f) OR push_bit 16 (c AND 0x1f) OR push_bit 24 (d AND 0x1f)"

definition write_msix_vectors :: "xdma_dev \<Rightarrow> world \<Rightarrow> world option" where
  "write_msix_vectors lro w = do {
     u \<leftarrow> int_ctrl lro I_user_msi_vector;
     c \<leftarrow> int_ctrl lro I_channel_msi_vector;
     let w = write_register (build_vector_reg 0 1 2 3) u w;
     let w = write_register (build_vector_reg 4 5 6 7) (u + 4) w;
     let w = write_register (build_vector_reg 8 9 10 11) (u + 8) w;
     let w = write_register (build_vector_reg 12 13 14 15) (u + 12) w;
     let w = write_register (build_vector_reg 16 17 18 19) c w;
     Some (write_register (build_vector_reg 20 21 22 23) (c + 4) w) }"

definition msix_request_one :: "xdma_dev \<Rightarrow> nat \<Rightarrow> world \<Rightarrow> ((nat \<times> int) option \<times> world) option" where
  "msix_request_one lro i w = do {
     v \<leftarrow> arr_get (entry_vector lro) i;
     let (rc, w) = call_int (C_request_irq v) w;
     Some (if rc \<noteq> 0 then Some (i, rc) else None, w) }"

text \<open>\<^verbatim>\<open>while (--i >= 0) free_irq(lro->entry[i].vector, ...)\<close>.\<close>

fun free_irqs_below :: "xdma_dev \<Rightarrow> nat \<Rightarrow> world \<Rightarrow> world option" where
  "free_irqs_below lro 0 w = Some w"
| "free_irqs_below lro (Suc i) w = do {
     v \<leftarrow> arr_get (entry_vector lro) i;
     free_irqs_below lro i (call_void (C_free_irq v) w) }"

definition msix_irq_setup :: "xdma_dev \<Rightarrow> world \<Rightarrow> (int \<times> world) option" where
  "msix_irq_setup lro w = do {
     w \<leftarrow> write_msix_vectors lro w;
     (r, w) \<leftarrow> for_try 0 MAX_USER_IRQ (msix_request_one lro) w;
     (case r of
        None \<Rightarrow> Some (0, w)
      | Some (i, rc) \<Rightarrow> do { w \<leftarrow> free_irqs_below lro i w; Some (rc, w) }) }"

definition irq_teardown :: "xdma_dev \<Rightarrow> world \<Rightarrow> world option" where
  "irq_teardown lro w =
    (if msix_enabled lro then
       for_range 0 MAX_USER_IRQ (\<lambda>i w. do {
         v \<leftarrow> arr_get (entry_vector lro) i; Some (call_void (C_free_irq v) w) }) w
     else if irq_line lro \<noteq> -1 then Some (call_void (C_free_irq (of_int (irq_line lro))) w)
     else Some w)"

text \<open>\<open>pdev_irq\<close> is the line the PCI core assigned.\<close>

definition irq_setup :: "u32 \<Rightarrow> xdma_dev \<Rightarrow> world \<Rightarrow> (int \<times> xdma_dev \<times> world) option" where
  "irq_setup pdev_irq lro w =
    (if msix_enabled lro then do { (rc, w) \<leftarrow> msix_irq_setup lro w; Some (rc, lro, w) }
     else do {
       w \<leftarrow> (if \<not> msi_enabled lro then do {
               let (pin, w) = call_int (C_cfg_read 0x3d) w;
               let val = (of_int pin :: u8);
               if val > 1 then do {
                 let v = (ucast (val - 1) :: u32);
                 let x = push_bit 24 v OR push_bit 16 v OR push_bit 8 v OR v;
                 b \<leftarrow> config_bar lro;
                 let w = write_register x (b + 0x2080) w;
                 let w = write_register x (b + 0x2084) w;
                 let w = write_register x (b + 0x2088) w;
                 let w = write_register x (b + 0x208C) w;
                 let w = write_register x (b + 0x20A0) w;
                 Some (write_register x (b + 0x20A4) w)
               } else Some w
             } else Some w);
       let lro = lro\<lparr>irq_line := sint pdev_irq\<rparr>;
       let (rc, w) = call_int (C_request_irq pdev_irq) w;
       Some (rc, lro, w) })"

section \<open>What a handler does\<close>

lemma for_range_Suc_right: "for_range i (Suc n) f s = do { s' \<leftarrow> for_range i n f s; f (i + n) s' }"
  using for_range_append[of i n 1 f s] by (cases "for_range i n f s") (auto split: bind_splits)

lemma bit_of_mask: "req AND push_bit i 1 \<noteq> 0 \<longleftrightarrow> bit req i" for req :: u32
proof
  assume "req AND push_bit i 1 \<noteq> 0"
  then obtain n where "bit (req AND push_bit i 1) n" using bit_eq_iff[of "req AND push_bit i 1" 0] by auto
  then show "bit req i" by (auto simp: bit_simps)
next
  assume "bit req i"
  then have "bit (req AND push_bit i 1) i" by (auto simp: bit_simps dest: bit_imp_le_length)
  then show "req AND push_bit i 1 \<noteq> 0" by auto
qed

lemma isr_user_eq:
  assumes "i < length (user_irq lro)"
  shows "isr_user req i (lro, w) =
    (if bit req i \<and> \<not> user_irq lro ! i
     then Some (lro\<lparr>user_irq := (user_irq lro)[i := True]\<rparr>, w\<lparr>io := io w @ [KV (C_misc ''events_wq'' i)]\<rparr>) else Some (lro, w))"
  unfolding isr_user_def bit_of_mask using assms by (simp add: user_irq_service_def call_void_def emit_def)

lemma user_loop:
  assumes "length (user_irq lro) = MAX_USER_IRQ" and "k \<le> MAX_USER_IRQ"
  shows "for_range 0 k (isr_user req) (lro, w) =
    Some (lro\<lparr>user_irq := map (\<lambda>i. user_irq lro ! i \<or> (i < k \<and> bit req i)) [0..<MAX_USER_IRQ]\<rparr>,
      w\<lparr>io := io w @ map (\<lambda>i. KV (C_misc ''events_wq'' i)) (filter (\<lambda>i. bit req i \<and> \<not> user_irq lro ! i) [0..<k])\<rparr>)"
  using assms(2)
proof (induction k)
  case 0
  have "map (\<lambda>i. user_irq lro ! i) [0..<MAX_USER_IRQ] = user_irq lro"
    using assms(1) by (metis map_nth)
  then show ?case by simp
next
  case (Suc k)
  let ?L = "\<lambda>k. map (\<lambda>i. user_irq lro ! i \<or> (i < k \<and> bit req i)) [0..<MAX_USER_IRQ]"
  have k: "k < MAX_USER_IRQ" using Suc.prems by simp
  have L: "(?L k)[k := True] = ?L (Suc k)" if "bit req k"
    using that Suc.prems by (intro nth_equalityI) (auto simp: nth_list_update less_Suc_eq)
  have L': "?L k = ?L (Suc k)" if "\<not> (bit req k \<and> \<not> user_irq lro ! k)"
    using that by (auto simp: less_Suc_eq)
  show ?case
    unfolding for_range_Suc_right Suc.IH[OF less_imp_le[OF k]] Option.bind.simps(2) add_0
    using k L L' by (subst isr_user_eq) auto
qed

lemma engine_loop:
  "for_range 0 k (isr_engine lro req d) w = Some (w\<lparr>io := io w @ map (\<lambda>c. KV (C_schedule_work c d))
     (filter (\<lambda>c. \<exists>e. engine lro c d = Some e \<and> irq_bitmask e AND req \<noteq> 0) [0..<k])\<rparr>)"
proof (induction k)
  case 0
  then show ?case by simp
next
  case (Suc k)
  show ?case
    unfolding for_range_Suc_right Suc.IH Option.bind.simps(2) add_0
    by (auto simp: isr_engine_def call_void_def emit_def split: option.splits)
qed

text \<open>
  C21. The interrupt handler disables exactly the channel interrupts that fired before it looks at
  anything else, latches exactly the user events that were raised (keeping those already latched) and
  wakes the readers of the newly latched ones, and schedules the work of exactly the engines whose
  interrupt fired, once each.
\<close>

theorem xdma_isr_dispatches:
  assumes "config_bar lro = Some b" and "length (user_irq lro) = MAX_USER_IRQ"
    and "\<And>l. hw w l (b + XDMA_OFS_INT_CTRL + ir I_channel_int_request) = ch"
    and "\<And>l. hw w l (b + XDMA_OFS_INT_CTRL + ir I_user_int_request) = u"
  shows "xdma_isr lro w = Some (lro\<lparr>irq_count := irq_count lro + 1,
      user_irq := map (\<lambda>i. user_irq lro ! i \<or> bit u i) [0..<MAX_USER_IRQ]\<rparr>,
    w\<lparr>io := io w @
       [Rd (b + XDMA_OFS_INT_CTRL + ir I_channel_int_request) ch, Wr (b + XDMA_OFS_INT_CTRL + ir I_channel_int_enable_w1c) ch,
        Rd (b + XDMA_OFS_INT_CTRL + ir I_user_int_request) u] @
       map (\<lambda>i. KV (C_misc ''events_wq'' i)) (filter (\<lambda>i. bit u i \<and> \<not> user_irq lro ! i) [0..<MAX_USER_IRQ]) @
       concat (map (\<lambda>d. map (\<lambda>c. KV (C_schedule_work c d))
         (filter (\<lambda>c. \<exists>e. engine lro c d = Some e \<and> irq_bitmask e AND ch \<noteq> 0) [0..<XDMA_CHANNEL_NUM_MAX])) [0, 1])\<rparr>)"
proof -
  have "map (\<lambda>i. user_irq lro ! i \<or> (i < MAX_USER_IRQ \<and> bit u i)) [0..<MAX_USER_IRQ] =
      map (\<lambda>i. user_irq lro ! i \<or> bit u i) [0..<MAX_USER_IRQ]" by auto
  then show ?thesis
    using user_loop[OF assms(2) order_refl, of u] assms(1,3,4)
    by (simp add: xdma_isr_def int_ctrl_def channel_interrupts_disable_def read_register_def write_register_def emit_def
        engine_loop Let_def)
qed

definition demo_irq_dev :: xdma_dev where
  "demo_irq_dev = zero_dev\<lparr>bar := [0x10000, 0, 0, 0, 0, 0],
     engine := (\<lambda>c d. if c = 0 \<and> d = 0 then Some (zero_engine\<lparr>irq_bitmask := 1\<rparr>)
                      else if c = 0 \<and> d = 1 then Some (zero_engine\<lparr>irq_bitmask := 2\<rparr>) else None)\<rparr>"

theorem xdma_isr_dispatches_witness:
  "\<exists>w'. xdma_isr demo_irq_dev (quiet_world\<lparr>hw := \<lambda>_ a. if a = 0x12000 + ir I_channel_int_request then 2 else 0\<rparr>) =
      Some (demo_irq_dev\<lparr>irq_count := 1\<rparr>, w') \<and>
     KV (C_schedule_work 0 1) \<in> set (io w') \<and> KV (C_schedule_work 0 0) \<notin> set (io w')"
proof -
  let ?w = "quiet_world\<lparr>hw := \<lambda>_ a. if a = 0x12000 + ir I_channel_int_request then 2 else 0\<rparr>"
  have b: "config_bar demo_irq_dev = Some 0x10000" by (simp add: config_bar_def demo_irq_dev_def zero_dev_def)
  have ul: "user_irq demo_irq_dev = replicate 16 False" "irq_count demo_irq_dev = 0"
    by (simp_all add: demo_irq_dev_def zero_dev_def)
  have same: "map (\<lambda>i. user_irq demo_irq_dev ! i \<or> bit (0 :: u32) i) [0..<MAX_USER_IRQ] = user_irq demo_irq_dev"
    unfolding ul by (rule nth_equalityI) (auto simp: MAX_USER_IRQ_def)
  have e: "engine demo_irq_dev 0 1 = Some (zero_engine\<lparr>irq_bitmask := 2\<rparr>)" "engine demo_irq_dev 0 0 = Some (zero_engine\<lparr>irq_bitmask := 1\<rparr>)"
    by (simp_all add: demo_irq_dev_def)
  show ?thesis
    using xdma_isr_dispatches[OF b, of ?w 2 0] unfolding same
    by (simp add: ul MAX_USER_IRQ_def XDMA_OFS_INT_CTRL_def XDMA_CHANNEL_NUM_MAX_def e image_def)
      (simp add: demo_irq_dev_def)
qed

lemma free_below_log:
  "n \<le> length (entry_vector lro) \<Longrightarrow> free_irqs_below lro n w =
    Some (w\<lparr>io := io w @ map (\<lambda>i. KV (C_free_irq (entry_vector lro ! i))) (rev [0..<n])\<rparr>)"
  by (induction n arbitrary: w) (simp_all add: call_void_def emit_def)

lemma request_loop:
  assumes "k + n \<le> length (entry_vector lro)"
  defines "ok \<equiv> \<lambda>j. KI (C_request_irq (entry_vector lro ! j)) 0"
  shows "(\<exists>w'. for_try k n (msix_request_one lro) w = Some (None, w') \<and> io w' = io w @ map ok [k..<k + n]) \<or>
    (\<exists>i rc w'. k \<le> i \<and> i < k + n \<and> rc \<noteq> 0 \<and> for_try k n (msix_request_one lro) w = Some (Some (i, rc), w') \<and>
       io w' = io w @ map ok [k..<i] @ [KI (C_request_irq (entry_vector lro ! i)) rc])"
  using assms(1)
proof (induction n arbitrary: k w)
  case 0
  then show ?case by simp
next
  case (Suc n)
  let ?c = "C_request_irq (entry_vector lro ! k)"
  let ?rc = "kint w (io w) ?c"
  let ?w = "emit (KI ?c ?rc) w"
  have one: "msix_request_one lro k w = Some (if ?rc \<noteq> 0 then Some (k, ?rc) else None, ?w)"
    using Suc.prems by (simp add: msix_request_one_def call_int_def Let_def)
  show ?case
  proof (cases "?rc = 0")
    case True
    then have step: "for_try k (Suc n) (msix_request_one lro) w = for_try (Suc k) n (msix_request_one lro) ?w"
      by (simp add: one)
    have cons: "io ?w @ map ok [Suc k..<m] = io w @ map ok [k..<m]" if "k < m" for m
      using that True by (simp add: ok_def upt_conv_Cons)
    have pre: "Suc k + n \<le> length (entry_vector lro)" using Suc.prems by simp
    from Suc.IH[OF pre, of ?w] show ?thesis
    proof (elim disjE exE conjE)
      fix w' assume "for_try (Suc k) n (msix_request_one lro) ?w = Some (None, w')" "io w' = io ?w @ map ok [Suc k..<Suc k + n]"
      then show ?thesis using step cons[of "k + Suc n"] by auto
    next
      fix i rc w' assume "Suc k \<le> i" "i < Suc k + n" "rc \<noteq> 0" "for_try (Suc k) n (msix_request_one lro) ?w = Some (Some (i, rc), w')"
        "io w' = io ?w @ map ok [Suc k..<i] @ [KI (C_request_irq (entry_vector lro ! i)) rc]"
      moreover have "io ?w @ map ok [Suc k..<i] = io w @ map ok [k..<i]" using cons \<open>Suc k \<le> i\<close> by simp
      ultimately show ?thesis using step
        by (intro disjI2 exI[of _ i] exI[of _ rc] exI[of _ w']) (simp add: append_assoc[symmetric] del: append_assoc)
    qed
  next
    case False
    then show ?thesis by (intro disjI2 exI[of _ k] exI[of _ ?rc] exI[of _ ?w]) (simp add: one)
  qed
qed

text \<open>The register writes that assign vectors to interrupt sources.\<close>

definition vector_log :: "u64 \<Rightarrow> io list" where
  "vector_log b =
    map (\<lambda>k. Wr (b + XDMA_OFS_INT_CTRL + ir I_user_msi_vector + of_nat (4 * k))
               (build_vector_reg (of_nat (4 * k)) (of_nat (4 * k + 1)) (of_nat (4 * k + 2)) (of_nat (4 * k + 3)))) [0..<4] @
    map (\<lambda>k. Wr (b + XDMA_OFS_INT_CTRL + ir I_channel_msi_vector + of_nat (4 * k))
               (build_vector_reg (of_nat (16 + 4 * k)) (of_nat (17 + 4 * k)) (of_nat (18 + 4 * k)) (of_nat (19 + 4 * k)))) [0..<2]"

lemma write_msix_vectors_log:
  "config_bar lro = Some b \<Longrightarrow> write_msix_vectors lro w = Some (w\<lparr>io := io w @ vector_log b\<rparr>)"
  by (simp add: write_msix_vectors_def vector_log_def int_ctrl_def write_register_def emit_def Let_def upt_rec)

text \<open>
  C22. Requesting the sixteen user interrupt lines is all or nothing: when a request fails, exactly the
  lines granted before it are released again, in reverse order, and its error is returned.
\<close>

theorem msix_irq_setup_all_or_nothing:
  assumes "config_bar lro = Some b" and "MAX_USER_IRQ \<le> length (entry_vector lro)"
  shows "\<exists>i rc w'. msix_irq_setup lro w = Some (rc, w') \<and> i \<le> MAX_USER_IRQ \<and> (rc = 0 \<longleftrightarrow> i = MAX_USER_IRQ) \<and>
    io w' = io w @ vector_log b @ map (\<lambda>j. KI (C_request_irq (entry_vector lro ! j)) 0) [0..<i] @
      (if rc = 0 then []
       else KI (C_request_irq (entry_vector lro ! i)) rc # map (\<lambda>j. KV (C_free_irq (entry_vector lro ! j))) (rev [0..<i]))"
proof -
  let ?w = "w\<lparr>io := io w @ vector_log b\<rparr>"
  note unf = msix_irq_setup_def write_msix_vectors_log[OF assms(1)]
  have pre: "0 + MAX_USER_IRQ \<le> length (entry_vector lro)" using assms(2) by simp
  from request_loop[OF pre, of ?w] show ?thesis
  proof (elim disjE exE conjE)
    fix w' assume "for_try 0 MAX_USER_IRQ (msix_request_one lro) ?w = Some (None, w')"
      "io w' = io ?w @ map (\<lambda>j. KI (C_request_irq (entry_vector lro ! j)) 0) [0..<0 + MAX_USER_IRQ]"
    then show ?thesis by (intro exI[of _ MAX_USER_IRQ] exI[of _ 0] exI[of _ w']) (simp add: unf)
  next
    fix i rc w' assume i: "i < 0 + MAX_USER_IRQ" and r: "rc \<noteq> 0" "for_try 0 MAX_USER_IRQ (msix_request_one lro) ?w = Some (Some (i, rc), w')"
      "io w' = io ?w @ map (\<lambda>j. KI (C_request_irq (entry_vector lro ! j)) 0) [0..<i] @ [KI (C_request_irq (entry_vector lro ! i)) rc]"
    then show ?thesis
      using free_below_log[of i lro w'] assms(2)
      by (intro exI[of _ i] exI[of _ rc] exI[of _ "w'\<lparr>io := io w' @ map (\<lambda>j. KV (C_free_irq (entry_vector lro ! j))) (rev [0..<i])\<rparr>"])
        (simp add: unf)
  qed
qed

text \<open>A kernel that refuses the third line.\<close>

definition demo_msix_dev :: xdma_dev where
  "demo_msix_dev = demo_irq_dev\<lparr>entry_vector := map of_nat [40..<72]\<rparr>"

definition demo_refuses :: world where
  "demo_refuses = quiet_world\<lparr>kint := \<lambda>_ c. if c = C_request_irq 42 then -16 else 0\<rparr>"

theorem msix_irq_setup_all_or_nothing_witness:
  "\<exists>i rc w'. msix_irq_setup demo_msix_dev demo_refuses = Some (rc, w') \<and>
    i \<le> MAX_USER_IRQ \<and> (rc = 0 \<longleftrightarrow> i = MAX_USER_IRQ) \<and>
    io w' = io demo_refuses @ vector_log 0x10000 @ map (\<lambda>j. KI (C_request_irq (entry_vector demo_msix_dev ! j)) 0) [0..<i] @
      (if rc = 0 then []
       else KI (C_request_irq (entry_vector demo_msix_dev ! i)) rc #
         map (\<lambda>j. KV (C_free_irq (entry_vector demo_msix_dev ! j))) (rev [0..<i]))"
  by (rule msix_irq_setup_all_or_nothing)
    (simp_all add: config_bar_def demo_msix_dev_def demo_irq_dev_def zero_dev_def MAX_USER_IRQ_def)

text \<open>The vector of source \<open>k\<close> in a vector register.\<close>

definition vector_of :: "u32 \<Rightarrow> nat \<Rightarrow> u32" where
  "vector_of r k = drop_bit (8 * k) r AND 0x1f"

text \<open>
  The vector registers decode to what was encoded: source \<open>k\<close> of a register of four sources is read
  back from its byte. So user interrupt \<open>i\<close> uses vector \<open>i\<close> and channel \<open>j\<close> uses vector \<open>16 + j\<close>.
\<close>

theorem build_vector_reg_fields:
  assumes "a < 32" and "b < 32" and "c < 32" and "d < 32"
  shows "map (vector_of (build_vector_reg a b c d)) [0, 1, 2, 3] = [a, b, c, d]"
proof -
  have m: "(0x1f :: u32) = mask 5" by (simp add: mask_eq_exp_minus_1)
  have small: "x AND mask 5 = x" if "x < 32" for x :: u32
    using that by (simp add: take_bit_eq_mask[symmetric] word_unat_eq_iff unsigned_take_bit_eq take_bit_nat_eq_self word_less_nat_alt)
  have lo: "n < 5" if "bit x n" "x < 32" for x :: u32 and n
    using small[OF that(2)] that(1) by (metis bit_and_iff bit_mask_iff)
  let ?r = "a OR push_bit 8 b OR push_bit 16 c OR push_bit 24 d"
  have r: "build_vector_reg a b c d = ?r" unfolding build_vector_reg_def m using assms by (simp add: small)
  have "vector_of ?r 0 = a" unfolding vector_of_def m
    by (rule bit_word_eqI) (use assms in \<open>auto simp: bit_simps dest: lo\<close>)
  moreover have "vector_of ?r 1 = b" unfolding vector_of_def m
    by (rule bit_word_eqI) (use assms in \<open>auto simp: bit_simps dest: lo\<close>)
  moreover have "vector_of ?r 2 = c" unfolding vector_of_def m
    by (rule bit_word_eqI) (use assms in \<open>auto simp: bit_simps dest: lo\<close>)
  moreover have "vector_of ?r 3 = d" unfolding vector_of_def m
    by (rule bit_word_eqI) (use assms in \<open>auto simp: bit_simps dest: lo\<close>)
  ultimately show ?thesis unfolding r by simp
qed

theorem build_vector_reg_fields_witness:
  "map (vector_of (build_vector_reg 16 17 18 19)) [0, 1, 2, 3] = [16, 17, 18, 19]"
  by (rule build_vector_reg_fields) simp_all

end
