(* ===== verification/Xdma_Setup.thy ===== *)
theory Xdma_Setup
  imports Xdma_Irq Accounting
begin

text \<open>
  Bringing a device up, first part, from \<^verbatim>\<open>xdma-core.c\<close>: mapping and identifying the BARs, MSI and DMA
  capabilities, and the engines: creating, finding and removing them.

  What the PCI core knows of the device is a record: the bus flags up to the root, the resources and
  the interrupt line. An engine belongs to the table of its device.
\<close>

record pci_dev =
  no_msi :: bool
  bus_no_msi :: "bool list"
  res_start :: "nat \<Rightarrow> u64"
  res_len :: "nat \<Rightarrow> u64"
  pdev_irq :: u32

section \<open>BARs\<close>

definition unmap_one :: "nat \<Rightarrow> xdma_dev \<times> world \<Rightarrow> (xdma_dev \<times> world) option" where
  "unmap_one i s = (case s of (lro, w) \<Rightarrow> do {
     p \<leftarrow> arr_get (bar lro) i;
     if p \<noteq> 0 then Some (lro\<lparr>bar := (bar lro)[i := 0]\<rparr>, call_void (C_pci_iounmap p) w)
     else Some (lro, w) })"

definition unmap_bars :: "xdma_dev \<Rightarrow> world \<Rightarrow> (xdma_dev \<times> world) option" where
  "unmap_bars lro w = for_range 0 XDMA_BAR_NUM unmap_one (lro, w)"

definition INT_MAX :: u64 where [const_defs]: "INT_MAX = 0x7fffffff"

definition map_single_bar :: "pci_dev \<Rightarrow> nat \<Rightarrow> xdma_dev \<Rightarrow> world \<Rightarrow> (int \<times> xdma_dev \<times> world) option" where
  "map_single_bar dev idx lro w = do {
     let bar_len = res_len dev idx;
     bs \<leftarrow> arr_set (bar lro) idx 0;
     let lro = lro\<lparr>bar := bs\<rparr>;
     if bar_len = 0 then Some (0, lro, w)
     else do {
       let map_len = (if bar_len > INT_MAX then INT_MAX else bar_len);
       let (p, w) = call_ptr (C_pci_iomap idx (unat map_len)) w;
       let lro = lro\<lparr>bar := bs[idx := p]\<rparr>;
       Some (if p = 0 then -1 else int (unat map_len), lro, w) } }"

definition is_config_bar :: "nat \<Rightarrow> xdma_dev \<Rightarrow> world \<Rightarrow> (bool \<times> world) option" where
  "is_config_bar idx lro w = do {
     b \<leftarrow> arr_get (bar lro) idx;
     let (irq_id, w) = read_register (b + XDMA_OFS_INT_CTRL + ir I_identifier) w;
     let (cfg_id, w) = read_register (b + XDMA_OFS_CONFIG) w;
     Some (irq_id AND 0xffff0000 = IRQ_BLOCK_ID \<and> cfg_id AND 0xffff0000 = CONFIG_BLOCK_ID, w) }"

definition identify_bars :: "nat list \<Rightarrow> nat \<Rightarrow> xdma_dev \<Rightarrow> xdma_dev" where
  "identify_bars bar_id_list config_bar_pos lro =
    (case bar_id_list of
       [a, b] \<Rightarrow> if config_bar_pos = 0 then lro\<lparr>bypass_bar_idx := int b\<rparr>
                else if config_bar_pos = 1 then lro\<lparr>user_bar_idx := int a\<rparr> else lro
     | [a, b, c] \<Rightarrow> if config_bar_pos = 1 then lro\<lparr>user_bar_idx := int a, bypass_bar_idx := int c\<rparr> else lro
     | _ \<Rightarrow> lro)"

text \<open>One round of the loop of \<^verbatim>\<open>map_bars\<close>; the list holds the present BARs in order.\<close>

definition map_bar_step ::
  "pci_dev \<Rightarrow> nat \<Rightarrow> xdma_dev \<times> nat list \<times> nat \<times> world \<Rightarrow> (int option \<times> xdma_dev \<times> nat list \<times> nat \<times> world) option" where
  "map_bar_step dev i s = (case s of (lro, ids, pos, w) \<Rightarrow> do {
     (bar_len, lro, w) \<leftarrow> map_single_bar dev i lro w;
     if bar_len = 0 then Some (None, lro, ids, pos, w)
     else if bar_len < 0 then Some (Some (-1), lro, ids, pos, w)
     else do {
       (lro, pos, w) \<leftarrow> (if bar_len \<ge> int XDMA_BAR_SIZE \<and> config_bar_idx lro < 0 then do {
            (f, w) \<leftarrow> is_config_bar i lro w;
            Some (if f then (lro\<lparr>config_bar_idx := int i\<rparr>, length ids, w) else (lro, pos, w))
          } else Some (lro, pos, w));
       Some (None, lro, ids @ [i], pos, w) } })"

definition map_bars :: "pci_dev \<Rightarrow> xdma_dev \<Rightarrow> world \<Rightarrow> (int \<times> xdma_dev \<times> world) option" where
  "map_bars dev lro w = do {
     (r, lro, ids, pos, w) \<leftarrow> for_try 0 XDMA_BAR_NUM (map_bar_step dev) (lro, [], 0, w);
     if r \<noteq> None \<or> config_bar_idx lro < 0 then do {
       (lro, w) \<leftarrow> unmap_bars lro w;
       Some (-1, lro, w)
     } else Some (0, identify_bars ids pos lro, w) }"

section \<open>Capabilities\<close>

definition PCI_CAP_ID_MSI :: nat where "PCI_CAP_ID_MSI = 5"
definition PCI_CAP_ID_MSIX :: nat where "PCI_CAP_ID_MSIX = 17"

definition msi_msix_capable :: "pci_dev \<Rightarrow> nat \<Rightarrow> world \<Rightarrow> bool \<times> world" where
  "msi_msix_capable dev type w =
    (if no_msi dev \<or> True \<in> set (bus_no_msi dev) then (False, w)
     else case call_int (C_misc ''pci_find_capability'' type) w of (r, w) \<Rightarrow> (r \<noteq> 0, w))"

definition alloc_dev_instance :: "world \<Rightarrow> xdma_dev option \<times> world" where
  "alloc_dev_instance w = (case call_ptr (C_kzalloc ''xdma_dev'') w of (p, w) \<Rightarrow>
     if p = 0 then (None, w)
     else (Some (zero_dev\<lparr>dev_magic := MAGIC_DEVICE, config_bar_idx := -1, user_bar_idx := -1, bypass_bar_idx := -1,
                   irq_line := -1\<rparr>), w))"

text \<open>On success \<^verbatim>\<open>pci_enable_msix\<close> fills in the vectors.\<close>

definition probe_scan_for_msi :: "pci_dev \<Rightarrow> xdma_dev \<Rightarrow> world \<Rightarrow> int \<times> xdma_dev \<times> world" where
  "probe_scan_for_msi dev lro w =
    (let (x, w) = msi_msix_capable dev PCI_CAP_ID_MSIX w in
     if x then
       let (rc, w) = call_int (C_pci ''pci_enable_msix'') w;
           vs = map (\<lambda>i. ucast (kptr w (io w) (C_misc ''vector'' i))) [0..<MAX_NUM_ENGINES + MAX_USER_IRQ]
       in (rc, lro\<lparr>entry_vector := vs @ drop (MAX_NUM_ENGINES + MAX_USER_IRQ) (entry_vector lro), msix_enabled := True\<rparr>, w)
     else
       let (m, w) = msi_msix_capable dev PCI_CAP_ID_MSI w in
       if m then let (rc, w) = call_int (C_pci ''pci_enable_msi'') w in (rc, lro\<lparr>msi_enabled := True\<rparr>, w)
       else (0, lro, w))"

definition request_regions :: "xdma_dev \<Rightarrow> world \<Rightarrow> int \<times> xdma_dev \<times> world" where
  "request_regions lro w = (case call_int (C_pci ''pci_request_regions'') w of (rc, w) \<Rightarrow>
     (rc, if rc \<noteq> 0 then lro\<lparr>regions_in_use := True\<rparr> else lro\<lparr>got_regions := True\<rparr>, w))"

definition set_dma_mask :: "world \<Rightarrow> int \<times> world" where
  "set_dma_mask w =
    (let (a, w) = call_int (C_pci_mask ''dma'' 64) w in
     if a = 0 then
       let (b, w) = call_int (C_pci_mask ''consistent'' 64) w in
       if b = 0 then (0, w) else (0, snd (call_int (C_pci_mask ''consistent'' 32) w))
     else
       let (b, w) = call_int (C_pci_mask ''dma'' 32) w in
       if b = 0 then (0, snd (call_int (C_pci_mask ''consistent'' 32) w)) else (-1, w))"

definition enable_credit_feature :: "xdma_dev \<Rightarrow> world \<Rightarrow> world option" where
  "enable_credit_feature lro w = do {
     b \<leftarrow> config_bar lro;
     Some (write_register 0xF0000 (b + of_nat (6 * TARGET_SPACING) + 0x24) w) }"

section \<open>Engines\<close>

definition engine_alignments :: "xdma_engine \<Rightarrow> world \<Rightarrow> xdma_engine \<times> world" where
  "engine_alignments e w = (case read_register (regs e + er R_alignments) w of (v, w) \<Rightarrow>
     (if v \<noteq> 0 then e\<lparr>addr_align := drop_bit 16 (v AND 0x00ff0000), len_granularity := drop_bit 8 (v AND 0x0000ff00),
                      addr_bits := v AND 0x000000ff\<rparr>
      else e\<lparr>addr_align := 1, len_granularity := 1, addr_bits := 64\<rparr>, w))"

definition engine_msix_teardown :: "xdma_engine \<Rightarrow> world \<Rightarrow> world" where
  "engine_msix_teardown e w = (if msix_irq_line e \<noteq> 0 then call_void (C_free_irq (msix_irq_line e)) w else w)"

definition engine_msix_setup :: "xdma_dev \<Rightarrow> xdma_engine \<Rightarrow> world \<Rightarrow> (int \<times> xdma_engine \<times> world) option" where
  "engine_msix_setup lro e w = do {
     v \<leftarrow> arr_get (entry_vector lro) (engines_num lro + MAX_USER_IRQ);
     let (rc, w) = call_int (C_request_irq v) w;
     Some (rc, if rc \<noteq> 0 then e else e\<lparr>msix_irq_line := v\<rparr>, w) }"

definition engine_writeback_teardown :: "xdma_engine \<Rightarrow> world \<Rightarrow> world" where
  "engine_writeback_teardown e w =
    (if poll_mode_addr_virt e \<noteq> 0 then call_void (C_pci_free_consistent 32 (poll_mode_bus e)) w else w)"

definition engine_writeback_setup :: "xdma_engine \<Rightarrow> world \<Rightarrow> int \<times> xdma_engine \<times> world" where
  "engine_writeback_setup e w =
    (let (v, w) = call_ptr (C_pci_alloc_consistent 32) w;
         bus = kptr w (io w) (C_misc ''poll_mode_bus'' 0);
         e = e\<lparr>poll_mode_addr_virt := v\<rparr> in
     if v = 0 then (-1, e, w)
     else
       let e = e\<lparr>poll_mode_bus := bus\<rparr>;
           w = write_register 0 (poll_mode_addr_virt e) w;
           w = write_register (ucast (PCI_DMA_L bus)) (regs e + er R_poll_mode_wb_lo) w;
           w = write_register (ucast (PCI_DMA_H bus)) (regs e + er R_poll_mode_wb_hi) w
       in (0, e, w))"

definition get_engine_type :: "u64 \<Rightarrow> world \<Rightarrow> bool \<times> world" where
  "get_engine_type r w = (case read_register (r + er R_identifier) w of (v, w) \<Rightarrow> (v AND 0x8000 \<noteq> 0, w))"

definition get_engine_channel_id :: "u64 \<Rightarrow> world \<Rightarrow> u32 \<times> world" where
  "get_engine_channel_id r w = (case read_register (r + er R_identifier) w of (v, w) \<Rightarrow> (drop_bit 8 (v AND 0xf00), w))"

definition get_engine_id :: "u64 \<Rightarrow> world \<Rightarrow> u32 \<times> world" where
  "get_engine_id r w = (case read_register (r + er R_identifier) w of (v, w) \<Rightarrow> (drop_bit 16 (v AND 0xffff0000), w))"

text \<open>Freeing the engine structure at channel \<open>c\<close>, direction \<open>d\<close> is \<open>C_misc ''kfree engine'' (2 * c + d)\<close>.\<close>

definition kfree_engine :: "xdma_engine \<Rightarrow> world \<Rightarrow> world" where
  "kfree_engine e w = call_void (C_misc ''kfree engine'' (2 * channel e + number_in_channel e)) w"

definition engine_destroy :: "xdma_engine \<Rightarrow> xdma_dev \<times> world \<Rightarrow> xdma_dev \<times> world" where
  "engine_destroy e s = (case s of (lro, w) \<Rightarrow>
     let w = write_register 0 (regs e + er R_interrupt_enable_mask) w;
         w = engine_msix_teardown e w;
         w = (if poll_mode w then engine_writeback_teardown e w else w);
         w = kfree_engine e w
     in (lro\<lparr>engines_num := engines_num lro - 1\<rparr>, w))"

text \<open>The engine structure before any register was touched.\<close>

definition engine_init :: "xdma_dev \<Rightarrow> u64 \<Rightarrow> nat \<Rightarrow> bool \<Rightarrow> nat \<Rightarrow> xdma_engine" where
  "engine_init lro b offset to_dev ch = zero_engine\<lparr>magic := MAGIC_ENGINE, channel := ch,
     number_in_channel := (if to_dev then 0 else 1),
     irq_bitmask := push_bit (engines_num lro * XDMA_ENG_IRQ_NUM) (2 ^ XDMA_ENG_IRQ_NUM - 1),
     bypass_offset := of_nat (engines_num lro * BYPASS_MODE_SPACING),
     regs := b + of_nat offset, sgdma_regs := b + of_nat (offset + SGDMA_OFFSET_FROM_CHANNEL), dir_to_dev := to_dev\<rparr>"

text \<open>The last part of \<^verbatim>\<open>engine_create\<close>, after the interrupt line: addressing mode, alignments and the interrupts
  to enable. \<open>None\<close> inside the result is the error path \<^verbatim>\<open>fail_wb\<close>.\<close>

definition engine_configure :: "xdma_engine \<Rightarrow> world \<Rightarrow> (xdma_engine option \<times> world) option" where
  "engine_configure e w = do {
     let w = write_register XDMA_CTRL_NON_INCR_ADDR (regs e + er R_control_w1c) w;
     let (e, w) = engine_alignments e w;
     let v = XDMA_CTRL_IE_DESC_ALIGN_MISMATCH OR XDMA_CTRL_IE_MAGIC_STOPPED OR XDMA_CTRL_IE_READ_ERROR OR XDMA_CTRL_IE_DESC_ERROR;
     let (rc, e, v, w) = (if poll_mode w
            then (case engine_writeback_setup e w of (rc, e, w) \<Rightarrow> (rc, e, v, w))
            else (0, e, (let v = v OR XDMA_CTRL_IE_DESC_STOPPED OR XDMA_CTRL_IE_DESC_COMPLETED in
                         if streaming e \<and> \<not> dir_to_dev e then v OR XDMA_CTRL_IE_IDLE_STOPPED else v), w));
     if rc \<noteq> 0 then Some (None, kfree_engine e (engine_msix_teardown e w))
     else do {
       let w = write_register v (regs e + er R_interrupt_enable_mask) w;
       (e, w) \<leftarrow> (if rx_transfer_cyclic e \<noteq> 0 then do {
                   (_, e, w) \<leftarrow> transfer_queue e (rx_transfer_cyclic e) w; Some (e, w) } else Some (e, w));
       Some (Some e, w) } }"

definition engine_create ::
  "xdma_dev \<Rightarrow> nat \<Rightarrow> bool \<Rightarrow> nat \<Rightarrow> world \<Rightarrow> (xdma_engine option \<times> xdma_dev \<times> world) option" where
  "engine_create lro offset to_dev ch w = do {
     let (p, w) = call_ptr (C_kzalloc ''xdma_engine'') w;
     if p = 0 then Some (None, lro, w)
     else do {
       b \<leftarrow> config_bar lro;
       let e = engine_init lro b offset to_dev ch;
       let (st, w) = get_engine_type (regs e) w;
       let e = e\<lparr>streaming := st\<rparr>;
       (rc, e, w) \<leftarrow> (if msix_enabled lro then engine_msix_setup lro e w else Some (0, e, w));
       if rc \<noteq> 0 then Some (None, lro, kfree_engine e w)
       else do {
         let lro = lro\<lparr>engines_num := engines_num lro + 1\<rparr>;
         (eo, w) \<leftarrow> engine_configure e w;
         Some (eo, lro, w) } } }"

definition remove_engines :: "xdma_dev \<Rightarrow> world \<Rightarrow> (xdma_dev \<times> world) option" where
  "remove_engines lro w = for_range 0 XDMA_CHANNEL_NUM_MAX (\<lambda>c s.
     let s = (case engine lro c 0 of Some e \<Rightarrow> engine_destroy e s | None \<Rightarrow> s);
         s = (case engine lro c 1 of Some e \<Rightarrow> engine_destroy e s | None \<Rightarrow> s)
     in Some s) (lro, w)"

definition set_engine :: "nat \<Rightarrow> nat \<Rightarrow> xdma_engine option \<Rightarrow> xdma_dev \<Rightarrow> xdma_dev" where
  "set_engine c d eo lro = lro\<lparr>engine := (engine lro)(c := (engine lro c)(d := eo))\<rparr>"

definition probe_for_engine :: "bool \<Rightarrow> nat \<Rightarrow> xdma_dev \<Rightarrow> world \<Rightarrow> (int \<times> xdma_dev \<times> world) option" where
  "probe_for_engine to_dev ch lro w = do {
     let d = (if to_dev then 0 else 1);
     let offset = d * H2C_CHANNEL_OFFSET + ch * CHANNEL_SPACING;
     b \<leftarrow> config_bar lro;
     let r = b + of_nat offset;
     let expected = (if to_dev then XDMA_ID_H2C else XDMA_ID_C2H);
     let (engine_id, w) = get_engine_id r w;
     let (channel_id, w) = get_engine_channel_id r w;
     if engine_id \<noteq> expected then Some (0, lro, w)
     else if channel_id \<noteq> of_nat ch then Some (0, lro, w)
     else do {
       (eo, lro, w) \<leftarrow> engine_create lro offset to_dev ch w;
       let lro = set_engine ch d eo lro;
       Some (if eo = None then -1 else 0, lro, w) } }"

definition probe_dir :: "bool \<Rightarrow> xdma_dev \<times> world \<Rightarrow> (int option \<times> xdma_dev \<times> world) option" where
  "probe_dir to_dev s = for_try 0 XDMA_CHANNEL_NUM_MAX (\<lambda>ch (lro, w). do {
     (rc, lro, w) \<leftarrow> probe_for_engine to_dev ch lro w;
     Some (if rc \<noteq> 0 then Some rc else None, lro, w) }) s"

definition probe_engines :: "xdma_dev \<Rightarrow> world \<Rightarrow> (int \<times> xdma_dev \<times> world) option" where
  "probe_engines lro w = do {
     (r, lro, w) \<leftarrow> probe_dir True (lro, w);
     (case r of
        Some rc \<Rightarrow> do { (lro, w) \<leftarrow> remove_engines lro w; Some (rc, lro, w) }
      | None \<Rightarrow> do {
          (r, lro, w) \<leftarrow> probe_dir False (lro, w);
          Some (case r of Some rc \<Rightarrow> rc | None \<Rightarrow> 0, lro, w) }) }"

section \<open>Mapped BARs are accounted for\<close>

fun bars_got :: "io \<Rightarrow> u64 multiset" where
  "bars_got (KP (C_pci_iomap _ _) p) = (if p = 0 then {#} else {#p#})"
| "bars_got _ = {#}"

fun bars_freed :: "io \<Rightarrow> u64 multiset" where
  "bars_freed (KV (C_pci_iounmap p)) = {#p#}"
| "bars_freed _ = {#}"

interpretation bm: slot_account bars_got bars_freed bar .

text \<open>The history contains the two identifiers that make the BAR at \<open>b\<close> the configuration BAR.\<close>

definition identified :: "io list \<Rightarrow> u64 \<Rightarrow> bool" where
  "identified l b \<longleftrightarrow> (\<exists>i c. Rd (b + XDMA_OFS_INT_CTRL + ir I_identifier) i \<in> set l \<and> i AND 0xffff0000 = IRQ_BLOCK_ID \<and>
     Rd (b + XDMA_OFS_CONFIG) c \<in> set l \<and> c AND 0xffff0000 = CONFIG_BLOCK_ID)"

definition bars_ok :: "io list \<Rightarrow> nat \<Rightarrow> xdma_dev \<times> world \<Rightarrow> bool" where
  "bars_ok l0 k s \<longleftrightarrow> (case s of (lro, w) \<Rightarrow> length (bar lro) = XDMA_BAR_NUM \<and> config_bar_idx lro < int k \<and>
     (\<forall>j. k \<le> j \<and> j < XDMA_BAR_NUM \<longrightarrow> bar lro ! j = 0) \<and>
     (\<exists>l. io w = l0 @ l \<and> bm.balanced {#} l lro \<and>
        (0 \<le> config_bar_idx lro \<longrightarrow> bar lro ! nat (config_bar_idx lro) \<noteq> 0 \<and> identified l (bar lro ! nat (config_bar_idx lro)))))"

lemma identified_mono: "identified l b \<Longrightarrow> identified (l @ l') b"
  by (auto simp: identified_def)

lemma map_single_bar_ok:
  assumes "bars_ok l0 k (lro, w)" and "k < XDMA_BAR_NUM"
  shows "\<exists>len lro' w'. map_single_bar dev k lro w = Some (len, lro', w') \<and> bars_ok l0 (Suc k) (lro', w') \<and>
    config_bar_idx lro' = config_bar_idx lro \<and> (len > 0 \<longrightarrow> bar lro' ! k \<noteq> 0)"
proof -
  from assms(1) obtain l where len: "length (bar lro) = XDMA_BAR_NUM" and cfg: "config_bar_idx lro < int k"
    and z: "\<forall>j. k \<le> j \<and> j < XDMA_BAR_NUM \<longrightarrow> bar lro ! j = 0" and l: "io w = l0 @ l" "bm.balanced {#} l lro"
    and id: "0 \<le> config_bar_idx lro \<longrightarrow> bar lro ! nat (config_bar_idx lro) \<noteq> 0 \<and> identified l (bar lro ! nat (config_bar_idx lro))"
    by (auto simp: bars_ok_def)
  have b0: "(bar lro)[k := 0] = bar lro" using z assms(2) by (metis list_update_id order_refl)
  show ?thesis
  proof (cases "res_len dev k = 0")
    case True
    have "map_single_bar dev k lro w = Some (0, lro, w)"
      using True len assms(2) b0 by (simp add: map_single_bar_def Let_def)
    moreover have "bars_ok l0 (Suc k) (lro, w)" using assms(1) cfg by (auto simp: bars_ok_def)
    ultimately show ?thesis by simp
  next
    case False
    define n where "n = unat (if res_len dev k > INT_MAX then INT_MAX else res_len dev k)"
    define p where "p = kptr w (io w) (C_pci_iomap k n)"
    let ?e = "KP (C_pci_iomap k n) p" and ?lro = "lro\<lparr>bar := (bar lro)[k := p]\<rparr>"
    have run: "map_single_bar dev k lro w = Some (if p = 0 then -1 else int n, ?lro, emit ?e w)"
      using False len assms(2) b0 by (simp add: map_single_bar_def call_ptr_def Let_def n_def p_def)
    have bal: "bm.balanced {#} (l @ [?e]) ?lro"
      by (rule bm.balanced_put[OF l(2), of k]) (use len assms(2) z in auto)
    have "bars_ok l0 (Suc k) (?lro, emit ?e w)"
      unfolding bars_ok_def prod.case
    proof (intro conjI exI[of _ "l @ [?e]"])
      show "0 \<le> config_bar_idx ?lro \<longrightarrow> bar ?lro ! nat (config_bar_idx ?lro) \<noteq> 0 \<and>
          identified (l @ [?e]) (bar ?lro ! nat (config_bar_idx ?lro))"
        using id cfg identified_mono by (auto simp: nth_list_update)
    qed (use len cfg z l bal in \<open>auto simp: nth_list_update\<close>)
    with run len assms(2) show ?thesis by auto
  qed
qed

lemma map_bar_step_ok:
  assumes "bars_ok l0 k (lro, w)" and "k < XDMA_BAR_NUM"
  shows "\<exists>r lro' ids' pos' w'. map_bar_step dev k (lro, ids, pos, w) = Some (r, lro', ids', pos', w') \<and> bars_ok l0 (Suc k) (lro', w')"
proof -
  obtain len lro1 w1 where s: "map_single_bar dev k lro w = Some (len, lro1, w1)" "bars_ok l0 (Suc k) (lro1, w1)"
    "config_bar_idx lro1 = config_bar_idx lro" "len > 0 \<longrightarrow> bar lro1 ! k \<noteq> 0"
    using map_single_bar_ok[OF assms] by blast
  show ?thesis
  proof (cases "len > 0 \<and> len \<ge> int XDMA_BAR_SIZE \<and> config_bar_idx lro1 < 0")
    case False
    then show ?thesis using s by (auto simp: map_bar_step_def Let_def)
  next
    case True
    let ?b = "bar lro1 ! k"
    define w2 where "w2 = snd (read_register (?b + XDMA_OFS_INT_CTRL + ir I_identifier) w1)"
    define i where "i = fst (read_register (?b + XDMA_OFS_INT_CTRL + ir I_identifier) w1)"
    define w3 where "w3 = snd (read_register (?b + XDMA_OFS_CONFIG) w2)"
    define c where "c = fst (read_register (?b + XDMA_OFS_CONFIG) w2)"
    let ?ri = "Rd (?b + XDMA_OFS_INT_CTRL + ir I_identifier) i" and ?rc = "Rd (?b + XDMA_OFS_CONFIG) c"
    let ?f = "i AND 0xffff0000 = IRQ_BLOCK_ID \<and> c AND 0xffff0000 = CONFIG_BLOCK_ID"
    from s(2) obtain l where l: "io w1 = l0 @ l" "bm.balanced {#} l lro1" and len: "length (bar lro1) = XDMA_BAR_NUM"
      and z: "\<forall>j. Suc k \<le> j \<and> j < XDMA_BAR_NUM \<longrightarrow> bar lro1 ! j = 0" by (auto simp: bars_ok_def)
    have io3: "io w3 = l0 @ l @ [?ri] @ [?rc]" using l(1) by (simp add: w3_def w2_def i_def c_def read_register_def Let_def)
    have bal: "bm.balanced {#} ((l @ [?ri]) @ [?rc]) x" if "bar x = bar lro1" for x :: xdma_dev
      by (rule bm.balanced_frame[OF bm.balanced_frame[OF l(2) that]]) simp_all
    have ic: "is_config_bar k lro1 w1 = Some (?f, w3)"
      using len assms(2) by (simp add: is_config_bar_def w3_def w2_def i_def c_def split_def Let_def)
    have "bars_ok l0 (Suc k) (lro1, w3)"
      using True len z io3 bal[of lro1] by (auto simp: bars_ok_def intro!: exI[of _ "(l @ [?ri]) @ [?rc]"])
    moreover have "bars_ok l0 (Suc k) (lro1\<lparr>config_bar_idx := int k\<rparr>, w3)" if ?f
      using that True len z io3 bal[of "lro1\<lparr>config_bar_idx := int k\<rparr>"] s(4)
      by (auto simp: bars_ok_def identified_def intro!: exI[of _ "(l @ [?ri]) @ [?rc]"])
    ultimately show ?thesis
      using s(1) ic True by (cases ?f) (auto simp: map_bar_step_def Let_def)
  qed
qed

lemma unmap_bars_ok:
  assumes "bars_ok l0 XDMA_BAR_NUM (lro, w)"
  shows "\<exists>lro' w' l. unmap_bars lro w = Some (lro', w') \<and> bar lro' = replicate XDMA_BAR_NUM 0 \<and>
    io w' = l0 @ l \<and> bm.balanced {#} l lro'"
proof -
  let ?P = "\<lambda>(k::nat) (lro :: xdma_dev, w :: world). length (bar lro) = XDMA_BAR_NUM \<and> (\<forall>j<k. bar lro ! j = 0) \<and> (\<exists>l. io w = l0 @ l \<and> bm.balanced {#} l lro)"
  have "\<exists>s. for_range 0 XDMA_BAR_NUM unmap_one (lro, w) = Some s \<and> ?P (0 + XDMA_BAR_NUM) s"
  proof (rule for_range_total)
    show "?P 0 (lro, w)" using assms by (auto simp: bars_ok_def)
  next
    fix k s assume k: "k < 0 + XDMA_BAR_NUM" and P: "?P k s"
    obtain x v where s: "s = (x, v)" by (cases s)
    from P s obtain l where len: "length (bar x) = XDMA_BAR_NUM" and z: "\<forall>j<k. bar x ! j = 0"
      and l: "io v = l0 @ l" "bm.balanced {#} l x" by auto
    show "\<exists>s'. unmap_one k s = Some s' \<and> ?P (Suc k) s'"
    proof (cases "bar x ! k = 0")
      case True
      then show ?thesis using k len z l s by (auto simp: unmap_one_def less_Suc_eq)
    next
      case False
      let ?p = "bar x ! k" and ?x = "x\<lparr>bar := (bar x)[k := 0]\<rparr>"
      have "bm.balanced {#} (l @ [KV (C_pci_iounmap ?p)]) ?x"
        by (rule bm.balanced_drop[OF l(2), of k]) (use k len False in auto)
      then show ?thesis using k len z l False s
        by (auto simp: unmap_one_def call_void_def nth_list_update less_Suc_eq)
    qed
  qed
  then obtain lro' w' l where r: "for_range 0 XDMA_BAR_NUM unmap_one (lro, w) = Some (lro', w')"
    "length (bar lro') = XDMA_BAR_NUM" "\<forall>j<XDMA_BAR_NUM. bar lro' ! j = 0" "io w' = l0 @ l" "bm.balanced {#} l lro'" by auto
  have "bar lro' = replicate XDMA_BAR_NUM 0" using r(2,3) by (intro nth_equalityI) auto
  with r show ?thesis by (auto simp: unmap_bars_def)
qed

text \<open>The loop over the BARs returns, and leaves the device in order whether it was left early or not.\<close>

lemma map_bar_loop_ok:
  assumes "bar lro = replicate XDMA_BAR_NUM 0" and "config_bar_idx lro = -1"
  shows "\<exists>r x ids pos v. for_try 0 XDMA_BAR_NUM (map_bar_step dev) (lro, [], 0, w) = Some (r, x, ids, pos, v) \<and> bars_ok (io w) XDMA_BAR_NUM (x, v)"
proof -
  let ?P = "\<lambda>(k::nat) (lro :: xdma_dev, ids :: nat list, pos :: nat, v :: world). bars_ok (io w) k (lro, v)"
  have "\<exists>r s. for_try 0 XDMA_BAR_NUM (map_bar_step dev) (lro, [], 0, w) = Some (r, s) \<and>
      (case r of None \<Rightarrow> ?P (0 + XDMA_BAR_NUM) s | Some e \<Rightarrow> \<exists>k \<le> XDMA_BAR_NUM. ?P k s)"
  proof (rule for_try_total)
    show "?P 0 (lro, [], 0, w)" using assms by (auto simp: bars_ok_def bm.balanced_def bm.held_def)
  next
    fix k s assume k: "k < 0 + XDMA_BAR_NUM" and P: "?P k s"
    obtain x ids pos v where s: "s = (x, ids, pos, v)" by (cases s)
    have "bars_ok (io w) k (x, v)" using P s by simp
    then obtain r x' ids' pos' v' where st: "map_bar_step dev k (x, ids, pos, v) = Some (r, x', ids', pos', v')"
      "bars_ok (io w) (Suc k) (x', v')" using map_bar_step_ok[of "io w" k x v dev ids pos] k by auto
    show "\<exists>r s'. map_bar_step dev k s = Some (r, s') \<and>
        (case r of None \<Rightarrow> ?P (Suc k) s' | Some e \<Rightarrow> \<exists>k \<le> XDMA_BAR_NUM. ?P k s')"
    proof (intro exI conjI)
      show "map_bar_step dev k s = Some (r, x', ids', pos', v')" using st s by simp
      show "case r of None \<Rightarrow> ?P (Suc k) (x', ids', pos', v') | Some e \<Rightarrow> \<exists>k \<le> XDMA_BAR_NUM. ?P k (x', ids', pos', v')"
        using st(2) k by (cases r) (auto intro: exI[of _ "Suc k"])
    qed
  qed
  then obtain r s where run: "for_try 0 XDMA_BAR_NUM (map_bar_step dev) (lro, [], 0, w) = Some (r, s)"
    and P: "case r of None \<Rightarrow> ?P (0 + XDMA_BAR_NUM) s | Some e \<Rightarrow> \<exists>k \<le> XDMA_BAR_NUM. ?P k s"
    by (elim exE conjE) rule
  obtain x ids pos v where s: "s = (x, ids, pos, v)" by (cases s)
  have loop: "for_try 0 XDMA_BAR_NUM (map_bar_step dev) (lro, [], 0, w) = Some (r, x, ids, pos, v)" using run s by simp
  from P s have "\<exists>k \<le> XDMA_BAR_NUM. bars_ok (io w) k (x, v)" by (cases r) auto
  then have ok: "bars_ok (io w) XDMA_BAR_NUM (x, v)" by (auto simp: bars_ok_def)
  with loop show ?thesis by blast
qed

text \<open>
  C19. Mapping the BARs either fails with every BAR it mapped unmapped again, exactly once, and none
  left in the device; or it succeeds, every mapping is recorded in the device, and the configuration
  BAR is mapped and was recognised by both of its identifiers.
\<close>

theorem map_bars_all_or_nothing:
  assumes "bar lro = replicate XDMA_BAR_NUM 0" and "config_bar_idx lro = -1"
  shows "\<exists>rc lro' w' l. map_bars dev lro w = Some (rc, lro', w') \<and> io w' = io w @ l \<and>
    (if rc = 0
     then bm.total bars_got l = bm.total bars_freed l + bm.held lro' \<and> (\<exists>b. config_bar lro' = Some b \<and> b \<noteq> 0 \<and> identified l b)
     else bm.total bars_got l = bm.total bars_freed l \<and> bar lro' = replicate XDMA_BAR_NUM 0)"
proof -
  obtain r x ids pos v where loop: "for_try 0 XDMA_BAR_NUM (map_bar_step dev) (lro, [], 0, w) = Some (r, x, ids, pos, v)"
    and ok: "bars_ok (io w) XDMA_BAR_NUM (x, v)" using map_bar_loop_ok[OF assms] by blast
  show ?thesis
  proof (cases "r \<noteq> None \<or> config_bar_idx x < 0")
    case True
    with unmap_bars_ok[OF ok] loop show ?thesis
      by (auto simp: map_bars_def bm.balanced_def bm.held_def)
  next
    case False
    let ?x = "identify_bars ids pos x"
    have same: "bar ?x = bar x" "config_bar_idx ?x = config_bar_idx x"
      by (auto simp: identify_bars_def split: list.split)
    from ok False obtain l where l: "io v = io w @ l" "bm.balanced {#} l x" "length (bar x) = XDMA_BAR_NUM"
      "config_bar_idx x < int XDMA_BAR_NUM" "bar x ! nat (config_bar_idx x) \<noteq> 0" "identified l (bar x ! nat (config_bar_idx x))"
      by (auto simp: bars_ok_def)
    have "config_bar ?x = Some (bar x ! nat (config_bar_idx x))"
      using False l(3,4) by (simp add: config_bar_def same nat_less_iff)
    with l loop False show ?thesis
      by (intro exI[of _ 0] exI[of _ ?x] exI[of _ v] exI[of _ l])
        (simp add: map_bars_def bm.balanced_def bm.held_def same)
  qed
qed

definition demo_pci :: pci_dev where
  "demo_pci = \<lparr>no_msi = False, bus_no_msi = [], res_start = (\<lambda>_. 0xf0000000),
     res_len = (\<lambda>i. if i = 0 then 0x10000 else 0), pdev_irq = 11\<rparr>"

theorem map_bars_all_or_nothing_witness:
  "\<exists>rc lro' w' l. map_bars demo_pci (zero_dev\<lparr>config_bar_idx := -1\<rparr>) quiet_world = Some (rc, lro', w') \<and> io w' = l \<and>
    (if rc = 0
     then bm.total bars_got l = bm.total bars_freed l + bm.held lro' \<and> (\<exists>b. config_bar lro' = Some b \<and> b \<noteq> 0 \<and> identified l b)
     else bm.total bars_got l = bm.total bars_freed l \<and> bar lro' = replicate XDMA_BAR_NUM 0)"
  using map_bars_all_or_nothing[of "zero_dev\<lparr>config_bar_idx := -1\<rparr>" demo_pci quiet_world] by (simp add: zero_dev_def)

section \<open>Engines own disjoint interrupt bits\<close>

lemma engine_configure_mask:
  assumes "rx_transfer_cyclic e = 0"
  shows "\<exists>eo w'. engine_configure e w = Some (eo, w') \<and> (\<forall>e'. eo = Some e' \<longrightarrow> irq_bitmask e' = irq_bitmask e)"
  using assms by (auto simp: engine_configure_def engine_alignments_def engine_writeback_setup_def Let_def split_def)

lemma engine_create_mask:
  assumes "config_bar lro = Some b" and "engines_num lro < MAX_NUM_ENGINES" and "length (entry_vector lro) = 32"
  shows "\<exists>eo n w'. engine_create lro offset to_dev ch w = Some (eo, lro\<lparr>engines_num := n\<rparr>, w') \<and>
    engines_num lro \<le> n \<and> n \<le> Suc (engines_num lro) \<and>
    (\<forall>e. eo = Some e \<longrightarrow> n = Suc (engines_num lro) \<and> irq_bitmask e = push_bit (engines_num lro) 1)"
proof -
  define e1 where "e1 = engine_init lro b offset to_dev ch"
  define w1 where "w1 = snd (call_ptr (C_kzalloc ''xdma_engine'') w)"
  define w2 where "w2 = snd (get_engine_type (regs e1) w1)"
  define e2 where "e2 = e1\<lparr>streaming := fst (get_engine_type (regs e1) w1)\<rparr>"
  have e2: "irq_bitmask e2 = push_bit (engines_num lro) 1" "rx_transfer_cyclic e2 = 0"
    by (simp_all add: e2_def e1_def engine_init_def zero_engine_def XDMA_ENG_IRQ_NUM_def)
  have "\<exists>rc e3 w3. (if msix_enabled lro then engine_msix_setup lro e2 w2 else Some (0, e2, w2)) = Some (rc, e3, w3) \<and>
      irq_bitmask e3 = irq_bitmask e2 \<and> rx_transfer_cyclic e3 = 0"
    using assms(2,3) e2(2) by (simp add: engine_msix_setup_def Let_def split_def const_defs)
  then obtain rc e3 w3 where m: "(if msix_enabled lro then engine_msix_setup lro e2 w2 else Some (0, e2, w2)) = Some (rc, e3, w3)"
    and e3: "irq_bitmask e3 = irq_bitmask e2" "rx_transfer_cyclic e3 = 0" by blast
  obtain eo w4 where c: "engine_configure e3 w3 = Some (eo, w4)" "\<forall>e'. eo = Some e' \<longrightarrow> irq_bitmask e' = irq_bitmask e3"
    using engine_configure_mask[OF e3(2)] by blast
  have run: "engine_create lro offset to_dev ch w =
      (if fst (call_ptr (C_kzalloc ''xdma_engine'') w) = 0 then Some (None, lro, w1)
       else if rc \<noteq> 0 then Some (None, lro, kfree_engine e3 w3)
       else Some (eo, lro\<lparr>engines_num := engines_num lro + 1\<rparr>, w4))"
    using assms(1) m c(1)
    by (cases "msix_enabled lro") (simp_all add: engine_create_def Let_def split_def flip: w1_def e1_def w2_def e2_def)
  show ?thesis
  proof (cases "fst (call_ptr (C_kzalloc ''xdma_engine'') w) = 0 \<or> rc \<noteq> 0")
    case True
    then show ?thesis using run by (intro exI[of _ None] exI[of _ "engines_num lro"]) auto
  next
    case False
    then have "engine_create lro offset to_dev ch w = Some (eo, lro\<lparr>engines_num := engines_num lro + 1\<rparr>, w4)"
      using run by simp
    then show ?thesis
      using c(2) e3(1) e2(1) by (intro exI[of _ eo] exI[of _ "engines_num lro + 1"] exI[of _ w4]) auto
  qed
qed

text \<open>The number an engine was created with, and that no other engine has it.\<close>

definition masks_ok :: "nat \<Rightarrow> xdma_dev \<Rightarrow> bool" where
  "masks_ok m lro \<longleftrightarrow> engines_num lro \<le> m \<and> length (entry_vector lro) = 32 \<and>
    (\<exists>num :: nat \<Rightarrow> nat \<Rightarrow> nat. (\<forall>c d e. engine lro c d = Some e \<longrightarrow> num c d < engines_num lro \<and> irq_bitmask e = push_bit (num c d) 1) \<and>
      (\<forall>c d c' d'. engine lro c d \<noteq> None \<longrightarrow> engine lro c' d' \<noteq> None \<longrightarrow> num c d = num c' d' \<longrightarrow> c = c' \<and> d = d'))"

lemma masks_ok_add:
  assumes "masks_ok m lro" and "irq_bitmask e = push_bit (engines_num lro) 1"
  shows "masks_ok (Suc m) (set_engine c d (Some e) (lro\<lparr>engines_num := Suc (engines_num lro)\<rparr>))"
proof -
  from assms(1) obtain num where
    num: "\<And>c d e. engine lro c d = Some e \<Longrightarrow> num c d < engines_num lro \<and> irq_bitmask e = push_bit (num c d) 1"
    and inj: "\<And>c d c' d'. engine lro c d \<noteq> None \<Longrightarrow> engine lro c' d' \<noteq> None \<Longrightarrow> num c d = num c' d' \<Longrightarrow> c = c' \<and> d = d'"
    and le: "engines_num lro \<le> m" "length (entry_vector lro) = 32" unfolding masks_ok_def by blast
  let ?num = "num(c := (num c)(d := engines_num lro))"
  let ?lro = "set_engine c d (Some e) (lro\<lparr>engines_num := Suc (engines_num lro)\<rparr>)"
  have lt: "num c' d' < engines_num lro" if "engine lro c' d' \<noteq> None" for c' d' using num that by blast
  have "?num c' d' < engines_num ?lro \<and> irq_bitmask x = push_bit (?num c' d') 1" if "engine ?lro c' d' = Some x" for c' d' x
    using that num[of c' d' x] assms(2) by (auto simp: set_engine_def split: if_splits)
  moreover have "c1 = c2 \<and> d1 = d2" if e: "engine ?lro c1 d1 \<noteq> None" "engine ?lro c2 d2 \<noteq> None" and n: "?num c1 d1 = ?num c2 d2"
    for c1 d1 c2 d2
  proof (cases "(c1 = c \<and> d1 = d) \<or> (c2 = c \<and> d2 = d)")
    case True
    have 1: "engine lro a b \<noteq> None" if "engine ?lro a b \<noteq> None" "\<not> (a = c \<and> b = d)" for a b
      using that by (auto simp: set_engine_def split: if_splits)
    show ?thesis using True n e 1[of c1 d1] 1[of c2 d2] lt[of c1 d1] lt[of c2 d2] by (auto split: if_splits)
  next
    case False
    with e n inj[of c1 d1 c2 d2] show ?thesis by (auto simp: set_engine_def split: if_splits)
  qed
  ultimately have "\<exists>num :: nat \<Rightarrow> nat \<Rightarrow> nat.
      (\<forall>c d e. engine ?lro c d = Some e \<longrightarrow> num c d < engines_num ?lro \<and> irq_bitmask e = push_bit (num c d) 1) \<and>
      (\<forall>c d c' d'. engine ?lro c d \<noteq> None \<longrightarrow> engine ?lro c' d' \<noteq> None \<longrightarrow> num c d = num c' d' \<longrightarrow> c = c' \<and> d = d')"
    by (intro exI[of _ ?num]) blast
  moreover have "engines_num ?lro \<le> Suc m" "length (entry_vector ?lro) = 32" using le by (simp_all add: set_engine_def)
  ultimately show ?thesis unfolding masks_ok_def by blast
qed

lemma probe_for_engine_masks:
  assumes "config_bar lro = Some b" and "masks_ok m lro" and "m < MAX_NUM_ENGINES"
  shows "\<exists>rc lro' w'. probe_for_engine to_dev ch lro w = Some (rc, lro', w') \<and> config_bar lro' = Some b \<and>
    (rc = 0 \<longrightarrow> masks_ok (Suc m) lro')"
proof -
  have lt: "engines_num lro < MAX_NUM_ENGINES" "length (entry_vector lro) = 32" using assms(2,3) by (auto simp: masks_ok_def)
  let ?d = "if to_dev then 0 else 1 :: nat"
  let ?o = "?d * H2C_CHANNEL_OFFSET + ch * CHANNEL_SPACING"
  define w1 where "w1 = snd (get_engine_id (b + of_nat ?o) w)"
  define w2 where "w2 = snd (get_engine_channel_id (b + of_nat ?o) w1)"
  obtain eo n w' where c: "engine_create lro ?o to_dev ch w2 = Some (eo, lro\<lparr>engines_num := n\<rparr>, w')"
    "\<forall>e. eo = Some e \<longrightarrow> n = Suc (engines_num lro) \<and> irq_bitmask e = push_bit (engines_num lro) 1"
    using engine_create_mask[OF assms(1) lt] by blast
  have "probe_for_engine to_dev ch lro w =
      (if fst (get_engine_id (b + of_nat ?o) w) \<noteq> (if to_dev then XDMA_ID_H2C else XDMA_ID_C2H) \<or>
          fst (get_engine_channel_id (b + of_nat ?o) w1) \<noteq> of_nat ch then Some (0, lro, w2)
       else Some (if eo = None then -1 else 0, set_engine ch ?d eo (lro\<lparr>engines_num := n\<rparr>), w'))"
    unfolding probe_for_engine_def Let_def assms(1) Option.bind.simps(2) split_def
    unfolding w1_def[symmetric] w2_def[symmetric] c(1) by simp
  moreover have "config_bar (set_engine ch ?d eo (lro\<lparr>engines_num := n\<rparr>)) = Some b"
    using assms(1) by (auto simp: config_bar_def set_engine_def split: if_splits)
  moreover have "masks_ok (Suc m) lro" using assms(2) by (auto simp: masks_ok_def)
  moreover have "masks_ok (Suc m) (set_engine ch ?d eo (lro\<lparr>engines_num := n\<rparr>))" if "eo \<noteq> None"
    using that c(2) masks_ok_add[OF assms(2)] by auto
  ultimately show ?thesis using assms(1) by (auto split: if_splits)
qed

lemma probe_dir_masks:
  assumes "config_bar lro = Some b" and "masks_ok m lro" and "m + XDMA_CHANNEL_NUM_MAX \<le> MAX_NUM_ENGINES"
  shows "\<exists>r lro' w'. probe_dir to_dev (lro, w) = Some (r, lro', w') \<and> config_bar lro' = Some b \<and>
    (case r of None \<Rightarrow> masks_ok (m + XDMA_CHANNEL_NUM_MAX) lro' | Some rc \<Rightarrow> rc \<noteq> 0)"
proof -
  let ?P = "\<lambda>(k::nat) (lro :: xdma_dev, w :: world). config_bar lro = Some b \<and> masks_ok (m + k) lro"
  let ?Q = "\<lambda>(rc::int) (lro :: xdma_dev, w :: world). config_bar lro = Some b \<and> rc \<noteq> 0"
  have "\<exists>r s'. probe_dir to_dev (lro, w) = Some (r, s') \<and> (case r of None \<Rightarrow> ?P (0 + XDMA_CHANNEL_NUM_MAX) s' | Some e \<Rightarrow> ?Q e s')"
    unfolding probe_dir_def
  proof (rule for_try_total)
    show "?P 0 (lro, w)" using assms by simp
  next
    fix k s assume k: "k < 0 + XDMA_CHANNEL_NUM_MAX" and P: "?P k s"
    obtain x v where s: "s = (x, v)" by (cases s)
    from P s have "config_bar x = Some b" "masks_ok (m + k) x" by simp_all
    then obtain rc x' v' where "probe_for_engine to_dev k x v = Some (rc, x', v')" "config_bar x' = Some b"
      "rc = 0 \<longrightarrow> masks_ok (Suc (m + k)) x'" using probe_for_engine_masks[of x b "m + k" to_dev k v] k assms(3) by auto
    then show "\<exists>r s'. (case s of (lro, w) \<Rightarrow> do { (rc, lro, w) \<leftarrow> probe_for_engine to_dev k lro w;
        Some (if rc \<noteq> 0 then Some rc else None, lro, w) }) = Some (r, s') \<and> (case r of None \<Rightarrow> ?P (Suc k) s' | Some e \<Rightarrow> ?Q e s')"
      using s by auto
  qed
  then obtain r s' where "probe_dir to_dev (lro, w) = Some (r, s')"
    "case r of None \<Rightarrow> ?P (0 + XDMA_CHANNEL_NUM_MAX) s' | Some e \<Rightarrow> ?Q e s'" by (elim exE conjE) rule
  then show ?thesis by (cases s'; cases r) auto
qed

lemma remove_engines_total: "\<exists>lro' w'. remove_engines lro w = Some (lro', w')"
proof -
  have "\<exists>s. remove_engines lro w = Some s \<and> True" unfolding remove_engines_def
    by (rule for_range_total[where P = "\<lambda>_ _. True"]) (auto simp: Let_def)
  then show ?thesis by auto
qed

lemma push_bit_1_disjoint: "i \<noteq> j \<Longrightarrow> push_bit i 1 AND push_bit j (1 :: u32) = 0"
  by (auto simp: bit_eq_iff bit_simps)

text \<open>
  C20. Probing the engines of a device with a configuration BAR always returns, and when it
  reports success no two engines it created share an interrupt bit, so that the interrupt handler
  can tell them apart; there are at most eight of them.
\<close>

theorem probe_engines_disjoint:
  assumes "config_bar lro = Some b" and "engines_num lro = 0" and "engine lro = (\<lambda>_ _. None)"
    and "length (entry_vector lro) = 32"
  shows "\<exists>rc lro' w'. probe_engines lro w = Some (rc, lro', w') \<and>
    (rc = 0 \<longrightarrow> engines_num lro' \<le> MAX_NUM_ENGINES \<and>
      (\<forall>c d c' d' e e'. engine lro' c d = Some e \<and> engine lro' c' d' = Some e' \<and> (c, d) \<noteq> (c', d') \<longrightarrow>
         irq_bitmask e AND irq_bitmask e' = 0))"
proof -
  have "masks_ok 0 lro" using assms by (simp add: masks_ok_def)
  then obtain r lro1 w1 where h: "probe_dir True (lro, w) = Some (r, lro1, w1)" "config_bar lro1 = Some b"
    "case r of None \<Rightarrow> masks_ok (0 + XDMA_CHANNEL_NUM_MAX) lro1 | Some rc \<Rightarrow> rc \<noteq> 0"
    using probe_dir_masks[OF assms(1), of 0 True w] by (auto simp: const_defs)
  show ?thesis
  proof (cases r)
    case (Some rc)
    with h remove_engines_total[of lro1 w1] show ?thesis by (auto simp: probe_engines_def)
  next
    case None
    with h(3) have "masks_ok XDMA_CHANNEL_NUM_MAX lro1" by simp
    then obtain r2 lro2 w2 where c: "probe_dir False (lro1, w1) = Some (r2, lro2, w2)"
      "case r2 of None \<Rightarrow> masks_ok (XDMA_CHANNEL_NUM_MAX + XDMA_CHANNEL_NUM_MAX) lro2 | Some rc \<Rightarrow> rc \<noteq> 0"
      using probe_dir_masks[OF h(2), of XDMA_CHANNEL_NUM_MAX False w1] by (auto simp: const_defs)
    have run: "probe_engines lro w = Some (case r2 of Some rc \<Rightarrow> rc | None \<Rightarrow> 0, lro2, w2)"
      using h(1) None c(1) by (simp add: probe_engines_def)
    show ?thesis
    proof (cases r2)
      case (Some rc)
      with run c(2) show ?thesis by simp
    next
      case None
      with c(2) have ok: "masks_ok MAX_NUM_ENGINES lro2" by (simp add: const_defs)
      then obtain num where
        num: "\<And>c d e. engine lro2 c d = Some e \<Longrightarrow> irq_bitmask e = push_bit (num c d) 1"
        and inj: "\<And>c d c' d'. engine lro2 c d \<noteq> None \<Longrightarrow> engine lro2 c' d' \<noteq> None \<Longrightarrow> num c d = num c' d' \<Longrightarrow> c = c' \<and> d = d'"
        unfolding masks_ok_def by blast
      have "irq_bitmask e AND irq_bitmask e' = 0"
        if "engine lro2 c d = Some e" "engine lro2 c' d' = Some e'" "(c, d) \<noteq> (c', d')" for c d c' d' e e'
        using num[OF that(1)] num[OF that(2)] inj[of c d c' d'] that push_bit_1_disjoint[of "num c d" "num c' d'"] by auto
      moreover have "engines_num lro2 \<le> MAX_NUM_ENGINES" using ok by (simp add: masks_ok_def)
      ultimately show ?thesis using run None by (intro exI[of _ 0] exI[of _ lro2] exI[of _ w2]) auto
    qed
  qed
qed

theorem probe_engines_disjoint_witness:
  "\<exists>rc lro' w'. probe_engines (zero_dev\<lparr>config_bar_idx := 1\<rparr>) quiet_world = Some (rc, lro', w') \<and>
    (rc = 0 \<longrightarrow> engines_num lro' \<le> MAX_NUM_ENGINES \<and>
      (\<forall>c d c' d' e e'. engine lro' c d = Some e \<and> engine lro' c' d' = Some e' \<and> (c, d) \<noteq> (c', d') \<longrightarrow>
         irq_bitmask e AND irq_bitmask e' = 0))"
  by (rule probe_engines_disjoint[where b = 0]) (simp_all add: config_bar_def zero_dev_def const_defs)

end
