(* ===== verification/Xdma_Ring.thy ===== *)
theory Xdma_Ring
  imports Wz_Xdma
begin

text \<open>
  Servicing an engine that streams to the host (AXI-ST C2H), from \<^verbatim>\<open>xdma-core.c\<close>: the result ring the
  device fills, its polled and interrupt-driven service, the work item an interrupt schedules, and
  polling of the write-back counter.

  Host memory the device writes on its own is read like a register (the write-back word at
  \<^const>\<open>poll_mode_addr_virt\<close>) or, for the result ring, updated by an argument \<open>dev\<close> that tells what
  the device has written by the time of a poll, as a function of the history.
\<close>

section \<open>The result ring\<close>

definition rx_next :: "nat \<Rightarrow> nat" where
  "rx_next i = (i + 1) mod RX_BUF_PAGES"

partial_function (option) ring_loop :: "xdma_result list \<Rightarrow> nat \<Rightarrow> xdma_engine \<Rightarrow> (nat \<times> xdma_engine) option option" where
  "ring_loop result eop_count e =
    (case arr_get result (rx_tail e) of
       None \<Rightarrow> Some None
     | Some r \<Rightarrow>
         if res_status r \<noteq> 0 \<and> \<not> rx_overrun e then
           let eop_count = (if res_status r AND RX_STATUS_EOP \<noteq> 0 then eop_count + 1 else eop_count);
               e = e\<lparr>rx_tail := rx_next (rx_tail e)\<rparr>;
               e = (if rx_tail e = rx_head e then e\<lparr>rx_overrun := True\<rparr> else e)
           in ring_loop result eop_count e
         else Some (Some (eop_count, e)))"

definition engine_ring_process :: "xdma_engine \<Rightarrow> (nat \<times> xdma_engine) option option" where
  "engine_ring_process e = (case rx_result_buffer e of None \<Rightarrow> Some None | Some result \<Rightarrow> ring_loop result 0 e)"

section \<open>Cyclic service\<close>

text \<open>Both services end alike: an engine that was running and is no longer busy is taken off its queue
  and shut down.\<close>

definition cyclic_finish :: "xdma_engine \<Rightarrow> world \<Rightarrow> (xdma_engine \<times> world) option" where
  "cyclic_finish e w =
    (if running e \<and> status e AND XDMA_STAT_BUSY = 0 then do {
       e \<leftarrow> (if transfer_list e \<noteq> [] then engine_transfer_dequeue e w else Some e);
       Some (engine_service_shutdown e w)
     } else Some (e, w))"

partial_function (option) cyclic_poll_loop ::
  "(io list \<Rightarrow> xdma_result list \<Rightarrow> xdma_result list) \<Rightarrow> xdma_engine \<Rightarrow> world \<Rightarrow>
     (int \<times> nat \<times> xdma_engine \<times> world) option option" where
  "cyclic_poll_loop dev e w =
    (case read_register (poll_mode_addr_virt e) w of (wb, w) \<Rightarrow>
       if wb AND WB_ERR_MASK \<noteq> 0 then Some (Some (-1, 0, e, w))
       else (case engine_ring_process (e\<lparr>rx_result_buffer := map_option (dev (io w)) (rx_result_buffer e)\<rparr>) of
           None \<Rightarrow> None
         | Some None \<Rightarrow> Some None
         | Some (Some (eop_count, e)) \<Rightarrow>
             if eop_count = 0 then cyclic_poll_loop dev e w else Some (Some (0, eop_count, e, w))))"

definition engine_service_cyclic_polled ::
  "(io list \<Rightarrow> xdma_result list \<Rightarrow> xdma_result list) \<Rightarrow> xdma_engine \<Rightarrow> world \<Rightarrow>
     (int \<times> xdma_engine \<times> world) option option" where
  "engine_service_cyclic_polled dev e w =
    (if magic e \<noteq> MAGIC_ENGINE then Some None
     else (case cyclic_poll_loop dev e w of
         None \<Rightarrow> None
       | Some None \<Rightarrow> Some None
       | Some (Some (rc, eop_count, e, w)) \<Rightarrow>
           if eop_count = 0 then
             (case engine_status_read e True w of (_, e, w) \<Rightarrow>
                Some (map_option (\<lambda>(e, w). (rc, e, w)) (cyclic_finish e w)))
           else Some (Some (rc, e, w))))"

definition engine_service_cyclic_interrupt :: "xdma_engine \<Rightarrow> world \<Rightarrow> (int \<times> xdma_engine \<times> world) option option" where
  "engine_service_cyclic_interrupt e w =
    (if magic e \<noteq> MAGIC_ENGINE then Some None
     else (case engine_status_read e True w of (_, e, w) \<Rightarrow>
       (case engine_ring_process e of
          None \<Rightarrow> None
        | Some None \<Rightarrow> Some None
        | Some (Some (eop_count, e)) \<Rightarrow> Some (do {
            (e, w) \<leftarrow> (if enable_credit_mp w then do {
                         BUG_ON (rx_transfer_cyclic e = 0);
                         Some (e, call_void (C_wake_up ''transfer_wq'') w) }
                       else if eop_count > 0 then do {
                         BUG_ON (rx_transfer_cyclic e = 0);
                         Some (e\<lparr>eop_found := True\<rparr>, call_void (C_wake_up ''transfer_wq'') w) }
                       else Some (e, w));
            (e, w) \<leftarrow> cyclic_finish e w;
            Some (0, e, w) }))))"

definition engine_service_cyclic ::
  "(io list \<Rightarrow> xdma_result list \<Rightarrow> xdma_result list) \<Rightarrow> xdma_engine \<Rightarrow> world \<Rightarrow>
     (int \<times> xdma_engine \<times> world) option option" where
  "engine_service_cyclic dev e w =
    (if magic e \<noteq> MAGIC_ENGINE then Some None
     else if poll_mode w then engine_service_cyclic_polled dev e w
     else wz_engine_service_cyclic_interrupt e w)"

text \<open>The work item of an engine. The test for C2H streaming is \<^verbatim>\<open>if (true)\<close> in this driver, so every
  engine is serviced as a cyclic one.\<close>

definition engine_service_work ::
  "(io list \<Rightarrow> xdma_result list \<Rightarrow> xdma_result list) \<Rightarrow> xdma_dev \<Rightarrow> xdma_engine \<Rightarrow> world \<Rightarrow>
     (xdma_engine \<times> world) option option" where
  "engine_service_work dev lro e w =
    (if magic e \<noteq> MAGIC_ENGINE then Some None
     else (case engine_service_cyclic dev e w of
         None \<Rightarrow> None
       | Some None \<Rightarrow> Some None
       | Some (Some (_, e, w)) \<Rightarrow> Some (do {
           w \<leftarrow> (if msix_enabled lro
                 then Some (write_register (interrupt_enable_mask_value e) (regs e + er R_interrupt_enable_mask_w1s) w)
                 else channel_interrupts_enable lro (irq_bitmask e) w);
           Some (e, w) })))"

section \<open>Polling the write-back counter\<close>

text \<open>Whether the ten seconds of \<^verbatim>\<open>POLL_TIMEOUT_SECONDS\<close> are over is a question to the kernel's clock.\<close>

partial_function (option) wb_monitor_loop :: "u64 \<Rightarrow> u32 \<Rightarrow> world \<Rightarrow> (u32 \<times> world) option" where
  "wb_monitor_loop a expected_wb w =
    (case read_register a w of (desc_wb, w) \<Rightarrow>
       if desc_wb AND WB_ERR_MASK \<noteq> 0 then Some (desc_wb, w)
       else if desc_wb = expected_wb then Some (desc_wb, w)
       else (case call_int C_time_after w of (late, w) \<Rightarrow>
         if late \<noteq> 0 then
           Some (if desc_wb AND WB_COUNT_MASK > expected_wb then expected_wb OR WB_ERR_MASK else desc_wb, w)
         else wb_monitor_loop a expected_wb w))"

definition engine_service_wb_monitor :: "xdma_engine \<Rightarrow> u32 \<Rightarrow> world \<Rightarrow> (u32 \<times> world) option" where
  "engine_service_wb_monitor e expected_wb w =
    (if expected_wb \<noteq> 0 then wb_monitor_loop (poll_mode_addr_virt e) expected_wb w else Some (0, w))"

definition engine_service_poll ::
  "(io list \<Rightarrow> xdma_result list \<Rightarrow> xdma_result list) \<Rightarrow> xdma_engine \<Rightarrow> u32 \<Rightarrow> world \<Rightarrow>
     (int \<times> xdma_engine \<times> world) option option" where
  "engine_service_poll dev e expected_desc_count w =
    (if magic e \<noteq> MAGIC_ENGINE then Some None
     else if expected_desc_count AND WB_COUNT_MASK \<noteq> expected_desc_count then Some (Some (-1, e, w))
     else (case engine_service_wb_monitor e expected_desc_count w of
         None \<Rightarrow> None
       | Some (desc_wb, w) \<Rightarrow>
           if rx_transfer_cyclic e \<noteq> 0 then engine_service_cyclic dev e w
           else Some (engine_service e desc_wb w)))"

section \<open>What the ring service consumes\<close>

interpretation rxr: ring_index RX_BUF_PAGES rx_next
  by unfold_locales (simp_all add: rx_next_def RX_BUF_PAGES_def)

text \<open>The results from index \<open>t\<close> on, \<open>n\<close> of them, up to the first the device has not written yet.\<close>

definition rx_run :: "xdma_result list \<Rightarrow> nat \<Rightarrow> nat \<Rightarrow> xdma_result list" where
  "rx_run result t n =
    takeWhile (\<lambda>r. res_status r \<noteq> 0) (map (\<lambda>i. result ! ((t + i) mod RX_BUF_PAGES)) [0..<n])"

text \<open>How many results fit before the tail runs into the head: the whole ring when both are equal.\<close>

definition rx_room :: "nat \<Rightarrow> nat \<Rightarrow> nat" where
  "rx_room t h = (if t = h then RX_BUF_PAGES else (h + RX_BUF_PAGES - t) mod RX_BUF_PAGES)"

definition eops :: "xdma_result list \<Rightarrow> nat" where
  "eops rs = length (filter (\<lambda>r. res_status r AND RX_STATUS_EOP \<noteq> 0) rs)"

lemma rx_run_0 [simp]: "rx_run result t 0 = []"
  by (simp add: rx_run_def)

lemma rx_run_Suc:
  assumes "t < RX_BUF_PAGES"
  shows "rx_run result t (Suc n) =
    (if res_status (result ! t) \<noteq> 0 then result ! t # rx_run result (rx_next t) n else [])"
proof -
  have "map (\<lambda>i. result ! ((t + i) mod RX_BUF_PAGES)) [0..<Suc n] =
      result ! t # map (\<lambda>i. result ! ((rx_next t + i) mod RX_BUF_PAGES)) [0..<n]"
    unfolding map_upt_Suc using assms by (simp add: rx_next_def mod_simps)
  then show ?thesis by (simp add: rx_run_def)
qed

lemma rx_run_length: "length (rx_run result t n) \<le> n"
  using length_takeWhile_le[of _ "map (\<lambda>i. result ! ((t + i) mod RX_BUF_PAGES)) [0..<n]"]
  by (simp add: rx_run_def)

lemma rx_room_step:
  assumes "t < RX_BUF_PAGES" and "h < RX_BUF_PAGES"
  shows "rx_room t h = (if rx_next t = h then 1 else Suc (rx_room (rx_next t) h))"
  using assms by (auto simp: rx_room_def rx_next_def RX_BUF_PAGES_def mod_if)

lemma rx_tail_step:
  "t < RX_BUF_PAGES \<Longrightarrow> (rx_next t + k) mod RX_BUF_PAGES = (t + Suc k) mod RX_BUF_PAGES"
  by (simp add: rx_next_def mod_simps)

lemma ring_loop_stop:
  assumes "rx_tail e < length result" and "res_status (result ! rx_tail e) = 0 \<or> rx_overrun e"
  shows "ring_loop result c e = Some (Some (c, e))"
  using assms by (subst ring_loop.simps) auto

lemma ring_loop_run:
  assumes "length result = RX_BUF_PAGES" and "rx_tail e < RX_BUF_PAGES" and "rx_head e < RX_BUF_PAGES"
    and "\<not> rx_overrun e" and "rx_room (rx_tail e) (rx_head e) = n"
  shows "ring_loop result c e = Some (Some (c + eops (rx_run result (rx_tail e) n),
    e\<lparr>rx_tail := (rx_tail e + length (rx_run result (rx_tail e) n)) mod RX_BUF_PAGES,
      rx_overrun := (length (rx_run result (rx_tail e) n) = n)\<rparr>))"
  using assms
proof (induction n arbitrary: c e)
  case 0
  then show ?case by (auto simp: rx_room_step[OF 0(2,3)] split: if_splits)
next
  case (Suc n)
  let ?t = "rx_tail e" and ?r = "result ! rx_tail e"
  show ?case
  proof (cases "res_status ?r = 0")
    case True
    have "ring_loop result c e = Some (Some (c, e))"
      by (rule ring_loop_stop) (use Suc.prems True in auto)
    moreover have "e\<lparr>rx_tail := ?t, rx_overrun := False\<rparr> = e" using Suc.prems(4) by simp
    ultimately show ?thesis
      using Suc.prems True by (simp add: rx_run_Suc eops_def)
  next
    case False
    let ?c = "if res_status ?r AND RX_STATUS_EOP \<noteq> 0 then c + 1 else c"
    let ?e = "e\<lparr>rx_tail := rx_next ?t\<rparr>"
    have lt: "rx_next ?t < RX_BUF_PAGES" by (simp add: rxr.nxt_less Suc.prems)
    have step: "ring_loop result c e =
        ring_loop result ?c (if rx_next ?t = rx_head e then ?e\<lparr>rx_overrun := True\<rparr> else ?e)"
      using False Suc.prems by (subst ring_loop.simps) (simp add: Let_def)
    have c: "?c + eops rs = c + eops (?r # rs)" for rs by (simp add: eops_def)
    show ?thesis
    proof (cases "rx_next ?t = rx_head e")
      case True
      then have n: "n = 0" using Suc.prems rx_room_step by simp
      have "ring_loop result ?c (?e\<lparr>rx_overrun := True\<rparr>) = Some (Some (?c, ?e\<lparr>rx_overrun := True\<rparr>))"
        by (rule ring_loop_stop) (use lt Suc.prems in auto)
      then show ?thesis
        unfolding step using True n False Suc.prems c[of "[]"] rx_tail_step[of ?t 0] lt
        by (simp add: rx_run_Suc eops_def rx_next_def)
    next
      case False': False
      then have "ring_loop result ?c ?e = Some (Some (?c + eops (rx_run result (rx_next ?t) n),
          ?e\<lparr>rx_tail := (rx_next ?t + length (rx_run result (rx_next ?t) n)) mod RX_BUF_PAGES,
            rx_overrun := (length (rx_run result (rx_next ?t) n) = n)\<rparr>))"
        using Suc.IH[of ?e ?c] Suc.prems lt rx_room_step[of ?t "rx_head e"] by simp
      then show ?thesis
        unfolding step using False False' Suc.prems c by (simp add: rx_run_Suc rx_tail_step)
    qed
  qed
qed

section \<open>Properties\<close>

text \<open>
  C28. Processing the result ring always ends. It consumes the results from the tail up to the first one
  the device has not written, but never beyond the reader's head: it counts the packets that end
  among them, moves the tail past them, and flags an overrun exactly when it caught up with the head.
\<close>

theorem engine_ring_process_consumes:
  assumes "rx_result_buffer e = Some result" and "length result = RX_BUF_PAGES"
    and "rx_tail e < RX_BUF_PAGES" and "rx_head e < RX_BUF_PAGES" and "\<not> rx_overrun e"
  shows "engine_ring_process e =
    (let n = rx_room (rx_tail e) (rx_head e); run = rx_run result (rx_tail e) n in
     Some (Some (eops run, e\<lparr>rx_tail := (rx_tail e + length run) mod RX_BUF_PAGES, rx_overrun := (length run = n)\<rparr>)))"
  using ring_loop_run[OF assms(2-5) refl, of 0] assms(1)
  by (simp add: engine_ring_process_def Let_def)

text \<open>A ring whose last two slots were written and whose reader is at slot 3.\<close>

definition demo_results :: "xdma_result list" where
  "demo_results = replicate 254 \<lparr>res_status = 0, res_length = 0\<rparr> @
     [\<lparr>res_status = 0x52B40000, res_length = 4096\<rparr>, \<lparr>res_status = 0x52B40001, res_length = 17\<rparr>]"

definition demo_rx :: xdma_engine where
  "demo_rx = zero_engine\<lparr>rx_result_buffer := Some demo_results, rx_tail := 254, rx_head := 3\<rparr>"

theorem engine_ring_process_consumes_witness:
  "engine_ring_process demo_rx = Some (Some (1, demo_rx\<lparr>rx_tail := 0\<rparr>))"
proof -
  have "rx_room 254 3 = 5" by (simp add: rx_room_def RX_BUF_PAGES_def)
  moreover have "rx_run demo_results 254 5 = drop 254 demo_results"
    by (simp add: rx_run_def demo_results_def RX_BUF_PAGES_def upt_rec nth_append)
  moreover have "eops (drop 254 demo_results) = 1" by (simp add: eops_def demo_results_def RX_STATUS_EOP_def)
  moreover have "rx_result_buffer demo_rx = Some demo_results" "length demo_results = RX_BUF_PAGES"
    "rx_tail demo_rx = 254" "rx_head demo_rx = 3" "\<not> rx_overrun demo_rx"
    by (simp_all add: demo_rx_def demo_results_def RX_BUF_PAGES_def zero_engine_def)
  moreover have "length (drop 254 demo_results) = 2" by (simp add: demo_results_def)
  ultimately show ?thesis
    using engine_ring_process_consumes[of demo_rx demo_results]
    by (simp add: RX_BUF_PAGES_def Let_def demo_rx_def zero_engine_def)
qed

lemma wb_monitor_step:
  fixes a w
  defines "v \<equiv> hw w (io w) a"
  defines "w1 \<equiv> emit (Rd a v) w"
  defines "late \<equiv> kint w (io w1) C_time_after"
  shows "wb_monitor_loop a x w =
    (if v AND WB_ERR_MASK \<noteq> 0 \<or> v = x then Some (v, w1)
     else if late \<noteq> 0 then Some (if v AND WB_COUNT_MASK > x then x OR WB_ERR_MASK else v, emit (KI C_time_after late) w1)
     else wb_monitor_loop a x (emit (KI C_time_after late) w1))"
  unfolding v_def w1_def late_def
  by (subst wb_monitor_loop.simps) (simp add: read_register_def call_int_def Let_def)

text \<open>
  C29. Polling always ends when the clock advances. It ends with the expected count, with the error flag
  set, or after the timeout with a count that is not above the expected one.
\<close>

theorem engine_service_wb_monitor_ends:
  assumes clock: "\<And>l. N \<le> length l \<Longrightarrow> kint w l C_time_after \<noteq> 0" and "x \<noteq> 0"
  shows "\<exists>v w'. engine_service_wb_monitor e x w = Some (v, w') \<and>
    (v = x \<or> v AND WB_ERR_MASK \<noteq> 0 \<or>
     (\<exists>late. last (io w') = KI C_time_after late \<and> late \<noteq> 0 \<and> v AND WB_COUNT_MASK \<le> x))"
proof -
  let ?Q = "\<lambda>v w'. v = x \<or> v AND WB_ERR_MASK \<noteq> 0 \<or>
     (\<exists>late. last (io w') = KI C_time_after late \<and> late \<noteq> 0 \<and> v AND WB_COUNT_MASK \<le> x)"
  have err: "(x OR WB_ERR_MASK) AND WB_ERR_MASK \<noteq> 0"
  proof -
    have "(x OR WB_ERR_MASK) AND WB_ERR_MASK = WB_ERR_MASK" by (rule bit_word_eqI) (auto simp: bit_simps)
    then show ?thesis by (simp add: WB_ERR_MASK_def)
  qed
  have "\<exists>v w'. wb_monitor_loop a x u = Some (v, w') \<and> ?Q v w'" if "kint u = kint w" for a u
    using that
  proof (induction "Suc N - length (io u)" arbitrary: u rule: less_induct)
    case less
    let ?v = "hw u (io u) a"
    let ?w1 = "emit (Rd a ?v) u"
    let ?late = "kint u (io ?w1) C_time_after"
    show ?case
    proof (cases "(?v AND WB_ERR_MASK \<noteq> 0 \<or> ?v = x) \<or> ?late \<noteq> 0")
      case True
      then show ?thesis
        using err by (subst wb_monitor_step) (auto simp: not_less)
    next
      case False
      then have "length (io ?w1) < N" using clock[of "io ?w1"] less.prems by (metis not_le)
      then have "\<exists>v w'. wb_monitor_loop a x (emit (KI C_time_after ?late) ?w1) = Some (v, w') \<and> ?Q v w'"
        by (intro less.hyps) (use less.prems in auto)
      with False show ?thesis by (subst wb_monitor_step) simp
    qed
  qed
  with assms(2) show ?thesis by (auto simp: engine_service_wb_monitor_def)
qed

definition demo_clock :: world where
  "demo_clock = quiet_world\<lparr>hw := (\<lambda>l _. if length l < 4 then 2 else 3),
     kint := (\<lambda>l _. if length l < 100 then 0 else 1)\<rparr>"

theorem engine_service_wb_monitor_ends_witness:
  "\<exists>v w'. engine_service_wb_monitor zero_engine 3 demo_clock = Some (v, w') \<and>
    (v = 3 \<or> v AND WB_ERR_MASK \<noteq> 0 \<or>
     (\<exists>late. last (io w') = KI C_time_after late \<and> late \<noteq> 0 \<and> v AND WB_COUNT_MASK \<le> 3))"
  by (rule engine_service_wb_monitor_ends[where N = 100]) (simp_all add: demo_clock_def)

text \<open>
  In interrupt mode the work item treats every engine as a WZ stream: for an engine whose WZ
  descriptors are not allocated, such as one used for ordinary reads and writes, it dereferences NULL.
\<close>

theorem engine_service_work_needs_wz:
  assumes "magic e = MAGIC_ENGINE" and "\<not> poll_mode w"
    and "arr_get (desc (wz_ext e)) (block_scanned_desc (wz_ext e)) = Some 0" and "dmem w 0 = None"
  shows "engine_service_work dev lro e w = Some None"
proof -
  have "wz_scan (block_scanned_desc (wz_ext e)) (wz_ext e) w' = Some None" if "dmem w' 0 = None" for w'
    using assms(3) that by (subst wz_scan.simps) simp
  with assms show ?thesis
    by (simp add: engine_service_work_def engine_service_cyclic_def wz_engine_service_cyclic_interrupt_def
        engine_status_read_def read_register_def Let_def)
qed

theorem engine_service_work_needs_wz_witness:
  "engine_service_work (\<lambda>_ r. r) zero_dev (zero_engine\<lparr>magic := MAGIC_ENGINE, transfer_list := [0x1000], running := True\<rparr>)
     quiet_world = Some None"
  by (rule engine_service_work_needs_wz)
    (simp_all add: zero_engine_def zero_ext_def WZ_DMA_NOFBUFS_def quiet_world_def)

end
