(* ===== verification/Xdma_Transfer.thy ===== *)
theory Xdma_Transfer
  imports Xdma_Ring
begin

text \<open>
  Ordinary reads and writes, from \<^verbatim>\<open>xdma-core.c\<close>: a user buffer is pinned, described by a scatterlist,
  turned into descriptors (\<^verbatim>\<open>transfer_build\<close>, \<^verbatim>\<open>transfer_create\<close>), queued and awaited
  (\<^verbatim>\<open>transfer_data\<close>, \<^verbatim>\<open>sg_aio_read_write\<close>).

  \<^verbatim>\<open>xdma_desc_force_complete\<close> and \<^verbatim>\<open>transfer_dump\<close> do nothing in the default configuration and
  \<^verbatim>\<open>XDMA_PERFORMANCE_TEST\<close> is undefined. \<open>sleep\<close> is what other contexts do to the engine while
  the task sleeps on a transfer.
\<close>

section \<open>Building descriptors\<close>

definition transfer_perf :: "xdma_transfer \<Rightarrow> nat \<Rightarrow> world \<Rightarrow> world option" where
  "transfer_perf t lst w = do {
     w \<leftarrow> xdma_desc_link (desc_ptr (desc_virt t) lst) 0 0 w;
     xdma_desc_control (desc_ptr (desc_virt t) lst)
       (XDMA_DESC_STOPPED OR XDMA_DESC_EOP OR XDMA_DESC_COMPLETED) w }"

text \<open>The loop of \<^verbatim>\<open>transfer_build\<close> carries the index of the descriptor being filled, the start and length
  of the contiguous block collected so far, the address of the current entry and the device address.\<close>

definition transfer_build_step ::
  "xdma_transfer \<Rightarrow> sg_entry list \<Rightarrow> bool \<Rightarrow> bool \<Rightarrow> bool \<Rightarrow> bool \<Rightarrow> nat \<Rightarrow>
     nat \<times> u64 \<times> u64 \<times> u32 \<times> u64 \<times> world \<Rightarrow> (nat \<times> u64 \<times> u64 \<times> u32 \<times> u64 \<times> world) option" where
  "transfer_build_step t sl to_dev non_incr force_new_desc user i s = (case s of (j, cont_addr, addr, cont_len, ep_addr, w) \<Rightarrow> do {
     sn \<leftarrow> arr_get sl (i + 1);
     si \<leftarrow> arr_get sl i;
     let next_addr = sg_dma_address sn;
     let len = sg_dma_len si;
     let cont_len = cont_len + len;
     let new_desc = (next_addr \<noteq> addr + ucast len \<or> cont_len > of_nat (XDMA_DESC_MAX_BYTES - 4096)
                     \<or> (force_new_desc \<and> \<not> user));
     if new_desc then do {
       w \<leftarrow> xdma_desc_set (desc_ptr (desc_virt t) j) cont_addr ep_addr cont_len to_dev w;
       let ep_addr = (if user then (if \<not> non_incr then ep_addr + ucast cont_len else ep_addr)
                      else ep_addr + ucast cont_len);
       Some (j + 1, next_addr, next_addr, 0, ep_addr, w)
     } else Some (j, cont_addr, next_addr, cont_len, ep_addr, w) })"

definition transfer_build ::
  "xdma_transfer \<Rightarrow> u64 \<Rightarrow> bool \<Rightarrow> bool \<Rightarrow> bool \<Rightarrow> bool \<Rightarrow> world \<Rightarrow> (nat \<times> world) option" where
  "transfer_build t ep_addr to_dev non_incr force_new_desc user w = do {
     m \<leftarrow> sgm t;
     s0 \<leftarrow> arr_get (sgl m) 0;
     (j, cont_addr, addr, cont_len, ep_addr, w) \<leftarrow>
       for_range 0 (sgl_nents t - 1) (transfer_build_step t (sgl m) to_dev non_incr force_new_desc user)
         (0, sg_dma_address s0, sg_dma_address s0, 0, ep_addr, w);
     sl \<leftarrow> arr_get (sgl m) (sgl_nents t - 1);
     let cont_len = cont_len + sg_dma_len sl;
     BUG_ON (j > sgl_nents t);
     w \<leftarrow> xdma_desc_set (desc_ptr (desc_virt t) j) cont_addr ep_addr cont_len to_dev w;
     Some (j, w) }"

text \<open>\<^verbatim>\<open>pci_map_sg\<close> gives the first entries a bus address and a length, and returns how many.\<close>

definition pci_map_sg :: "sg_mapping \<Rightarrow> world \<Rightarrow> nat \<times> sg_mapping \<times> world" where
  "pci_map_sg m w =
    (let (n, w) = call_int (C_dma_map_sg (mapped_pages m)) w;
         sl = map (\<lambda>(i, s). if i < nat n
                then s\<lparr>sg_dma_address := kptr w (io w) (C_sg_dma_address i),
                       sg_dma_len := ucast (kptr w (io w) (C_sg_dma_len i))\<rparr> else s)
              (List.enumerate 0 (sgl m))
     in (nat n, m\<lparr>sgl := sl\<rparr>, w))"

definition transfer_create ::
  "u64 \<Rightarrow> u64 \<Rightarrow> u64 \<Rightarrow> bool \<Rightarrow> bool \<Rightarrow> bool \<Rightarrow> bool \<Rightarrow> world \<Rightarrow> (u64 \<times> world) option" where
  "transfer_create start cnt ep_addr to_dev non_incr force_new_desc user w = do {
     let (p, w) = kzalloc_transfer w;
     if p = 0 then Some (0, w)
     else do {
       let (mo, w) = sg_create_mapper cnt w;
       m \<leftarrow> mo;
       (rc, m, w) \<leftarrow> (if user then sgm_get_user_pages m start cnt (\<not> to_dev) w
                      else sgm_kernel_pages m start cnt (\<not> to_dev) w);
       BUG_ON (rc < 0);
       BUG_ON (mapped_pages m = 0);
       let (nents, m, w) = pci_map_sg m w;
       (r, w) \<leftarrow> xdma_desc_alloc nents w;
       (virt, bus, _) \<leftarrow> r;
       let t = zero_transfer\<lparr>xfer_dir_to_dev := to_dev, sgm := Some m, userspace := user, sgl_nents := nents,
                 desc_virt := virt, desc_bus := bus\<rparr>;
       (lst, w) \<leftarrow> transfer_build t ep_addr to_dev non_incr force_new_desc user w;
       w \<leftarrow> transfer_perf t lst w;
       let t = t\<lparr>desc_num := lst + 1, desc_adjacent := lst + 1\<rparr>;
       w \<leftarrow> for_range 0 (desc_num t) (\<lambda>i. xdma_desc_adjacent (desc_ptr (desc_virt t) i) (desc_num t - i - 1)) w;
       w \<leftarrow> xfer_upd p (\<lambda>_. t) w;
       Some (p, w) } }"

section \<open>Alignment\<close>

definition check_transfer_align :: "xdma_engine \<Rightarrow> u64 \<Rightarrow> u64 \<Rightarrow> u64 \<Rightarrow> bool \<Rightarrow> int" where
  "check_transfer_align e buf count pos sync =
    (let buf_lsb = ucast buf AND (addr_align e - 1);
         pos_lsb = ucast pos AND (addr_align e - 1);
         len_lsb = count AND (ucast (len_granularity e) - 1) in
     if streaming e \<or> non_incr_addr e then
       if buf_lsb \<noteq> 0 then - EINVAL
       else if \<not> streaming e \<and> pos_lsb \<noteq> 0 \<and> sync then - EINVAL
       else if len_lsb \<noteq> 0 then - EINVAL
       else 0
     else if buf_lsb \<noteq> pos_lsb then - EINVAL
     else 0)"

section \<open>Synchronous I/O\<close>

text \<open>\<^verbatim>\<open>wait_event_interruptible(transfer->wq, transfer->state != TRANSFER_STATE_SUBMITTED)\<close>.\<close>

definition transfer_monitor ::
  "(io list \<Rightarrow> xdma_result list \<Rightarrow> xdma_result list) \<Rightarrow> (xdma_engine \<times> world \<Rightarrow> xdma_engine \<times> world) \<Rightarrow>
     xdma_engine \<Rightarrow> u64 \<Rightarrow> world \<Rightarrow> (int \<times> xdma_engine \<times> world) option option" where
  "transfer_monitor dev sleep e p w = (case xfers w p of
     None \<Rightarrow> Some None
   | Some t \<Rightarrow>
       if poll_mode w then engine_service_poll dev e (of_nat (desc_num t)) w
       else if state t \<noteq> TRANSFER_STATE_SUBMITTED then Some (Some (0, e, w))
       else (case sleep (e, w) of (e, w) \<Rightarrow>
         (case call_int (C_wait_event ''transfer_wq'') w of (rc, w) \<Rightarrow> Some (Some (rc, e, w)))))"

text \<open>One round of the loop of \<^verbatim>\<open>transfer_data\<close> after the transfer was created: mark it, queue it, wait for
  it and dispose of it. The result is 0 or an error.\<close>

definition transfer_round ::
  "xdma_dev \<Rightarrow> (io list \<Rightarrow> xdma_result list \<Rightarrow> xdma_result list) \<Rightarrow> (xdma_engine \<times> world \<Rightarrow> xdma_engine \<times> world) \<Rightarrow>
     bool \<Rightarrow> int \<Rightarrow> xdma_engine \<Rightarrow> u64 \<Rightarrow> world \<Rightarrow> (int \<times> xdma_engine \<times> world) option option" where
  "transfer_round lro dev sleep is_last req_size e p w =
    (case do {
       w \<leftarrow> (if is_last then xfer_upd p (\<lambda>t. t\<lparr>last_in_request := True, size_of_request := req_size\<rparr>) w else Some w);
       transfer_queue e p w } of
       None \<Rightarrow> Some None
     | Some (_, e, w) \<Rightarrow>
         (case transfer_monitor dev sleep e p w of
            None \<Rightarrow> None
          | Some None \<Rightarrow> Some None
          | Some (Some (rc, e, w)) \<Rightarrow> Some (do {
              t \<leftarrow> xfers w p;
              if state t \<noteq> TRANSFER_STATE_SUBMITTED then do {
                w \<leftarrow> transfer_destroy p w;
                Some (if state t \<noteq> TRANSFER_STATE_COMPLETED then - EIO else 0, e, w)
              } else if rc \<noteq> 0 then do {
                let (_, e, w) = engine_status_read e False w;
                (_, w) \<leftarrow> read_interrupts lro w;
                Some (- ERESTARTSYS, e, w)
              } else Some (0, e, w) })))"

function transfer_data_loop ::
  "xdma_dev \<Rightarrow> (io list \<Rightarrow> xdma_result list \<Rightarrow> xdma_result list) \<Rightarrow> (xdma_engine \<times> world \<Rightarrow> xdma_engine \<times> world) \<Rightarrow>
     u64 \<Rightarrow> int \<Rightarrow> u64 \<Rightarrow> int \<Rightarrow> xdma_engine \<Rightarrow> world \<Rightarrow> (int \<times> u64 \<times> xdma_engine \<times> world) option option" where
  "transfer_data_loop lro dev sleep transfer_addr remaining pos don e w =
    (if remaining \<le> 0 then Some (Some (don, pos, e, w))
     else let transfer_len = min remaining (int XDMA_TRANSFER_MAX_BYTES) in
       (case transfer_create transfer_addr (of_int transfer_len) pos (dir_to_dev e) (non_incr_addr e) False True w of
          None \<Rightarrow> Some None
        | Some (p, w) \<Rightarrow>
            if p = 0 then Some (Some (- EIO, pos, e, w))
            else (case transfer_round lro dev sleep (transfer_len \<ge> remaining) (don + transfer_len) e p w of
                None \<Rightarrow> None
              | Some None \<Rightarrow> Some None
              | Some (Some (res, e, w)) \<Rightarrow>
                  if res \<noteq> 0 then Some (Some (res, pos, e, w))
                  else transfer_data_loop lro dev sleep (transfer_addr + of_int transfer_len) (remaining - transfer_len)
                         (pos + of_int transfer_len) (don + transfer_len) e w)))"
  by pat_completeness auto
termination
  by (relation "measure (\<lambda>(_, _, _, _, remaining, _). nat remaining)") (auto simp: XDMA_TRANSFER_MAX_BYTES_def)

definition transfer_data ::
  "xdma_dev \<Rightarrow> (io list \<Rightarrow> xdma_result list \<Rightarrow> xdma_result list) \<Rightarrow> (xdma_engine \<times> world \<Rightarrow> xdma_engine \<times> world) \<Rightarrow>
     xdma_engine \<Rightarrow> u64 \<Rightarrow> int \<Rightarrow> u64 \<Rightarrow> world \<Rightarrow> (int \<times> u64 \<times> xdma_engine \<times> world) option option" where
  "transfer_data lro dev sleep e transfer_addr remaining pos w =
     transfer_data_loop lro dev sleep transfer_addr remaining pos 0 e w"

definition char_sgdma_read_write ::
  "xdma_dev \<Rightarrow> (io list \<Rightarrow> xdma_result list \<Rightarrow> xdma_result list) \<Rightarrow> (xdma_engine \<times> world \<Rightarrow> xdma_engine \<times> world) \<Rightarrow>
     xdma_engine \<Rightarrow> u64 \<Rightarrow> u64 \<Rightarrow> u64 \<Rightarrow> bool \<Rightarrow> world \<Rightarrow> (int \<times> u64 \<times> xdma_engine \<times> world) option option" where
  "char_sgdma_read_write lro dev sleep e buf count pos to_dev w =
    (if dev_magic lro \<noteq> MAGIC_DEVICE \<or> magic e \<noteq> MAGIC_ENGINE then Some None
     else if to_dev \<noteq> dir_to_dev e then Some (Some (- EINVAL, pos, e, w))
     else let rc = check_transfer_align e buf count pos True in
       if rc \<noteq> 0 then Some (Some (rc, pos, e, w))
       else transfer_data lro dev sleep e buf (sint count) pos w)"

definition char_sgdma_write ::
  "xdma_dev \<Rightarrow> (io list \<Rightarrow> xdma_result list \<Rightarrow> xdma_result list) \<Rightarrow> (xdma_engine \<times> world \<Rightarrow> xdma_engine \<times> world) \<Rightarrow>
     xdma_engine \<Rightarrow> u64 \<Rightarrow> u64 \<Rightarrow> u64 \<Rightarrow> world \<Rightarrow> (int \<times> u64 \<times> xdma_engine \<times> world) option option" where
  "char_sgdma_write lro dev sleep e buf count pos w = char_sgdma_read_write lro dev sleep e buf count pos True w"

definition char_sgdma_llseek :: "u64 \<Rightarrow> u64 \<Rightarrow> int \<Rightarrow> int \<times> u64" where
  "char_sgdma_llseek f_pos off whence =
    (let newpos = (if whence = 0 then Some off else if whence = 1 then Some (f_pos + off)
                   else if whence = 2 then Some (0xFFFFFFFF + off) else None) in
     case newpos of
       None \<Rightarrow> (- EINVAL, f_pos)
     | Some newpos \<Rightarrow> if sint newpos < 0 then (- EINVAL, f_pos) else (sint newpos, newpos))"

section \<open>Asynchronous I/O\<close>

text \<open>The transfers of one segment of a vector; every one of them starts at the same device address \<open>pos\<close>.\<close>

function aio_segment ::
  "u64 \<Rightarrow> bool \<Rightarrow> u64 \<Rightarrow> u64 \<Rightarrow> nat \<Rightarrow> nat \<Rightarrow> xdma_engine \<Rightarrow> world \<Rightarrow> (xdma_engine \<times> world) option" where
  "aio_segment cb to_dev pos transfer_addr remaining don e w =
    (if remaining = 0 then Some (e, w)
     else let transfer_len = min remaining XDMA_TRANSFER_MAX_BYTES in
       (case transfer_create transfer_addr (of_nat transfer_len) pos to_dev False False True w of
          None \<Rightarrow> None
        | Some (p, w) \<Rightarrow>
            if p = 0 then None
            else (case do {
                w \<leftarrow> xfer_upd p (\<lambda>t. t\<lparr>iocb := cb\<rparr>) w;
                w \<leftarrow> (if transfer_len \<ge> remaining
                      then xfer_upd p (\<lambda>t. t\<lparr>last_in_request := True, size_of_request := int (don + transfer_len)\<rparr>) w
                      else Some w);
                transfer_queue e p w } of
                None \<Rightarrow> None
              | Some (_, e, w) \<Rightarrow>
                  aio_segment cb to_dev pos (transfer_addr + of_nat transfer_len) (remaining - transfer_len)
                    (don + transfer_len) e w)))"
  by pat_completeness auto
termination
  by (relation "measure (\<lambda>(_, _, _, _, remaining, _). remaining)") (auto simp: XDMA_TRANSFER_MAX_BYTES_def)

fun aio_segments ::
  "u64 \<Rightarrow> bool \<Rightarrow> u64 \<Rightarrow> (u64 \<times> u64) list \<Rightarrow> xdma_engine \<Rightarrow> world \<Rightarrow> (int \<times> xdma_engine \<times> world) option" where
  "aio_segments cb to_dev pos [] e w = Some (- EIOCBQUEUED, e, w)"
| "aio_segments cb to_dev pos ((buf, count) # iov) e w =
    (let rc = check_transfer_align e buf count pos False in
     if rc \<noteq> 0 then Some (rc, e, w)
     else do {
       (e, w) \<leftarrow> aio_segment cb to_dev pos buf (unat count) 0 e w;
       aio_segments cb to_dev pos iov e w })"

definition sg_aio_read_write ::
  "xdma_dev \<Rightarrow> xdma_engine \<Rightarrow> u64 \<Rightarrow> (u64 \<times> u64) list \<Rightarrow> u64 \<Rightarrow> bool \<Rightarrow> world \<Rightarrow> (int \<times> xdma_engine \<times> world) option" where
  "sg_aio_read_write lro e cb iov pos to_dev w = do {
     BUG_ON (dev_magic lro \<noteq> MAGIC_DEVICE);
     BUG_ON (magic e \<noteq> MAGIC_ENGINE);
     aio_segments cb to_dev pos iov e w }"

definition sg_aio_read ::
  "xdma_dev \<Rightarrow> xdma_engine \<Rightarrow> u64 \<Rightarrow> (u64 \<times> u64) list \<Rightarrow> u64 \<Rightarrow> world \<Rightarrow> (int \<times> xdma_engine \<times> world) option" where
  "sg_aio_read lro e cb iov pos w = sg_aio_read_write lro e cb iov pos False w"

definition sg_aio_write ::
  "xdma_dev \<Rightarrow> xdma_engine \<Rightarrow> u64 \<Rightarrow> (u64 \<times> u64) list \<Rightarrow> u64 \<Rightarrow> world \<Rightarrow> (int \<times> xdma_engine \<times> world) option" where
  "sg_aio_write lro e cb iov pos w = sg_aio_read_write lro e cb iov pos True w"

section \<open>The performance test loop\<close>

text \<open>\<^verbatim>\<open>xdma_performance_submit\<close>. The allocation of the buffer is not checked: a NULL buffer leaves an
  arbitrary bus address, which the kernel's answer stands for. The sizes are C \<^verbatim>\<open>int\<close>s: the product
  wraps, and the comparisons with the unsigned limit are unsigned.\<close>

definition xdma_performance_submit :: "xdma_engine \<Rightarrow> world \<Rightarrow> (int \<times> xdma_engine \<times> world) option" where
  "xdma_performance_submit e w = do {
     pf \<leftarrow> xdma_perf e;
     let max_consistent_size = (128 * 32 * 1024 :: u32);
     let size_in_desc = transfer_size pf;
     let size = size_in_desc * 128;
     BUG_ON (size_in_desc > max_consistent_size);
     let (size, num) = (if size > max_consistent_size
                        then (max_consistent_size, unat (max_consistent_size div size_in_desc)) else (size, 128));
     let (_, w) = call_ptr (C_pci_alloc_consistent (unat size)) w;
     let buffer_bus = kptr w (io w) (C_misc ''buffer_bus'' 0);
     let (p, w) = kzalloc_transfer w;
     BUG_ON (p = 0);
     (r, w) \<leftarrow> xdma_desc_alloc num w;
     (virt, bus, _) \<leftarrow> r;
     w \<leftarrow> for_range 0 num (\<lambda>i w. xdma_desc_set (desc_ptr virt i) (buffer_bus + ucast (size_in_desc * of_nat i)) 0
            size_in_desc (dir_to_dev e) w) w;
     w \<leftarrow> xdma_desc_control virt 0 w;
     w \<leftarrow> xdma_desc_link (desc_ptr virt (num - 1)) virt bus w;
     w \<leftarrow> xfer_upd p (\<lambda>t. t\<lparr>xfer_dir_to_dev := dir_to_dev e, desc_num := num, desc_virt := virt, desc_bus := bus,
            cyclic := True\<rparr>) w;
     (_, e, w) \<leftarrow> transfer_queue e p w;
     Some (0, e, w) }"

section \<open>The descriptors of a scatterlist\<close>

declare transfer_data_loop.simps [simp del] aio_segment.simps [simp del]

text \<open>Abstractly, the entries of a scatterlist are merged into contiguous blocks. A block ends where the
  next entry does not continue it, where it might exceed the largest descriptor, or always (\<open>f\<close>).\<close>

fun blocks :: "bool \<Rightarrow> u64 \<Rightarrow> nat \<Rightarrow> (u64 \<times> nat) list \<Rightarrow> (u64 \<times> nat) list" where
  "blocks f ca cl [] = []"
| "blocks f ca cl [(a, l)] = [(ca, cl + l)]"
| "blocks f ca cl ((a, l) # (a', l') # es) =
    (if a' \<noteq> a + of_nat l \<or> cl + l > XDMA_DESC_MAX_BYTES - 4096 \<or> f
     then (ca, cl + l) # blocks f a' 0 ((a', l') # es) else blocks f ca (cl + l) ((a', l') # es))"

text \<open>The bus addresses of the bytes of a block.\<close>

definition host :: "u64 \<times> nat \<Rightarrow> u64 list" where
  "host b = map (\<lambda>k. fst b + of_nat k) [0..<snd b]"

lemma host_add: "host (a, l + m) = host (a, l) @ host (a + of_nat l, m)"
proof -
  have "[l..<l + m] = map (\<lambda>k. l + k) [0..<m]" using map_add_upt[of l m] by (simp add: add.commute)
  then have "map (\<lambda>k. a + of_nat k) [0..<l + m] = map (\<lambda>k. a + of_nat k) [0..<l] @ map (\<lambda>k. a + of_nat l + of_nat k) [0..<m]"
    using upt_add_eq_append[of 0 l m] by (simp add: add.assoc)
  then show ?thesis by (simp add: host_def)
qed

lemma length_host [simp]: "length (host b) = snd b"
  by (simp add: host_def)

lemma host_0 [simp]: "host (a, 0) = []"
  by (simp add: host_def)

lemma blocks_cover:
  assumes "es \<noteq> []" and "ca + of_nat cl = fst (hd es)"
  shows "concat (map host (blocks f ca cl es)) = host (ca, cl) @ concat (map host es)"
  using assms by (induction f ca cl es rule: blocks.induct) (auto simp: host_add add.assoc)

lemma blocks_bound:
  assumes "\<forall>(a, l) \<in> set es. l \<le> 4096" and "cl \<le> XDMA_DESC_MAX_BYTES - 4096"
  shows "\<forall>(a, l) \<in> set (blocks f ca cl es). l \<le> XDMA_DESC_MAX_BYTES"
  using assms by (induction f ca cl es rule: blocks.induct) (auto simp: XDMA_DESC_MAX_BYTES_def)

lemma blocks_length:
  "length (blocks f ca cl es) \<le> length es" "es \<noteq> [] \<Longrightarrow> blocks f ca cl es \<noteq> []"
  by (induction f ca cl es rule: blocks.induct) auto

lemma blocks_sum: "es \<noteq> [] \<Longrightarrow> sum_list (map snd (blocks f ca cl es)) = cl + sum_list (map snd es)"
  by (induction f ca cl es rule: blocks.induct) auto

text \<open>Writing the blocks into consecutive descriptors; \<open>inc\<close> is the incrementing device address.\<close>

fun set_blocks :: "bool \<Rightarrow> bool \<Rightarrow> u64 \<Rightarrow> nat \<Rightarrow> u64 \<Rightarrow> (u64 \<times> nat) list \<Rightarrow> world \<Rightarrow> world option" where
  "set_blocks to_dev inc dv j ep [] w = Some w"
| "set_blocks to_dev inc dv j ep ((a, l) # bs) w = do {
     w \<leftarrow> xdma_desc_set (desc_ptr dv j) a ep (of_nat l) to_dev w;
     set_blocks to_dev inc dv (Suc j) (if inc then ep + of_nat l else ep) bs w }"

fun with_ep :: "bool \<Rightarrow> u64 \<Rightarrow> (u64 \<times> nat) list \<Rightarrow> (u64 \<times> u64 \<times> nat) list" where
  "with_ep inc ep [] = []"
| "with_ep inc ep ((a, l) # bs) = (a, ep, l) # with_ep inc (if inc then ep + of_nat l else ep) bs"

lemma with_ep_length [simp]: "length (with_ep inc ep bs) = length bs"
  by (induction inc ep bs rule: with_ep.induct) auto

lemma map_upt_shift: "map (\<lambda>k. ep + of_nat k) [0..<l + n] =
    map (\<lambda>k. ep + of_nat k) [0..<l] @ map (\<lambda>k. (ep + of_nat l) + of_nat k) [0..<n]" for ep :: u64
  using host_add[of ep l n] by (simp add: host_def)

lemma with_ep_copies:
  "concat (map (\<lambda>(a, p, l). map (\<lambda>k. (a + of_nat k, p + of_nat k)) [0..<l]) (with_ep True ep bs)) =
   zip (concat (map host bs)) (map (\<lambda>k. ep + of_nat k) [0..<sum_list (map snd bs)])"
proof (induction bs arbitrary: ep)
  case Nil
  then show ?case by simp
next
  case (Cons b bs)
  obtain a l where b: "b = (a, l)" by fastforce
  have "zip (host (a, l)) (map (\<lambda>k. ep + of_nat k) [0..<l]) = map (\<lambda>k. (a + of_nat k, ep + of_nat k)) [0..<l]"
    by (simp add: host_def zip_map1 zip_map2 zip_same_conv_map)
  with Cons[of "ep + of_nat l"] show ?case
    by (simp only: b map_upt_shift list.map sum_list.Cons snd_conv concat.simps with_ep.simps if_True prod.case)
      (simp add: zip_append)
qed

lemma set_blocks_effect:
  assumes "\<forall>k < length bs. dmem w (desc_ptr dv (j + k)) \<noteq> None" and "j + length bs < 2 ^ 59"
  shows "\<exists>w'. set_blocks to_dev inc dv j ep bs w = Some w' \<and> w' = w\<lparr>dmem := dmem w'\<rparr> \<and>
    (\<forall>k < length bs. dmem w' (desc_ptr dv (j + k)) =
       map_option (set_eff (case with_ep inc ep bs ! k of (a, p, l) \<Rightarrow> (a, p, of_nat l, to_dev))) (dmem w (desc_ptr dv (j + k)))) \<and>
    (\<forall>q. (\<forall>k < length bs. q \<noteq> desc_ptr dv (j + k)) \<longrightarrow> dmem w' q = dmem w q)"
  using assms
proof (induction to_dev inc dv j ep bs w rule: set_blocks.induct)
  case (1 to_dev inc dv j ep w)
  then show ?case by simp
next
  case (2 to_dev inc dv j ep a l bs w)
  from 2(2) obtain d where d: "dmem w (desc_ptr dv j) = Some d" by force
  let ?w = "w\<lparr>dmem := (dmem w)(desc_ptr dv j \<mapsto> set_eff (a, ep, of_nat l, to_dev) d)\<rparr>"
  let ?ep = "if inc then ep + of_nat l else ep"
  have set: "xdma_desc_set (desc_ptr dv j) a ep (of_nat l) to_dev w = Some ?w"
    using d by (simp add: desc_simps)
  have ne: "desc_ptr dv (Suc j + k) \<noteq> desc_ptr dv j" if "k < length bs" for k
    using desc_ptr_inj[of "Suc j + k" j dv] 2(3) that by simp
  have pre: "\<forall>k < length bs. dmem ?w (desc_ptr dv (Suc j + k)) \<noteq> None"
    using 2(2) by (auto simp: less_Suc_eq_0_disj)
  obtain w' where w': "set_blocks to_dev inc dv (Suc j) ?ep bs ?w = Some w'" "w' = ?w\<lparr>dmem := dmem w'\<rparr>"
    and at: "\<forall>k < length bs. dmem w' (desc_ptr dv (Suc j + k)) =
       map_option (set_eff (case with_ep inc ?ep bs ! k of (a, p, l) \<Rightarrow> (a, p, of_nat l, to_dev))) (dmem ?w (desc_ptr dv (Suc j + k)))"
    and oth: "\<forall>q. (\<forall>k < length bs. q \<noteq> desc_ptr dv (Suc j + k)) \<longrightarrow> dmem w' q = dmem ?w q"
    using 2(1)[OF set pre] 2(3) by auto
  have "dmem w' (desc_ptr dv j) = Some (set_eff (a, ep, of_nat l, to_dev) d)"
    using oth ne by (auto simp: eq_commute)
  then have all: "dmem w' (desc_ptr dv (j + k)) = map_option (set_eff (case with_ep inc ep ((a, l) # bs) ! k of
      (a, p, l) \<Rightarrow> (a, p, of_nat l, to_dev))) (dmem w (desc_ptr dv (j + k)))" if "k < length ((a, l) # bs)" for k
    using at ne d that by (cases k) auto
  have "dmem w' q = dmem w q" if "\<forall>k < length ((a, l) # bs). q \<noteq> desc_ptr dv (j + k)" for q
  proof -
    have "q \<noteq> desc_ptr dv j" using that by (metis add.right_neutral length_Cons zero_less_Suc)
    moreover have "q \<noteq> desc_ptr dv (Suc j + k)" if "k < length bs" for k
      using \<open>\<forall>k < length ((a, l) # bs). q \<noteq> desc_ptr dv (j + k)\<close> that by (metis Suc_less_eq add_Suc_shift length_Cons)
    ultimately show ?thesis using oth by auto
  qed
  moreover have "w' = w\<lparr>dmem := dmem w'\<rparr>" using w'(2) by (metis world.update_convs(8) world.surjective)
  ultimately show ?case using set w'(1) all by (intro exI[of _ w']) auto
qed

text \<open>The entries of a scatterlist from index \<open>i\<close> on, as the loop sees them.\<close>

definition sg_list :: "sg_entry list \<Rightarrow> (u64 \<times> nat) list" where
  "sg_list sl = map (\<lambda>s. (sg_dma_address s, unat (sg_dma_len s))) sl"

definition build_finish ::
  "xdma_transfer \<Rightarrow> sg_entry list \<Rightarrow> bool \<Rightarrow> nat \<times> u64 \<times> u64 \<times> u32 \<times> u64 \<times> world \<Rightarrow> (nat \<times> world) option" where
  "build_finish t sl to_dev s = (case s of (j, cont_addr, addr, cont_len, ep_addr, w) \<Rightarrow> do {
     s \<leftarrow> arr_get sl (sgl_nents t - 1);
     BUG_ON (j > sgl_nents t);
     w \<leftarrow> xdma_desc_set (desc_ptr (desc_virt t) j) cont_addr ep_addr (cont_len + sg_dma_len s) to_dev w;
     Some (j, w) })"

lemma transfer_build_finish:
  "transfer_build t ep to_dev non_incr f user w = do {
     m \<leftarrow> sgm t; s0 \<leftarrow> arr_get (sgl m) 0;
     s \<leftarrow> for_range 0 (sgl_nents t - 1) (transfer_build_step t (sgl m) to_dev non_incr f user)
         (0, sg_dma_address s0, sg_dma_address s0, 0, ep, w);
     build_finish t (sgl m) to_dev s }"
  by (simp add: transfer_build_def build_finish_def Let_def split_def)

lemma sg_list_drop:
  assumes "sg_list (drop i (take n sl)) = e # es" and "n \<le> length sl"
  shows "i < n" "sg_dma_address (sl ! i) = fst e" "sg_dma_len (sl ! i) = of_nat (snd e)"
    "sg_list (drop (Suc i) (take n sl)) = es" "length es = n - Suc i"
proof -
  have "length (drop i (take n sl)) = Suc (length es)"
    using arg_cong[OF assms(1), of length] by (simp add: sg_list_def)
  then show i: "i < n" and "length es = n - Suc i" using assms(2) by auto
  have "drop i (take n sl) = sl ! i # drop (Suc i) (take n sl)"
    using i assms(2) Cons_nth_drop_Suc[of i "take n sl"] by simp
  with assms(1) have e: "e = (sg_dma_address (sl ! i), unat (sg_dma_len (sl ! i)))"
    and "sg_list (drop (Suc i) (take n sl)) = es" by (simp_all add: sg_list_def)
  then show "sg_list (drop (Suc i) (take n sl)) = es" "sg_dma_address (sl ! i) = fst e"
    "sg_dma_len (sl ! i) = of_nat (snd e)" by simp_all
qed

text \<open>One round of the loop over the scatterlist: at entry \<open>i\<close> the run is cut, or grows by its length.\<close>

lemma transfer_build_step_run:
  assumes "Suc i < length sl" and "sg_dma_len (sl ! i) = of_nat l" and "sg_dma_address (sl ! Suc i) = a'"
    and "l \<le> 4096" and "cl \<le> XDMA_DESC_MAX_BYTES - 4096"
  shows "transfer_build_step t sl to_dev non_incr f user i (j, ca, a, of_nat cl, ep, w) =
      (if a' \<noteq> a + of_nat l \<or> cl + l > XDMA_DESC_MAX_BYTES - 4096 \<or> (f \<and> \<not> user)
       then do { w \<leftarrow> xdma_desc_set (desc_ptr (desc_virt t) j) ca ep (of_nat (cl + l)) to_dev w;
                 Some (j + 1, a', a', 0, if \<not> (user \<and> non_incr) then ep + of_nat (cl + l) else ep, w) }
       else Some (j, ca, a', of_nat (cl + l), ep, w))"
proof -
  have ul: "ucast (of_nat l :: u32) = (of_nat l :: u64)" "ucast (of_nat (cl + l) :: u32) = (of_nat (cl + l) :: u64)"
    using assms(4,5) by (simp_all add: unsigned_of_nat take_bit_nat_eq_self XDMA_DESC_MAX_BYTES_def del: of_nat_add)
  have big: "((of_nat (XDMA_DESC_MAX_BYTES - 4096) :: u32) < of_nat (cl + l)) \<longleftrightarrow> cl + l > XDMA_DESC_MAX_BYTES - 4096"
    by (rule less_small32) (use assms(4,5) in \<open>simp_all add: XDMA_DESC_MAX_BYTES_def\<close>)
  have sum: "(of_nat cl + of_nat l :: u32) = of_nat (cl + l)" by simp
  show ?thesis
    using assms(1-3) unfolding transfer_build_step_def by (simp add: Let_def sum ul big del: of_nat_add)
qed

lemma build_loop_blocks:
  assumes "sg_list (drop i (take n sl)) = es" and "es \<noteq> []" and "n \<le> length sl" and "sgl_nents t = n"
    and "\<forall>(a, l) \<in> set es. l \<le> 4096" and "cl \<le> XDMA_DESC_MAX_BYTES - 4096" and "j \<le> i"
  shows "do { s \<leftarrow> for_range i (n - 1 - i) (transfer_build_step t sl to_dev non_incr f user)
                (j, ca, fst (hd es), of_nat cl, ep, w);
              build_finish t sl to_dev s } =
    map_option (\<lambda>w. (j + length (blocks (f \<and> \<not> user) ca cl es) - 1, w))
      (set_blocks to_dev (\<not> (user \<and> non_incr)) (desc_virt t) j ep (blocks (f \<and> \<not> user) ca cl es) w)"
  using assms
proof (induction "f \<and> \<not> user" ca cl es arbitrary: i j ep w rule: blocks.induct)
  case (1 ca cl)
  then show ?case by simp
next
  case (2 ca cl a l)
  note d = sg_list_drop[OF 2(1,3)]
  then have i: "n - 1 - i = 0" "n - Suc 0 = i" by auto
  have "(of_nat cl + of_nat l :: u32) = of_nat (cl + l)" by simp
  then show ?case
    using i d(1-3) 2(3,4,7)
    by (cases "xdma_desc_set (desc_ptr (desc_virt t) j) ca ep (of_nat (cl + l)) to_dev w")
      (simp_all add: build_finish_def BUG_ON_def)
next
  case (3 ca cl a l a' l' es)
  let ?F = "f \<and> \<not> user"
  note d = sg_list_drop[OF 3(3,5)]
  note d' = sg_list_drop[OF d(4) 3(5)]
  have l: "l \<le> 4096" using 3(7) by auto
  let ?cut = "a' \<noteq> a + of_nat l \<or> cl + l > XDMA_DESC_MAX_BYTES - 4096 \<or> (f \<and> \<not> user)"
  let ?ep = "if \<not> (user \<and> non_incr) then ep + of_nat (cl + l) else ep"
  let ?set = "xdma_desc_set (desc_ptr (desc_virt t) j) ca ep (of_nat (cl + l)) to_dev w"
  let ?rest = "\<lambda>s. do { s \<leftarrow> for_range (Suc i) (n - 1 - Suc i) (transfer_build_step t sl to_dev non_incr f user) s;
                         build_finish t sl to_dev s }"
  have step: "transfer_build_step t sl to_dev non_incr f user i (j, ca, a, of_nat cl, ep, w) =
      (if ?cut then do { w \<leftarrow> ?set; Some (j + 1, a', a', 0, ?ep, w) } else Some (j, ca, a', of_nat (cl + l), ep, w))"
    by (rule transfer_build_step_run) (use d d' 3(5,8) l in simp_all)
  have split: "n - 1 - i = Suc (n - 1 - Suc i)" using d'(1) by simp
  show ?case
  proof (cases ?cut)
    case True
    have IH: "?rest (Suc j, a', a', of_nat 0, ?ep, w') =
        map_option (\<lambda>w. (Suc j + length (blocks (f \<and> \<not> user) a' 0 ((a', l') # es)) - 1, w))
          (set_blocks to_dev (\<not> (user \<and> non_incr)) (desc_virt t) (Suc j) ?ep (blocks (f \<and> \<not> user) a' 0 ((a', l') # es)) w')" for w'
      using 3(1)[OF True d(4) _ 3(5,6), where j = "Suc j" and w = w' and ep = ?ep] 3(7,9) by simp
    show ?thesis
      unfolding split for_range.simps list.sel fst_conv step
      using True IH blocks_length(2)[of "(a', l') # es" "f \<and> \<not> user" a' 0]
      by (cases ?set) (simp_all del: of_nat_add add: Suc_leI)
  next
    case False
    have IH: "?rest (j, ca, a', of_nat (cl + l), ep, w) =
        map_option (\<lambda>w. (j + length (blocks (f \<and> \<not> user) ca (cl + l) ((a', l') # es)) - 1, w))
          (set_blocks to_dev (\<not> (user \<and> non_incr)) (desc_virt t) j ep (blocks (f \<and> \<not> user) ca (cl + l) ((a', l') # es)) w)"
      using 3(2)[OF False d(4) _ 3(5,6), where j = j and w = w and ep = ep] 3(7,9) False by simp
    show ?thesis
      unfolding split for_range.simps list.sel fst_conv step blocks.simps(3) if_not_P[OF False] Option.bind.simps(2) IH
      by (rule refl)
  qed
qed

text \<open>What the device copies for a descriptor: the pairs of host bus address and device address, byte by
  byte, in order.\<close>

definition desc_copies :: "bool \<Rightarrow> xdma_desc \<Rightarrow> (u64 \<times> u64) list" where
  "desc_copies to_dev d = map (\<lambda>k. if to_dev then (src_addr d + of_nat k, dst_addr d + of_nat k)
      else (dst_addr d + of_nat k, src_addr d + of_nat k)) [0..<unat (bytes d)]"

lemma desc_copies_set_eff:
  assumes "l \<le> XDMA_DESC_MAX_BYTES"
  shows "desc_copies to_dev (set_eff (a, p, of_nat l, to_dev) d) = map (\<lambda>k. (a + of_nat k, p + of_nat k)) [0..<l]"
    and "unat (bytes (set_eff (a, p, of_nat l, to_dev) d)) = l"
proof -
  have l: "unat (of_nat l :: u32) = l" using assms by (intro unat_small32) (simp add: XDMA_DESC_MAX_BYTES_def)
  then show "unat (bytes (set_eff (a, p, of_nat l, to_dev) d)) = l" by (simp add: set_eff_def Let_def)
  show "desc_copies to_dev (set_eff (a, p, of_nat l, to_dev) d) = map (\<lambda>k. (a + of_nat k, p + of_nat k)) [0..<l]"
    unfolding desc_copies_def by (simp add: set_eff_def Let_def l src_addr_def dst_addr_def)
qed

lemma transfer_build_blocks:
  fixes f user :: bool
  assumes "sgm t = Some m" and "0 < sgl_nents t" and "sgl_nents t \<le> length (sgl m)"
    and "\<forall>s \<in> set (take (sgl_nents t) (sgl m)). unat (sg_dma_len s) \<le> 4096"
  defines "es \<equiv> sg_list (take (sgl_nents t) (sgl m))"
  defines "bs \<equiv> blocks (f \<and> \<not> user) (fst (hd es)) 0 es"
  shows "transfer_build t ep to_dev non_incr f user w =
    map_option (\<lambda>w. (length bs - 1, w)) (set_blocks to_dev (\<not> (user \<and> non_incr)) (desc_virt t) 0 ep bs w)"
proof -
  have ne: "es \<noteq> []" using assms(2,3) by (auto simp: es_def sg_list_def)
  have hd: "fst (hd es) = sg_dma_address (sgl m ! 0)"
    using assms(2,3) ne by (simp add: es_def sg_list_def hd_conv_nth)
  have g: "arr_get (sgl m) 0 = Some (sgl m ! 0)" using assms(2,3) by (intro arr_get_in) linarith
  have "\<forall>(a, l) \<in> set es. l \<le> 4096" using assms(4) by (auto simp: es_def sg_list_def)
  with ne build_loop_blocks[where i = 0 and n = "sgl_nents t" and sl = "sgl m" and es = es and t = t and cl = 0 and j = 0
      and ca = "fst (hd es)" and to_dev = to_dev and non_incr = non_incr and f = f and user = user and ep = ep and w = w]
  show ?thesis
    using assms(1-3) unfolding transfer_build_finish bs_def by (simp add: es_def hd[unfolded es_def] g)
qed

text \<open>
  C6. \<^verbatim>\<open>transfer_build\<close> merges a mapped scatterlist into descriptors that together copy exactly its bytes:
  byte \<open>k\<close> of the list is paired with device address \<open>ep_addr + k\<close>, in order, each byte once. It uses at
  most one descriptor per entry and none exceeds the device's limit.
\<close>

theorem transfer_build_copies:
  assumes "sgm t = Some m" and "0 < sgl_nents t" and "sgl_nents t \<le> length (sgl m)"
    and "\<forall>s \<in> set (take (sgl_nents t) (sgl m)). unat (sg_dma_len s) \<le> 4096"
    and "\<not> (user \<and> non_incr)" and "sgl_nents t < 2 ^ 32"
    and "\<forall>i < sgl_nents t. dmem w (desc_ptr (desc_virt t) i) \<noteq> None"
  shows "\<exists>j w'. transfer_build t ep_addr to_dev non_incr force_new_desc user w = Some (j, w') \<and> j < sgl_nents t \<and>
    (let ds = map (\<lambda>i. the (dmem w' (desc_ptr (desc_virt t) i))) [0..<Suc j];
         es = sg_list (take (sgl_nents t) (sgl m)) in
     concat (map (desc_copies to_dev) ds) =
       zip (concat (map host es)) (map (\<lambda>k. ep_addr + of_nat k) [0..<sum_list (map snd es)]) \<and>
     (\<forall>d \<in> set ds. unat (bytes d) \<le> XDMA_DESC_MAX_BYTES))"
proof -
  define es where "es = sg_list (take (sgl_nents t) (sgl m))"
  define bs where "bs = blocks (force_new_desc \<and> \<not> user) (fst (hd es)) 0 es"
  let ?p = "\<lambda>i. desc_ptr (desc_virt t) i"
  have ne: "es \<noteq> []" and len: "length es = sgl_nents t" using assms(2,3) by (auto simp: es_def sg_list_def)
  then have bl: "0 < length bs" "length bs \<le> sgl_nents t"
    using blocks_length(1)[of "force_new_desc \<and> \<not> user" "fst (hd es)" 0 es]
      blocks_length(2)[of es "force_new_desc \<and> \<not> user" "fst (hd es)" 0] by (auto simp: bs_def)
  have "\<forall>(a, l) \<in> set es. l \<le> 4096" using assms(4) by (auto simp: es_def sg_list_def)
  then have bound: "\<forall>(a, l) \<in> set bs. l \<le> XDMA_DESC_MAX_BYTES"
    unfolding bs_def by (rule blocks_bound) simp
  obtain w' where w': "set_blocks to_dev True (desc_virt t) 0 ep_addr bs w = Some w'"
    "\<forall>k < length bs. dmem w' (?p k) = map_option (set_eff (case with_ep True ep_addr bs ! k of (a, p, l) \<Rightarrow> (a, p, of_nat l, to_dev)))
       (dmem w (?p k))"
    using set_blocks_effect[of bs w "desc_virt t" 0 to_dev True ep_addr] assms(6,7) bl(2) by auto
  let ?ds = "map (\<lambda>i. the (dmem w' (?p i))) [0..<length bs]"
  have lk: "snd (snd (with_ep True ep_addr bs ! k)) \<le> XDMA_DESC_MAX_BYTES" if "k < length bs" for k
  proof -
    have "map (snd \<circ> snd) (with_ep True ep bs') = map snd bs'" for ep bs' by (induction bs' arbitrary: ep) auto
    then have "snd (snd (with_ep True ep_addr bs ! k)) = snd (bs ! k)"
      using that by (metis comp_apply nth_map with_ep_length)
    with bound that show ?thesis by (metis (no_types, lifting) case_prodE nth_mem prod.sel(2))
  qed
  have d: "desc_copies to_dev (the (dmem w' (?p k))) = (case with_ep True ep_addr bs ! k of (a, p, l) \<Rightarrow> map (\<lambda>i. (a + of_nat i, p + of_nat i)) [0..<l])
      \<and> unat (bytes (the (dmem w' (?p k)))) \<le> XDMA_DESC_MAX_BYTES" if "k < length bs" for k
  proof -
    obtain a p l where k: "with_ep True ep_addr bs ! k = (a, p, l)" by (cases "with_ep True ep_addr bs ! k")
    obtain x where "dmem w (?p k) = Some x" using assms(7) bl(2) \<open>k < length bs\<close> by fastforce
    with w'(2) \<open>k < length bs\<close> k have "dmem w' (?p k) = Some (set_eff (a, p, of_nat l, to_dev) x)" by simp
    moreover have "l \<le> XDMA_DESC_MAX_BYTES" using lk[OF \<open>k < length bs\<close>] k by simp
    ultimately show ?thesis by (simp add: k desc_copies_set_eff)
  qed
  have "map (desc_copies to_dev) ?ds = map (\<lambda>(a, p, l). map (\<lambda>i. (a + of_nat i, p + of_nat i)) [0..<l]) (with_ep True ep_addr bs)"
    by (rule nth_equalityI) (auto simp: d)
  then have "concat (map (desc_copies to_dev) ?ds) =
      zip (concat (map host es)) (map (\<lambda>k. ep_addr + of_nat k) [0..<sum_list (map snd es)])"
    using with_ep_copies[of ep_addr bs] blocks_cover[OF ne, of "fst (hd es)" 0] blocks_sum[OF ne, of _ "fst (hd es)" 0]
    by (simp add: bs_def)
  moreover have "\<forall>x \<in> set ?ds. unat (bytes x) \<le> XDMA_DESC_MAX_BYTES" using d by auto
  moreover have "transfer_build t ep_addr to_dev non_incr force_new_desc user w = Some (length bs - 1, w')"
    using transfer_build_blocks[OF assms(1-4), of ep_addr to_dev non_incr force_new_desc user w] w'(1) assms(5)
    by (simp add: bs_def es_def)
  moreover have "Suc (length bs - 1) = length bs" "length bs - 1 < sgl_nents t" using bl by linarith+
  ultimately show ?thesis
    by (intro exI[of _ "length bs - 1"] exI[of _ w']) (simp only: Let_def es_def[symmetric] simp_thms)
qed

definition demo_sgm :: sg_mapping where
  "demo_sgm = \<lparr>sgm_ptr = 0x10, sgl_ptr = 0x20, pages_ptr = 0x30,
     sgl = map (\<lambda>(a, l). zero_sg\<lparr>sg_dma_address := a, sg_dma_len := l\<rparr>) [(0x1000, 4096), (0x2000, 4096), (0x9000, 16)],
     pages = [1, 2, 9], max_pages = 3, mapped_pages = 3\<rparr>"

definition demo_transfer :: xdma_transfer where
  "demo_transfer = zero_transfer\<lparr>sgm := Some demo_sgm, sgl_nents := 3, desc_virt := 0x100, desc_bus := 0x100\<rparr>"

theorem transfer_build_copies_witness:
  "\<exists>j w'. transfer_build demo_transfer 0x80000 True False False True
       (quiet_world\<lparr>dmem := [0x100 \<mapsto> zero_desc, 0x120 \<mapsto> zero_desc, 0x140 \<mapsto> zero_desc]\<rparr>) = Some (j, w') \<and> j < 3 \<and>
     concat (map (\<lambda>i. desc_copies True (the (dmem w' (desc_ptr 0x100 i)))) [0..<Suc j]) =
       zip (host (0x1000, 4096) @ host (0x2000, 4096) @ host (0x9000, 16)) (map (\<lambda>k. 0x80000 + of_nat k) [0..<8208])"
proof -
  let ?w = "quiet_world\<lparr>dmem := [0x100 \<mapsto> zero_desc, 0x120 \<mapsto> zero_desc, 0x140 \<mapsto> zero_desc]\<rparr>"
  have t: "sgm demo_transfer = Some demo_sgm" "sgl_nents demo_transfer = 3" "desc_virt demo_transfer = 0x100"
    by (simp_all add: demo_transfer_def)
  have l: "length (sgl demo_sgm) = 3" "\<forall>s \<in> set (take 3 (sgl demo_sgm)). unat (sg_dma_len s) \<le> 4096"
    and es: "sg_list (take 3 (sgl demo_sgm)) = [(0x1000, 4096), (0x2000, 4096), (0x9000, 16)]"
    by (simp_all add: demo_sgm_def sg_list_def)
  have "dmem ?w (desc_ptr 0x100 i) \<noteq> None" if "i < 3" for i :: nat
  proof -
    from that consider "i = 0" | "i = 1" | "i = 2" by linarith
    then show ?thesis by cases (simp_all add: desc_ptr_def)
  qed
  then show ?thesis
    using transfer_build_copies[OF t(1), where user = True and non_incr = False and w = ?w and ep_addr = "0x80000" and to_dev = True and force_new_desc = False]
    unfolding t l Let_def es
    using l by (auto simp: comp_def simp del: upt_Suc upt_rec_numeral)
qed

section \<open>Reads and writes return all or nothing\<close>

text \<open>Nothing that creates, queues or disposes of a transfer changes the module parameter \<^verbatim>\<open>poll_mode\<close>.\<close>

lemma for_range_pm:
  assumes "for_range i n f w = Some w'" and "\<And>k w w'. f k w = Some w' \<Longrightarrow> poll_mode w' = poll_mode w"
  shows "poll_mode w' = poll_mode w"
  using for_range_inv[where P = "\<lambda>_ u. poll_mode u = poll_mode w", OF assms(1)] assms(2) by auto

lemma pm_prims [simp]:
  "poll_mode (write_register v a w) = poll_mode w" "poll_mode (snd (read_register a w)) = poll_mode w"
  "poll_mode (snd (call_int c w)) = poll_mode w" "poll_mode (snd (call_ptr c w)) = poll_mode w"
  "poll_mode (call_void c w) = poll_mode w" "poll_mode (snd (kzalloc_transfer w)) = poll_mode w"
  "poll_mode (kfree_transfer p w) = poll_mode w" "poll_mode (dma_free_coherent n x b w) = poll_mode w"
  "poll_mode (snd (sg_create_mapper l w)) = poll_mode w"
  by (simp_all add: io_prim_defs Let_def kzalloc_transfer_def kfree_transfer_def dma_free_coherent_def sg_create_mapper_def)

lemma pm_desc:
  "desc_upd p f w = Some w' \<Longrightarrow> poll_mode w' = poll_mode w"
  "xfer_upd p g w = Some w' \<Longrightarrow> poll_mode w' = poll_mode w"
  "xdma_desc_set p a b l d w = Some w' \<Longrightarrow> poll_mode w' = poll_mode w"
  "xdma_desc_link p a b w = Some w' \<Longrightarrow> poll_mode w' = poll_mode w"
  "xdma_desc_control p c w = Some w' \<Longrightarrow> poll_mode w' = poll_mode w"
  "xdma_desc_adjacent p k w = Some w' \<Longrightarrow> poll_mode w' = poll_mode w"
  by (auto simp: desc_simps xfer_upd_def split: option.splits if_splits bind_splits)

lemma pm_sgm:
  "put_pages ps n w = Some w' \<Longrightarrow> poll_mode w' = poll_mode w"
  "sgm_dirty_pages m w = Some w' \<Longrightarrow> poll_mode w' = poll_mode w"
  "sg_destroy_mapper m w = Some w' \<Longrightarrow> poll_mode w' = poll_mode w"
  by (auto simp: put_pages_def sgm_dirty_pages_def sg_destroy_mapper_def elim!: for_range_pm split: bind_splits)

lemma pm_vmalloc_pages: "poll_mode (snd (snd (vmalloc_pages n v w))) = poll_mode w"
proof (induction n arbitrary: v w)
  case 0
  then show ?case by simp
next
  case (Suc n)
  let ?p = "kptr w (io w) (C_vmalloc_to_page v)"
  show ?case
    using Suc[of "v + PAGE_SIZE" "emit (KP (C_vmalloc_to_page v) ?p) w"]
    by (simp add: call_ptr_def Let_def split_def)
qed

lemma pm_pages:
  "sgm_put_user_pages m d w = Some (m', w') \<Longrightarrow> poll_mode w' = poll_mode w"
  "sgm_get_user_pages m a c u w = Some (r, m', w') \<Longrightarrow> poll_mode w' = poll_mode w"
  "sgm_kernel_pages m a c u w = Some (r, m', w') \<Longrightarrow> poll_mode w' = poll_mode w"
  subgoal by (auto simp: sgm_put_user_pages_def pm_sgm split: if_splits bind_splits)
  subgoal
    by (auto simp: sgm_get_user_pages_def pm_sgm Let_def split_def split: if_splits bind_splits)
  subgoal
    by (auto simp: sgm_kernel_pages_def pm_vmalloc_pages Let_def split_def split: if_splits bind_splits)
  done

lemma pm_alloc: "xdma_desc_alloc n w = Some (r, w') \<Longrightarrow> poll_mode w' = poll_mode w"
proof -
  assume a: "xdma_desc_alloc n w = Some (r, w')"
  have body: "poll_mode (fst s') = poll_mode (fst s)" if "xdma_desc_alloc_body v k s = Some s'" for v k s s'
    using that by (cases s) (auto simp: Let_def split_def dest!: pm_desc split: bind_splits)
  have loop: "poll_mode u' = poll_mode u" if "for_range 0 k (xdma_desc_alloc_body v) (u, b, adj) = Some (u', x)" for v k u b adj u' x
    using for_range_inv[OF that, where P = "\<lambda>_ s. poll_mode (fst s) = poll_mode u"] body by auto
  show ?thesis
    using a by (auto simp: xdma_desc_alloc_def dma_alloc_coherent_def dest!: loop pm_desc(1) split: bind_splits option.splits prod.splits)
qed

lemma pm_build: "transfer_build t ep d ni f u w = Some (j, w') \<Longrightarrow> poll_mode w' = poll_mode w"
proof -
  assume a: "transfer_build t ep d ni f u w = Some (j, w')"
  let ?pm = "\<lambda>s. case s of (j, ca, ad, cl, ep, w) \<Rightarrow> poll_mode w"
  have step: "?pm s' = ?pm s" if "transfer_build_step t sl d ni f u i s = Some s'" for sl i s s'
    using that by (auto simp: transfer_build_step_def Let_def dest!: pm_desc split: bind_splits if_splits prod.splits)
  have loop: "?pm s' = ?pm s" if "for_range 0 k (transfer_build_step t sl d ni f u) s = Some s'" for sl k s s'
    using for_range_inv[OF that, where P = "\<lambda>_ r. ?pm r = ?pm s"] step by auto
  from a show ?thesis
    unfolding transfer_build_def by (auto dest!: loop pm_desc split: bind_splits prod.splits)
qed

lemma pm_map_sg: "poll_mode (snd (snd (pci_map_sg m w))) = poll_mode w"
  by (simp add: pci_map_sg_def Let_def split_def)

lemma pm_create:
  assumes "transfer_create a c ep d ni f u w = Some (p, w')" shows "poll_mode w' = poll_mode w"
proof -
  have perf: "poll_mode v' = poll_mode v" if "transfer_perf t k v = Some v'" for t k v v'
    using that by (auto simp: transfer_perf_def dest!: pm_desc split: bind_splits)
  have adj: "poll_mode v' = poll_mode v" if "for_range 0 n (\<lambda>i. xdma_desc_adjacent (g i) (h i)) v = Some v'" for g h n v v'
    using for_range_pm[OF that] pm_desc(6) by blast
  show ?thesis
    using assms pm_map_sg unfolding transfer_create_def Let_def split_def
    by (auto dest!: perf adj pm_build pm_alloc pm_pages(2,3) pm_desc(2) split: bind_splits if_splits
        simp del: for_range.simps)
qed

lemma pm_queue: "transfer_queue e p w = Some (r, e', w') \<Longrightarrow> poll_mode w' = poll_mode w"
proof -
  assume a: "transfer_queue e p w = Some (r, e', w')"
  have mode: "poll_mode (engine_start_mode_config e v) = poll_mode v" for e v
    by (simp add: engine_start_mode_config_def Let_def split_def)
  have start: "poll_mode v' = poll_mode v" if "engine_start e v = Some (q, e'', v')" for e v q e'' v'
    using that by (auto simp: engine_start_def Let_def mode split: bind_splits)
  show ?thesis
    using a by (auto simp: transfer_queue_def Let_def dest!: start pm_desc(2) split: bind_splits if_splits)
qed

lemma pm_destroy: "transfer_destroy p w = Some w' \<Longrightarrow> poll_mode w' = poll_mode w"
  by (auto simp: transfer_destroy_def xdma_desc_free_def Let_def dest!: pm_pages(1) pm_sgm(3)
      split: bind_splits option.splits if_splits)

lemma transfer_round_irq:
  assumes pm: "\<not> poll_mode w" and sleep: "\<And>s. poll_mode (snd (sleep s)) = poll_mode (snd s)"
  shows "\<exists>r. transfer_round lro dev sleep is_last sz e p w = Some r \<and>
    (case r of None \<Rightarrow> True | Some (res, e', w') \<Rightarrow> res \<le> 0 \<and> \<not> poll_mode w')"
proof (cases "do {
       w \<leftarrow> (if is_last then xfer_upd p (\<lambda>t. t\<lparr>last_in_request := True, size_of_request := sz\<rparr>) w else Some w);
       transfer_queue e p w }")
  case None
  then show ?thesis by (simp add: transfer_round_def)
next
  case (Some r)
  then obtain x e1 w1 where r: "r = (x, e1, w1)" by (cases r)
  have w1: "\<not> poll_mode w1"
    using Some pm unfolding r by (auto dest!: pm_queue pm_desc(2) split: bind_splits if_splits)
  have "transfer_monitor dev sleep e1 p w1 \<noteq> None \<and>
      (\<forall>rc e' w'. transfer_monitor dev sleep e1 p w1 = Some (Some (rc, e', w')) \<longrightarrow> \<not> poll_mode w')"
    using w1 sleep[of "(e1, w1)"]
    by (cases "sleep (e1, w1)") (auto simp: transfer_monitor_def call_int_def Let_def split: option.splits)
  then obtain m where m: "transfer_monitor dev sleep e1 p w1 = Some m"
    "\<And>rc e' w'. m = Some (rc, e', w') \<Longrightarrow> \<not> poll_mode w'" by blast
  show ?thesis
  proof (cases m)
    case None
    with Some m r show ?thesis by (simp add: transfer_round_def)
  next
    case (Some y)
    then obtain rc e2 w2 where y: "m = Some (rc, e2, w2)" by (cases y) auto
    then have w2: "\<not> poll_mode w2" using m(2) by blast
    have "\<exists>r'. transfer_round lro dev sleep is_last sz e p w = Some r' \<and> r' = (do {
        t \<leftarrow> xfers w2 p;
        if state t \<noteq> TRANSFER_STATE_SUBMITTED then do {
          w \<leftarrow> transfer_destroy p w2; Some (if state t \<noteq> TRANSFER_STATE_COMPLETED then - EIO else 0, e2, w)
        } else if rc \<noteq> 0 then do {
          let (_, e, w) = engine_status_read e2 False w2; (_, w) \<leftarrow> read_interrupts lro w; Some (- ERESTARTSYS, e, w)
        } else Some (0, e2, w2) })"
      using m(1) y \<open>_ = Some r\<close> r by (simp add: transfer_round_def)
    then show ?thesis
      using w2 by (auto simp: engine_status_read_def read_interrupts_def read_register_def Let_def
          dest!: pm_destroy split: bind_splits option.splits if_splits)
  qed
qed

text \<open>How the loop over the parts of a request ends: after an error, or with all \<open>remaining\<close> bytes on top of the \<open>don\<close> before.\<close>

definition all_or_error :: "int \<Rightarrow> int \<Rightarrow> u64 \<Rightarrow> (int \<times> u64 \<times> xdma_engine \<times> world) option \<Rightarrow> bool" where
  "all_or_error don remaining pos r \<longleftrightarrow> (case r of None \<Rightarrow> True
     | Some (res, pos', e', w') \<Rightarrow> res < 0 \<or> (res = don + remaining \<and> pos' = pos + of_int remaining))"

lemma all_or_error_part:
  assumes "all_or_error (don + len) (remaining - len) (pos + of_int len) r"
  shows "all_or_error don remaining pos r"
proof -
  have "pos + of_int len + of_int (remaining - len) = pos + of_int remaining"
    by (simp only: add.assoc of_int_add[symmetric]) simp
  with assms show ?thesis by (auto simp: all_or_error_def split: option.splits)
qed

lemma transfer_data_loop_part:
  assumes "0 < remaining" and "p \<noteq> 0" and "len = min remaining (int XDMA_TRANSFER_MAX_BYTES)"
    and "transfer_create addr (of_int len) pos (dir_to_dev e) (non_incr_addr e) False True w = Some (p, w1)"
    and "transfer_round lro dev sleep (remaining \<le> len) (don + len) e p w1 = Some r"
  shows "transfer_data_loop lro dev sleep addr remaining pos don e w =
      (case r of None \<Rightarrow> Some None | Some (res, e, w) \<Rightarrow>
         if res \<noteq> 0 then Some (Some (res, pos, e, w))
         else transfer_data_loop lro dev sleep (addr + of_int len) (remaining - len) (pos + of_int len) (don + len) e w)"
  using assms(1,2,4,5) unfolding assms(3) by (subst transfer_data_loop.simps) (simp add: Let_def)

lemma transfer_data_loop_ends:
  assumes "\<not> poll_mode w" and "\<And>s. poll_mode (snd (sleep s)) = poll_mode (snd s)" and "0 \<le> remaining"
  shows "\<exists>r. transfer_data_loop lro dev sleep addr remaining pos don e w = Some r \<and> all_or_error don remaining pos r"
  using assms
proof (induction lro dev sleep addr remaining pos don e w rule: transfer_data_loop.induct)
  case (1 lro dev sleep addr remaining pos don e w)
  let ?len = "min remaining (int XDMA_TRANSFER_MAX_BYTES)"
  let ?create = "transfer_create addr (of_int ?len) pos (dir_to_dev e) (non_incr_addr e) False True w"
  consider "remaining \<le> 0" | "0 < remaining" "?create = None" | w1 where "0 < remaining" "?create = Some (0, w1)"
    | p w1 where "0 < remaining" "?create = Some (p, w1)" "p \<noteq> 0"
    by (cases "remaining \<le> 0"; cases ?create; cases "fst (the ?create) = 0") (auto simp: not_le)
  then show ?case
  proof cases
    case (4 p w1)
    have "\<not> poll_mode w1" using pm_create 4(2) 1(2) by blast
    then obtain r where r: "transfer_round lro dev sleep (remaining \<le> ?len) (don + ?len) e p w1 = Some r"
      "case r of None \<Rightarrow> True | Some (res, e', w') \<Rightarrow> res \<le> 0 \<and> \<not> poll_mode w'"
      using transfer_round_irq[OF _ 1(3)] by blast
    note step = transfer_data_loop_part[OF 4(1,3) refl 4(2) r(1)]
    consider "r = None" | res e2 w2 where "r = Some (res, e2, w2)" "res < 0" | e2 w2 where "r = Some (0, e2, w2)" "\<not> poll_mode w2"
      using r(2) by (cases r) force+
    then show ?thesis
    proof cases
      case 1
      with step show ?thesis by (simp add: all_or_error_def)
    next
      case 2
      with step show ?thesis by (simp add: all_or_error_def)
    next
      case (3 e2 w2)
      have "\<not> remaining \<le> 0" using 4(1) by simp
      from "1.IH"[OF this refl 4(2) refl 4(3) r(1)[unfolded 3(1)] refl refl refl _ 3(2) "1.prems"(2)]
      show ?thesis using step 3(1) all_or_error_part by fastforce
    qed
  qed (use 1(4) in \<open>subst transfer_data_loop.simps, simp add: all_or_error_def Let_def\<close>)+
qed



section \<open>Alignment rules\<close>

lemma unat_lsb32:
  fixes x :: u64
  assumes "k \<le> 32"
  shows "unat (ucast x AND (2 ^ k - 1) :: u32) = unat x mod 2 ^ k"
proof -
  have "unat (ucast x AND mask k :: u32) = unat (ucast x :: u32) mod 2 ^ k" by (rule unat_and_mask)
  also have "unat (ucast x :: u32) = unat x mod 2 ^ 32" by (simp add: unsigned_ucast_eq take_bit_eq_mod)
  also have "unat x mod 2 ^ 32 mod 2 ^ k = unat x mod 2 ^ k"
    by (rule mod_mod_cancel) (rule le_imp_power_dvd[OF assms])
  finally show ?thesis by (simp add: mask_eq_exp_minus_1)
qed

lemma word_eq_0_unat: "x = 0 \<longleftrightarrow> unat x = 0" for x :: "'a :: len word"
  by (simp add: unsigned_eq_0_iff)

text \<open>
  With alignment \<open>2 ^ k\<close> and granularity \<open>2 ^ g\<close>: a streaming or non-incrementing transfer is accepted
  exactly when the buffer is aligned, the length is a multiple of the granularity and, for a
  synchronous memory-mapped one, the device address is aligned; an incrementing transfer exactly when
  buffer and device address have the same offset within the alignment. Anything else is \<^verbatim>\<open>-EINVAL\<close>.
\<close>

theorem check_transfer_align_accepts:
  assumes "addr_align e = 2 ^ k" and "k < 32" and "len_granularity e = 2 ^ g" and "g < 32"
  shows "check_transfer_align e buf count pos sync =
    (if (if streaming e \<or> non_incr_addr e
         then 2 ^ k dvd unat buf \<and> 2 ^ g dvd unat count \<and> (streaming e \<or> \<not> sync \<or> 2 ^ k dvd unat pos)
         else unat buf mod 2 ^ k = unat pos mod 2 ^ k)
     then 0 else - EINVAL)"
proof -
  have lsb: "(ucast x AND (2 ^ k - 1) :: u32) = 0 \<longleftrightarrow> 2 ^ k dvd unat x" for x :: u64
    using assms(2) unat_lsb32[of k x] by (simp add: word_eq_0_unat dvd_eq_mod_eq_0)
  have same: "(ucast x AND (2 ^ k - 1) :: u32) = ucast y AND (2 ^ k - 1) \<longleftrightarrow> unat x mod 2 ^ k = unat y mod 2 ^ k" for x y :: u64
    using assms(2) unat_lsb32[of k x] unat_lsb32[of k y] by (simp add: word_unat_eq_iff)
  have "(ucast (2 ^ g :: u32) :: u64) = 2 ^ g"
    using assms(4) by (intro bit_word_eqI) (auto simp: bit_simps)
  moreover have "unat (count AND mask g) = unat count mod 2 ^ g" by (rule unat_and_mask)
  ultimately have len: "count AND (ucast (2 ^ g :: u32) - 1) = 0 \<longleftrightarrow> 2 ^ g dvd unat count"
    by (simp add: mask_eq_exp_minus_1 word_eq_0_unat dvd_eq_mod_eq_0)
  show ?thesis
    unfolding check_transfer_align_def Let_def assms(1,3) lsb same len by auto
qed

theorem check_transfer_align_accepts_witness:
  "check_transfer_align (zero_engine\<lparr>addr_align := 64, len_granularity := 64, streaming := True\<rparr>) 0x1000 128 7 True = 0 \<and>
   check_transfer_align (zero_engine\<lparr>addr_align := 64, len_granularity := 64, streaming := True\<rparr>) 0x1000 100 7 True = -22"
proof -
  let ?e = "zero_engine\<lparr>addr_align := 64, len_granularity := 64, streaming := True\<rparr>"
  have "addr_align ?e = 2 ^ 6" "len_granularity ?e = 2 ^ 6" by simp_all
  from check_transfer_align_accepts[OF this(1) _ this(2)] show ?thesis by simp
qed


end
