(* ===== verification/Xdma_Cyclic.thy ===== *)
theory Xdma_Cyclic
  imports Xdma_Transfer
begin

text \<open>
  Reading packets from the result ring of an AXI-ST engine and the set-up and tear-down of that ring,
  from \<^verbatim>\<open>xdma-core.c\<close>. In this driver \<^verbatim>\<open>char_sgdma_open\<close> and \<^verbatim>\<open>char_sgdma_close\<close> no longer call the latter two;
  closing cleans the WZ extension up instead.

  The device fills the ring; the tail is moved by the service, the head by the reader. A result says
  how many bytes of its 4096-byte block are valid and whether they end a packet.
\<close>

section \<open>Waiting for results\<close>

definition rx_cond :: "xdma_engine \<Rightarrow> world \<Rightarrow> bool" where
  "rx_cond e w = (if enable_credit_mp w then rx_head e \<noteq> rx_tail e \<or> rx_overrun e else eop_found e)"

text \<open>One round of the waiting loop: poll once, or sleep until the condition holds.\<close>

definition monitor_wait ::
  "(io list \<Rightarrow> xdma_result list \<Rightarrow> xdma_result list) \<Rightarrow> (xdma_engine \<times> world \<Rightarrow> xdma_engine \<times> world) \<Rightarrow>
     xdma_engine \<Rightarrow> world \<Rightarrow> (int \<times> xdma_engine \<times> world) option option" where
  "monitor_wait dev sleep e w =
    (if poll_mode w then
       (case engine_service_poll dev e 0 w of
          None \<Rightarrow> None
        | Some None \<Rightarrow> Some None
        | Some (Some (rc, e, w)) \<Rightarrow> Some (Some (if rc \<noteq> 0 then - ERESTARTSYS else rc, e, w)))
     else if rx_cond e w then Some (Some (0, e, w))
     else (case sleep (e, w) of (e, w) \<Rightarrow>
       (case call_int (C_wait_event ''transfer_wq'') w of (rc, w) \<Rightarrow> Some (Some (rc, e, w)))))"

definition rx_result_at :: "xdma_engine \<Rightarrow> nat \<Rightarrow> xdma_result option" where
  "rx_result_at e i = do { result \<leftarrow> rx_result_buffer e; arr_get result i }"

partial_function (option) monitor_cyclic_loop ::
  "(io list \<Rightarrow> xdma_result list \<Rightarrow> xdma_result list) \<Rightarrow> (xdma_engine \<times> world \<Rightarrow> xdma_engine \<times> world) \<Rightarrow>
     int \<Rightarrow> xdma_engine \<Rightarrow> world \<Rightarrow> (int \<times> xdma_engine \<times> world) option option" where
  "monitor_cyclic_loop dev sleep rc e w =
    (if rc + 1 = 100 then Some (Some (rc + 1, e, w))
     else (case monitor_wait dev sleep e w of
         None \<Rightarrow> None
       | Some None \<Rightarrow> Some None
       | Some (Some (rc, e, w)) \<Rightarrow>
           (case rx_result_at e (rx_head e) of
              None \<Rightarrow> Some None
            | Some r \<Rightarrow> if res_status r = 0 then monitor_cyclic_loop dev sleep rc e w else Some (Some (rc, e, w)))))"

definition transfer_monitor_cyclic ::
  "(io list \<Rightarrow> xdma_result list \<Rightarrow> xdma_result list) \<Rightarrow> (xdma_engine \<times> world \<Rightarrow> xdma_engine \<times> world) \<Rightarrow>
     xdma_engine \<Rightarrow> u64 \<Rightarrow> world \<Rightarrow> (int \<times> xdma_engine \<times> world) option option" where
  "transfer_monitor_cyclic dev sleep e p w =
    (if p = 0 \<or> rx_result_buffer e = None then Some None else monitor_cyclic_loop dev sleep 0 e w)"

section \<open>Consuming results\<close>

text \<open>The loop of \<^verbatim>\<open>copy_cyclic_to_user\<close>: block by block, to the user buffer at the running index.\<close>

function copy_cyclic_loop :: "nat \<Rightarrow> nat \<Rightarrow> u64 \<Rightarrow> xdma_engine \<Rightarrow> world \<Rightarrow> int option \<times> xdma_engine \<times> world" where
  "copy_cyclic_loop remaining head buf e w =
    (if remaining = 0 then (None, e, w)
     else let copy = min remaining RX_BUF_BLOCK in
       (case call_int (C_copy_block (buf + ucast (user_buffer_index e)) (rx_buffer e + of_nat (head * RX_BUF_BLOCK)) copy) w of
          (rc, w) \<Rightarrow>
            if rc \<noteq> 0 then (Some rc, e, w)
            else copy_cyclic_loop (remaining - copy) ((head + 1) mod RX_BUF_PAGES) buf
                   (e\<lparr>user_buffer_index := user_buffer_index e + of_nat copy\<rparr>) w))"
  by pat_completeness auto
termination
  by (relation "measure fst") (auto simp: RX_BUF_BLOCK_def)

definition copy_cyclic_to_user :: "xdma_engine \<Rightarrow> nat \<Rightarrow> nat \<Rightarrow> u64 \<Rightarrow> world \<Rightarrow> (int \<times> xdma_engine \<times> world) option" where
  "copy_cyclic_to_user e pkt_length head buf w = do {
     BUG_ON (buf = 0);
     Some (case copy_cyclic_loop pkt_length head buf e w of
         (Some rc, e, w) \<Rightarrow> (rc, e, w)
       | (None, e, w) \<Rightarrow> (int pkt_length, e, w)) }"

text \<open>A result is faulty without the magic, with an impossible length, or with length 0.\<close>

definition rx_fault :: "xdma_result \<Rightarrow> bool" where
  "rx_fault r \<longleftrightarrow> drop_bit 16 (res_status r) \<noteq> C2H_WB \<or> res_length r > of_nat RX_BUF_BLOCK \<or> res_length r = 0"

text \<open>The loop of \<^verbatim>\<open>complete_cyclic\<close>: packet length, credits to return, the ring and the engine.\<close>

partial_function (option) complete_loop ::
  "nat \<Rightarrow> nat \<Rightarrow> xdma_result list \<Rightarrow> xdma_engine \<Rightarrow> (bool \<times> nat \<times> nat \<times> xdma_result list \<times> xdma_engine) option option" where
  "complete_loop pkt_length num_credit result e =
    (if \<not> (rx_head e \<noteq> rx_tail e \<or> rx_overrun e) then Some (Some (False, pkt_length, num_credit, result, e))
     else (case arr_get result (rx_head e) of
         None \<Rightarrow> Some None
       | Some r \<Rightarrow>
           let fault = rx_fault r;
               eop = (\<not> fault \<and> res_status r AND RX_STATUS_EOP \<noteq> 0);
               pkt_length = (if fault then pkt_length else pkt_length + unat (res_length r));
               num_credit = (if fault then num_credit else num_credit + 1);
               result = result[rx_head e := r\<lparr>res_status := 0, res_length := 0\<rparr>];
               e = (if eop then e\<lparr>eop_found := True\<rparr> else e);
               e = e\<lparr>rx_head := rx_next (rx_head e)\<rparr>
           in if fault \<or> eop then Some (Some (fault, pkt_length, num_credit, result, e))
              else complete_loop pkt_length num_credit result e))"

definition complete_cyclic :: "xdma_engine \<Rightarrow> u64 \<Rightarrow> world \<Rightarrow> (int \<times> xdma_engine \<times> world) option option" where
  "complete_cyclic e buf w = (case rx_result_buffer e of
     None \<Rightarrow> Some None
   | Some result \<Rightarrow>
       (case complete_loop 0 0 result e of
          None \<Rightarrow> None
        | Some None \<Rightarrow> Some None
        | Some (Some (fault, pkt_length, num_credit, result', e')) \<Rightarrow>
            let e' = e'\<lparr>rx_result_buffer := Some result'\<rparr> in
            if fault then Some (Some (- EIO, e', w))
            else Some (do {
              (rc, e', w) \<leftarrow> copy_cyclic_to_user e' pkt_length (rx_head e) buf w;
              let e' = e'\<lparr>rx_overrun := False\<rparr>;
              let w = (if rc > 0 then write_register (of_nat num_credit) (sgdma_regs e' + sr S_credits) w else w);
              Some (rc, e', w) })))"

section \<open>The read operation\<close>

partial_function (option) read_cyclic_loop ::
  "(io list \<Rightarrow> xdma_result list \<Rightarrow> xdma_result list) \<Rightarrow> (xdma_engine \<times> world \<Rightarrow> xdma_engine \<times> world) \<Rightarrow>
     u64 \<Rightarrow> int \<Rightarrow> xdma_engine \<Rightarrow> world \<Rightarrow> (int \<times> xdma_engine \<times> world) option option" where
  "read_cyclic_loop dev sleep buf rc_len e w =
    (case transfer_monitor_cyclic dev sleep e (rx_transfer_cyclic e) w of
       None \<Rightarrow> None
     | Some None \<Rightarrow> Some None
     | Some (Some (rc, e, w)) \<Rightarrow>
         if rc \<noteq> 0 then Some (Some (rc, e, w))
         else (case complete_cyclic e buf w of
             None \<Rightarrow> None
           | Some None \<Rightarrow> Some None
           | Some (Some (n, e, w)) \<Rightarrow>
               if \<not> eop_found e then read_cyclic_loop dev sleep buf (rc_len + n) e w
               else Some (Some (rc_len + n, if enable_credit_mp w then e\<lparr>eop_found := False\<rparr> else e, w))))"

definition char_sgdma_read_cyclic ::
  "xdma_dev \<Rightarrow> (io list \<Rightarrow> xdma_result list \<Rightarrow> xdma_result list) \<Rightarrow> (xdma_engine \<times> world \<Rightarrow> xdma_engine \<times> world) \<Rightarrow>
     xdma_engine \<Rightarrow> u64 \<Rightarrow> world \<Rightarrow> (int \<times> xdma_engine \<times> world) option option" where
  "char_sgdma_read_cyclic lro dev sleep e buf w =
    (if dev_magic lro \<noteq> MAGIC_DEVICE \<or> magic e \<noteq> MAGIC_ENGINE \<or> rx_transfer_cyclic e = 0 then Some None
     else read_cyclic_loop dev sleep buf 0 e w)"

definition char_sgdma_read ::
  "xdma_dev \<Rightarrow> (io list \<Rightarrow> xdma_result list \<Rightarrow> xdma_result list) \<Rightarrow> (xdma_engine \<times> world \<Rightarrow> xdma_engine \<times> world) \<Rightarrow>
     xdma_engine \<Rightarrow> u64 \<Rightarrow> u64 \<Rightarrow> u64 \<Rightarrow> world \<Rightarrow> (int \<times> u64 \<times> xdma_engine \<times> world) option option" where
  "char_sgdma_read lro dev sleep e buf count pos w =
    (if dev_magic lro \<noteq> MAGIC_DEVICE \<or> magic e \<noteq> MAGIC_ENGINE then Some None
     else if \<not> dir_to_dev e \<and> rx_buffer e \<noteq> 0 \<and> rx_transfer_cyclic e \<noteq> 0
     then map_option (map_option (\<lambda>(rc, e, w). (rc, pos, e, w))) (char_sgdma_read_cyclic lro dev sleep e buf w)
     else char_sgdma_read_write lro dev sleep e buf count pos False w)"

section \<open>Set-up and tear-down\<close>

text \<open>Marking the pages of a vmalloc area as reserved, and back.\<close>

fun rv_pages :: "(u64 \<Rightarrow> kcall) \<Rightarrow> nat \<Rightarrow> u64 \<Rightarrow> world \<Rightarrow> world" where
  "rv_pages c 0 adr w = w"
| "rv_pages c (Suc n) adr w =
    (case call_ptr (C_vmalloc_to_page adr) w of (page, w) \<Rightarrow> rv_pages c n (adr + PAGE_SIZE) (call_void (c page) w))"

definition rvmalloc :: "nat \<Rightarrow> world \<Rightarrow> u64 \<times> world" where
  "rvmalloc sz w =
    (let n = (sz + 4095) div 4096; (mem, w) = call_ptr (C_vmalloc (n * 4096)) w in
     if mem = 0 then (0, w) else (mem, rv_pages C_set_reserved n mem w))"

definition rvfree :: "u64 \<Rightarrow> nat \<Rightarrow> world \<Rightarrow> world" where
  "rvfree mem sz w =
    (if mem = 0 then w else call_void (C_vfree mem) (rv_pages C_clear_reserved ((sz + 4095) div 4096) mem w))"

text \<open>\<^verbatim>\<open>cyclic_transfer_setup\<close>. The second component of the result tells whether the engine's spinlock is
  still held on return. The result ring is zeroed memory.\<close>

definition cyclic_transfer_setup :: "xdma_engine \<Rightarrow> world \<Rightarrow> (int \<times> bool \<times> xdma_engine \<times> world) option" where
  "cyclic_transfer_setup e w = do {
     let e = e\<lparr>rx_tail := 0, rx_head := 0, rx_overrun := False, eop_found := False, user_buffer_index := 0\<rparr>;
     if rx_buffer e \<noteq> 0 then Some (- EBUSY, True, e, w)
     else do {
       let (mem, w) = rvmalloc RX_BUF_SIZE w;
       let e = e\<lparr>rx_buffer := mem\<rparr>;
       if mem = 0 then Some (- ENOMEM, True, e, w)
       else do {
         (p, w) \<leftarrow> transfer_create (rx_buffer e) (of_nat RX_BUF_SIZE) 0 (dir_to_dev e) False True False w;
         let e = e\<lparr>rx_transfer_cyclic := p\<rparr>;
         let (rv, w) = call_ptr (C_pci_alloc_consistent RX_RESULT_BUF_SIZE) w;
         if rv = 0 then do {
           w \<leftarrow> transfer_destroy p w;
           let w = rvfree (rx_buffer e) RX_BUF_SIZE w;
           Some (- ENOMEM, False, e\<lparr>rx_transfer_cyclic := 0, rx_buffer := 0, rx_result_buffer := None\<rparr>, w)
         } else do {
           let bus = kptr w (io w) (C_misc ''rx_result_buffer_bus'' 0);
           let e = e\<lparr>rx_result_buffer := Some (replicate RX_BUF_PAGES \<lparr>res_status = 0, res_length = 0\<rparr>),
                     rx_result_buffer_bus := bus\<rparr>;
           BUG_ON (p = 0);
           t \<leftarrow> xfers w p;
           w \<leftarrow> transfer_set_result_addresses t bus w;
           w \<leftarrow> transfer_set_all_control t (XDMA_DESC_EOP OR XDMA_DESC_COMPLETED) w;
           w \<leftarrow> xdma_transfer_cyclic p w;
           let w = (if enable_credit_mp w then write_register 128 (sgdma_regs e + sr S_credits) w else w);
           (_, e, w) \<leftarrow> transfer_queue e p w;
           Some (0, False, e, w) } } } }"

partial_function (option) shutdown_poll_loop :: "xdma_engine \<Rightarrow> world \<Rightarrow> (xdma_engine \<times> world) option" where
  "shutdown_poll_loop e w = (case engine_status_read e True w of (_, e, w) \<Rightarrow>
     if status e AND XDMA_STAT_BUSY \<noteq> 0 then shutdown_poll_loop e w else Some (e, w))"

definition cyclic_shutdown_polled :: "xdma_engine \<Rightarrow> world \<Rightarrow> (int \<times> xdma_engine \<times> world) option option" where
  "cyclic_shutdown_polled e w = (case shutdown_poll_loop e w of
     None \<Rightarrow> None
   | Some (e, w) \<Rightarrow> Some (map_option (\<lambda>(e, w). (0, e, w)) (cyclic_finish e w)))"

text \<open>\<^verbatim>\<open>cyclic_shutdown_interrupt\<close> returns a variable it never assigned; \<open>undef\<close> stands for its content.\<close>

definition cyclic_shutdown_interrupt ::
  "int \<Rightarrow> (xdma_engine \<times> world \<Rightarrow> xdma_engine \<times> world) \<Rightarrow> xdma_engine \<Rightarrow> world \<Rightarrow> int \<times> xdma_engine \<times> world" where
  "cyclic_shutdown_interrupt undef sleep e w =
    (let (e, w) = (if running e then sleep (e, w) else (e, w)) in
     if running e then (- EINVAL, e, w) else (undef, e, w))"

definition teardown_free :: "xdma_engine \<Rightarrow> world \<Rightarrow> (xdma_engine \<times> world) option" where
  "teardown_free e w = do {
     (e, w) \<leftarrow> (if rx_transfer_cyclic e \<noteq> 0 then do {
                 w \<leftarrow> transfer_destroy (rx_transfer_cyclic e) w;
                 Some (e\<lparr>rx_transfer_cyclic := 0\<rparr>, w) } else Some (e, w));
     let (e, w) = (if rx_buffer e \<noteq> 0 then (e\<lparr>rx_buffer := 0\<rparr>, rvfree (rx_buffer e) RX_BUF_SIZE w) else (e, w));
     Some (if rx_result_buffer e \<noteq> None
           then (e\<lparr>rx_result_buffer := None\<rparr>, call_void (C_pci_free_consistent RX_RESULT_BUF_SIZE (rx_result_buffer_bus e)) w)
           else (e, w)) }"

definition cyclic_transfer_teardown ::
  "int \<Rightarrow> (xdma_engine \<times> world \<Rightarrow> xdma_engine \<times> world) \<Rightarrow> xdma_engine \<Rightarrow> world \<Rightarrow>
     (int \<times> xdma_engine \<times> world) option option" where
  "cyclic_transfer_teardown undef sleep e w = (case engine_cyclic_stop e w of
     None \<Rightarrow> Some None
   | Some (_, w) \<Rightarrow>
       (case (if poll_mode w then cyclic_shutdown_polled e w else Some (Some (cyclic_shutdown_interrupt undef sleep e w))) of
          None \<Rightarrow> None
        | Some None \<Rightarrow> Some None
        | Some (Some (rc, e, w)) \<Rightarrow> Some (do { (e, w) \<leftarrow> teardown_free e w; Some (rc, e, w) })))"

definition char_sgdma_open :: "xdma_engine \<Rightarrow> world \<Rightarrow> (int \<times> xdma_engine \<times> world) option" where
  "char_sgdma_open e w = do { BUG_ON (magic e \<noteq> MAGIC_ENGINE); Some (0, e, w) }"

definition char_sgdma_close ::
  "(xdma_engine \<times> world \<Rightarrow> xdma_engine \<times> world) \<Rightarrow> xdma_engine \<Rightarrow> world \<Rightarrow> (int \<times> xdma_engine \<times> world) option" where
  "char_sgdma_close sleep e w = do {
     BUG_ON (magic e \<noteq> MAGIC_ENGINE);
     (e, w) \<leftarrow> wz_engine_cleanup sleep e w;
     Some (0, e, w) }"

declare copy_cyclic_loop.simps [simp del]

section \<open>A packet in the ring\<close>

definition clr :: "xdma_result \<Rightarrow> xdma_result" where
  "clr r = r\<lparr>res_status := 0, res_length := 0\<rparr>"

fun clear_run :: "xdma_result list \<Rightarrow> nat \<Rightarrow> nat \<Rightarrow> xdma_result list" where
  "clear_run result h 0 = result"
| "clear_run result h (Suc k) = clear_run (result[h := clr (result ! h)]) (rx_next h) k"

lemma clear_run_length [simp]: "length (clear_run result h k) = length result"
  by (induction result h k rule: clear_run.induct) auto

lemma slot_Suc: "h < RX_BUF_PAGES \<Longrightarrow> (h + Suc i) mod RX_BUF_PAGES = (rx_next h + i) mod RX_BUF_PAGES"
  by (simp add: rx_next_def mod_simps)

lemma slot_other:
  assumes "h < RX_BUF_PAGES" and "Suc i < RX_BUF_PAGES"
  shows "(rx_next h + i) mod RX_BUF_PAGES \<noteq> h"
proof -
  have "(h + Suc i) mod RX_BUF_PAGES \<noteq> h"
    using assms by (auto simp: RX_BUF_PAGES_def mod_if)
  then show ?thesis using assms slot_Suc by metis
qed

lemma clear_run_nth:
  assumes "length result = RX_BUF_PAGES" and "h < RX_BUF_PAGES" and "k \<le> RX_BUF_PAGES" and "j < RX_BUF_PAGES"
  shows "clear_run result h k ! j = (if \<exists>i<k. j = (h + i) mod RX_BUF_PAGES then clr (result ! j) else result ! j)"
  using assms
proof (induction result h k rule: clear_run.induct)
  case (1 result h)
  then show ?case by simp
next
  case (2 result h k)
  have ex: "(\<exists>i<Suc k. j = (h + i) mod RX_BUF_PAGES) \<longleftrightarrow> j = h \<or> (\<exists>i<k. j = (rx_next h + i) mod RX_BUF_PAGES)"
    using 2(3) slot_Suc[of h] by (auto simp: less_Suc_eq_0_disj)
  have IH: "clear_run result h (Suc k) ! j =
      (if \<exists>i<k. j = (rx_next h + i) mod RX_BUF_PAGES then clr (result[h := clr (result ! h)] ! j)
       else result[h := clr (result ! h)] ! j)"
    using 2 by (simp add: rxr.nxt_less)
  have "\<not> (\<exists>i<k. h = (rx_next h + i) mod RX_BUF_PAGES)"
  proof
    assume "\<exists>i<k. h = (rx_next h + i) mod RX_BUF_PAGES"
    then obtain i where "i < k" "h = (rx_next h + i) mod RX_BUF_PAGES" by blast
    moreover have "Suc i < RX_BUF_PAGES" using \<open>i < k\<close> 2(4) by simp
    ultimately show False using slot_other[OF 2(3)] by metis
  qed
  then show ?case
    unfolding IH ex using 2(2,3,5) by (auto simp: nth_list_update)
qed

text \<open>\<open>k\<close> results from the head on form a packet: none is faulty and exactly the last one ends it.\<close>

definition packet :: "xdma_result list \<Rightarrow> nat \<Rightarrow> nat \<Rightarrow> bool" where
  "packet result h k \<longleftrightarrow> 0 < k \<and> k \<le> RX_BUF_PAGES \<and>
     (\<forall>i<k. \<not> rx_fault (result ! ((h + i) mod RX_BUF_PAGES)) \<and>
        (res_status (result ! ((h + i) mod RX_BUF_PAGES)) AND RX_STATUS_EOP \<noteq> 0 \<longleftrightarrow> i = k - 1))"

definition pkt_len :: "xdma_result list \<Rightarrow> nat \<Rightarrow> nat \<Rightarrow> nat" where
  "pkt_len result h k = (\<Sum>i<k. unat (res_length (result ! ((h + i) mod RX_BUF_PAGES))))"

lemma packet_step:
  assumes "packet result h (Suc (Suc k))" and "h < RX_BUF_PAGES" and "length result = RX_BUF_PAGES"
  defines "result' \<equiv> result[h := clr (result ! h)]"
  shows "packet result' (rx_next h) (Suc k)"
    and "pkt_len result h (Suc (Suc k)) = unat (res_length (result ! h)) + pkt_len result' (rx_next h) (Suc k)"
proof -
  have same: "result' ! ((rx_next h + i) mod RX_BUF_PAGES) = result ! ((h + Suc i) mod RX_BUF_PAGES)" if "i < Suc k" for i
  proof -
    have "Suc i < RX_BUF_PAGES" using that assms(1) by (simp add: packet_def)
    then have "h \<noteq> (rx_next h + i) mod RX_BUF_PAGES" using slot_other[OF assms(2)] by metis
    then show ?thesis unfolding result'_def slot_Suc[OF assms(2)] by (rule nth_list_update_neq)
  qed
  have k: "Suc (Suc k) \<le> RX_BUF_PAGES" using assms(1) by (simp add: packet_def)
  show "packet result' (rx_next h) (Suc k)"
    unfolding packet_def
  proof (intro conjI allI impI)
    fix i assume i: "i < Suc k"
    have P: "\<not> rx_fault (result ! ((h + j) mod RX_BUF_PAGES)) \<and>
        (res_status (result ! ((h + j) mod RX_BUF_PAGES)) AND RX_STATUS_EOP \<noteq> 0 \<longleftrightarrow> j = Suc k)" if "j < Suc (Suc k)" for j
      using assms(1) that by (simp add: packet_def)
    show "\<not> rx_fault (result' ! ((rx_next h + i) mod RX_BUF_PAGES))"
      unfolding same[OF i] using P[of "Suc i"] i by blast
    show "res_status (result' ! ((rx_next h + i) mod RX_BUF_PAGES)) AND RX_STATUS_EOP \<noteq> 0 \<longleftrightarrow> i = Suc k - 1"
      unfolding same[OF i] using P[of "Suc i"] i by simp
  qed (use k in auto)
  have "pkt_len result h (Suc (Suc k)) = unat (res_length (result ! (h mod RX_BUF_PAGES))) +
      (\<Sum>i<Suc k. unat (res_length (result ! ((h + Suc i) mod RX_BUF_PAGES))))"
    unfolding pkt_len_def by (subst sum.lessThan_Suc_shift) simp
  also have "(\<Sum>i<Suc k. unat (res_length (result ! ((h + Suc i) mod RX_BUF_PAGES)))) = pkt_len result' (rx_next h) (Suc k)"
    unfolding pkt_len_def by (rule sum.cong) (use same in auto)
  finally show "pkt_len result h (Suc (Suc k)) = unat (res_length (result ! h)) + pkt_len result' (rx_next h) (Suc k)"
    using assms(2) by simp
qed

lemma complete_loop_packet:
  assumes "packet result (rx_head e) k" and "length result = RX_BUF_PAGES"
    and "rx_head e < RX_BUF_PAGES" and "rx_tail e < RX_BUF_PAGES"
    and "rx_overrun e \<or> k \<le> rxr.gap (rx_head e) (rx_tail e)"
  shows "complete_loop pl nc result e = Some (Some (False, pl + pkt_len result (rx_head e) k, nc + k,
    clear_run result (rx_head e) k, e\<lparr>eop_found := True, rx_head := (rx_head e + k) mod RX_BUF_PAGES\<rparr>))"
  using assms
proof (induction k arbitrary: pl nc result e)
  case 0
  then show ?case by (simp add: packet_def)
next
  case (Suc k)
  let ?h = "rx_head e" and ?r = "result ! rx_head e"
  have go: "rx_head e \<noteq> rx_tail e \<or> rx_overrun e" using Suc.prems(3,5) rxr.gap_self by fastforce
  have r: "\<not> rx_fault ?r" "res_status ?r AND RX_STATUS_EOP \<noteq> 0 \<longleftrightarrow> k = 0"
    using Suc.prems(1,3) by (force simp: packet_def)+
  show ?case
  proof (cases k)
    case 0
    then show ?thesis
      using r go Suc.prems by (subst complete_loop.simps) (simp add: Let_def clr_def pkt_len_def rx_next_def)
  next
    case (Suc m)
    let ?res = "result[?h := clr ?r]" and ?e = "e\<lparr>rx_head := rx_next ?h\<rparr>"
    have p: "packet result ?h (Suc (Suc m))" using Suc.prems(1) Suc by simp
    note ps = packet_step[OF p Suc.prems(3,2)]
    have gap: "rx_overrun ?e \<or> k \<le> rxr.gap (rx_head ?e) (rx_tail ?e)"
      using Suc.prems(3,4,5) go rxr.gap_nxt[of ?h "rx_tail e"] by auto
    have "complete_loop pl nc result e = complete_loop (pl + unat (res_length ?r)) (nc + 1) ?res ?e"
      using r go Suc Suc.prems by (subst complete_loop.simps) (simp add: Let_def clr_def)
    also have "\<dots> = Some (Some (False, pl + unat (res_length ?r) + pkt_len ?res (rx_next ?h) k, nc + 1 + k,
        clear_run ?res (rx_next ?h) k, ?e\<lparr>eop_found := True, rx_head := (rx_next ?h + k) mod RX_BUF_PAGES\<rparr>))"
      using Suc.IH[of ?res ?e "pl + unat (res_length ?r)" "nc + 1"] ps(1) gap Suc Suc.prems by (simp add: rxr.nxt_less)
    finally show ?thesis
      using ps(2) Suc slot_Suc[OF Suc.prems(3), of k] by simp
  qed
qed

text \<open>The copies of a run of \<open>k\<close> blocks, all but the last of them full.\<close>

definition copy_log :: "u64 \<Rightarrow> u64 \<Rightarrow> nat \<Rightarrow> nat \<Rightarrow> nat \<Rightarrow> io list" where
  "copy_log dst src h n k =
    map (\<lambda>i. KI (C_copy_block (dst + of_nat (i * RX_BUF_BLOCK)) (src + of_nat ((h + i) mod RX_BUF_PAGES * RX_BUF_BLOCK))
               (if i = k - 1 then n - i * RX_BUF_BLOCK else RX_BUF_BLOCK)) 0) [0..<k]"

lemma copy_log_Suc:
  assumes "h < RX_BUF_PAGES" and "0 < k"
  shows "copy_log dst src h n (Suc k) =
    KI (C_copy_block dst (src + of_nat (h * RX_BUF_BLOCK)) RX_BUF_BLOCK) 0 #
    copy_log (dst + of_nat RX_BUF_BLOCK) src (rx_next h) (n - RX_BUF_BLOCK) k"
proof -
  have "copy_log dst src h n (Suc k) = KI (C_copy_block dst (src + of_nat (h * RX_BUF_BLOCK)) RX_BUF_BLOCK) 0 #
      map (\<lambda>i. KI (C_copy_block (dst + of_nat (Suc i * RX_BUF_BLOCK)) (src + of_nat ((h + Suc i) mod RX_BUF_PAGES * RX_BUF_BLOCK))
               (if Suc i = k then n - Suc i * RX_BUF_BLOCK else RX_BUF_BLOCK)) 0) [0..<k]"
    unfolding copy_log_def map_upt_Suc using assms by (simp only: diff_Suc_1 mult_0 add_0_right of_nat_0) simp
  moreover have "(Suc i = k) = (i = k - 1)" for i using assms(2) by auto
  ultimately show ?thesis
    unfolding copy_log_def slot_Suc[OF assms(1)] by (simp add: algebra_simps)
qed

lemma add_small32:
  fixes a :: u32
  assumes "unat a + n < 2 ^ 32"
  shows "unat (a + of_nat n) = unat a + n" "(ucast (a + of_nat n) :: u64) = ucast a + of_nat n"
proof -
  have a: "a + of_nat n = of_nat (unat a + n)" by simp
  show "unat (a + of_nat n) = unat a + n" unfolding a using assms by (rule unat_small32)
  have "(ucast (of_nat (unat a + n) :: u32) :: u64) = of_nat (unat a + n)"
    using assms by (simp add: unsigned_of_nat take_bit_nat_eq_self del: of_nat_add)
  also have "\<dots> = ucast a + of_nat n" by simp
  finally show "(ucast (a + of_nat n) :: u64) = ucast a + of_nat n" unfolding a .
qed

lemma copy_cyclic_run:
  assumes "\<And>l a b m. kint w l (C_copy_block a b m) = 0" and "h < RX_BUF_PAGES"
    and "(k - 1) * RX_BUF_BLOCK < n" and "n \<le> k * RX_BUF_BLOCK" and "unat (user_buffer_index e) + n < 2 ^ 32"
  shows "copy_cyclic_loop n h buf e w =
    (None, e\<lparr>user_buffer_index := user_buffer_index e + of_nat n\<rparr>,
     w\<lparr>io := io w @ copy_log (buf + ucast (user_buffer_index e)) (rx_buffer e) h n k\<rparr>)"
  using assms
proof (induction k arbitrary: n h e w)
  case 0
  then show ?case by simp
next
  case (Suc k)
  let ?dst = "buf + ucast (user_buffer_index e)" and ?src = "rx_buffer e + of_nat (h * RX_BUF_BLOCK)"
  show ?case
  proof (cases k)
    case 0
    with Suc.prems have n: "0 < n" "min n RX_BUF_BLOCK = n" by auto
    have "copy_cyclic_loop 0 h' b e' w' = (None, e', w')" for h' b e' w' by (subst copy_cyclic_loop.simps) simp
    with n Suc.prems 0 show ?thesis
      by (subst copy_cyclic_loop.simps) (simp add: call_int_def emit_def Let_def copy_log_def)
  next
    case (Suc m)
    then have big: "RX_BUF_BLOCK < n" and kpos: "0 < k" using Suc.prems(3) by (auto simp: RX_BUF_BLOCK_def)
    let ?n = "n - RX_BUF_BLOCK"
    let ?e = "e\<lparr>user_buffer_index := user_buffer_index e + of_nat RX_BUF_BLOCK\<rparr>"
    let ?w = "w\<lparr>io := io w @ [KI (C_copy_block ?dst ?src RX_BUF_BLOCK) 0]\<rparr>"
    have small: "unat (user_buffer_index e) + RX_BUF_BLOCK < 2 ^ 32" using Suc.prems(5) big by simp
    have idx: "unat (user_buffer_index ?e) = unat (user_buffer_index e) + RX_BUF_BLOCK"
      and uc: "ucast (user_buffer_index ?e) = (ucast (user_buffer_index e) + of_nat RX_BUF_BLOCK :: u64)"
      using add_small32[OF small] by simp_all
    have "copy_cyclic_loop n h buf e w = copy_cyclic_loop ?n (rx_next h) buf ?e ?w"
      using big Suc.prems(1) by (subst copy_cyclic_loop.simps) (simp add: call_int_def emit_def Let_def rx_next_def)
    also have "\<dots> = (None, ?e\<lparr>user_buffer_index := user_buffer_index ?e + of_nat ?n\<rparr>,
        ?w\<lparr>io := io ?w @ copy_log (buf + ucast (user_buffer_index ?e)) (rx_buffer ?e) (rx_next h) ?n k\<rparr>)"
      by (rule Suc.IH) (use Suc.prems big idx Suc in \<open>simp_all add: rxr.nxt_less RX_BUF_BLOCK_def\<close>)
    also have "\<dots> = (None, e\<lparr>user_buffer_index := user_buffer_index e + of_nat n\<rparr>,
        w\<lparr>io := io w @ copy_log ?dst (rx_buffer e) h n (Suc k)\<rparr>)"
      unfolding copy_log_Suc[OF Suc.prems(2) kpos] uc using big by (simp add: of_nat_diff add.assoc)
    finally show ?thesis .
  qed
qed

text \<open>
  C9. Reading a packet of \<open>k\<close> results from the ring, all blocks but the last full: the reader gets the
  bytes of the packet in order and their number, the slots of the packet and no others are cleared,
  the head moves past them, and as many credits as slots are returned to the device, after the copy.
\<close>

theorem complete_cyclic_delivers_packet:
  assumes ring: "rx_result_buffer e = Some result" "length result = RX_BUF_PAGES"
      "rx_head e < RX_BUF_PAGES" "rx_tail e < RX_BUF_PAGES"
    and pkt: "packet result (rx_head e) k"
      "rx_overrun e \<or> k \<le> (rx_tail e + RX_BUF_PAGES - rx_head e) mod RX_BUF_PAGES"
    and full: "\<forall>i<k - 1. unat (res_length (result ! ((rx_head e + i) mod RX_BUF_PAGES))) = RX_BUF_BLOCK"
    and user: "buf \<noteq> 0" "\<And>l a b m. kint w l (C_copy_block a b m) = 0"
      "unat (user_buffer_index e) + k * RX_BUF_BLOCK < 2 ^ 32"
  shows "\<exists>e' w' result'. complete_cyclic e buf w = Some (Some (int (pkt_len result (rx_head e) k), e', w')) \<and>
    io w' = io w @ copy_log (buf + ucast (user_buffer_index e)) (rx_buffer e) (rx_head e) (pkt_len result (rx_head e) k) k
                 @ [Wr (sgdma_regs e + sr S_credits) (of_nat k)] \<and>
    rx_head e' = (rx_head e + k) mod RX_BUF_PAGES \<and> eop_found e' \<and> \<not> rx_overrun e' \<and>
    rx_result_buffer e' = Some result' \<and>
    (\<forall>j<RX_BUF_PAGES. result' ! j = (if \<exists>i<k. j = (rx_head e + i) mod RX_BUF_PAGES then clr (result ! j) else result ! j))"
proof -
  let ?h = "rx_head e" and ?n = "pkt_len result (rx_head e) k"
  have k: "0 < k" "k \<le> RX_BUF_PAGES" using pkt(1) by (simp_all add: packet_def)
  let ?l = "unat (res_length (result ! ((?h + (k - 1)) mod RX_BUF_PAGES)))"
  have nf: "\<not> rx_fault (result ! ((?h + (k - 1)) mod RX_BUF_PAGES))" using pkt(1) k(1) unfolding packet_def by (metis One_nat_def diff_Suc_less)
  have l: "0 < ?l" "?l \<le> RX_BUF_BLOCK"
    using nf by (auto simp: rx_fault_def not_less word_le_nat_alt RX_BUF_BLOCK_def unsigned_eq_0_iff neq0_conv[symmetric] simp del: neq0_conv)
  have "?n = (\<Sum>i<k - 1. unat (res_length (result ! ((?h + i) mod RX_BUF_PAGES)))) + ?l"
    unfolding pkt_len_def using k(1) by (cases k) simp_all
  also have "(\<Sum>i<k - 1. unat (res_length (result ! ((?h + i) mod RX_BUF_PAGES)))) = (k - 1) * RX_BUF_BLOCK"
    using full by (simp add: sum_constant)
  finally have n: "?n = (k - 1) * RX_BUF_BLOCK + ?l" .
  have le: "?n \<le> k * RX_BUF_BLOCK" using n l(2) k(1) by (cases k) auto
  let ?e = "e\<lparr>eop_found := True, rx_head := (?h + k) mod RX_BUF_PAGES\<rparr>"
  have loop: "complete_loop 0 0 result e = Some (Some (False, ?n, k, clear_run result ?h k, ?e))"
    using complete_loop_packet[OF pkt(1) ring(2-4), of 0 0] pkt(2) by (simp add: rxr.gap_def)
  let ?e1 = "?e\<lparr>rx_result_buffer := Some (clear_run result ?h k)\<rparr>"
  have copy: "copy_cyclic_loop ?n ?h buf ?e1 w = (None, ?e1\<lparr>user_buffer_index := user_buffer_index e + of_nat ?n\<rparr>,
      w\<lparr>io := io w @ copy_log (buf + ucast (user_buffer_index e)) (rx_buffer e) ?h ?n k\<rparr>)"
    using copy_cyclic_run[of w ?h k ?n ?e1 buf] user(2,3) ring(3) n l le by simp
  have "0 < ?n" using n l by simp
  then show ?thesis
    using ring(1) loop copy user(1) clear_run_nth[OF ring(2,3) k(2)]
    by (intro exI[of _ "?e1\<lparr>user_buffer_index := user_buffer_index e + of_nat ?n, rx_overrun := False\<rparr>"]
        exI[of _ "clear_run result ?h k"] exI)
      (auto simp: complete_cyclic_def copy_cyclic_to_user_def Let_def write_register_def emit_def)
qed

text \<open>A packet of two slots that wraps around the end of the ring.\<close>

definition demo_ring :: "xdma_result list" where
  "demo_ring = (replicate RX_BUF_PAGES \<lparr>res_status = 0, res_length = 0\<rparr>)
     [255 := \<lparr>res_status = 0x52B40000, res_length = 4096\<rparr>, 0 := \<lparr>res_status = 0x52B40001, res_length = 20\<rparr>]"

theorem complete_cyclic_delivers_packet_witness:
  "\<exists>e' w'. complete_cyclic (zero_engine\<lparr>rx_result_buffer := Some demo_ring, rx_head := 255, rx_tail := 1, rx_buffer := 0x100000\<rparr>)
      0x7000 quiet_world = Some (Some (4116, e', w')) \<and> rx_head e' = 1 \<and>
    io w' = [KI (C_copy_block 0x7000 0x1FF000 4096) 0, KI (C_copy_block 0x8000 0x100000 20) 0, Wr (sr S_credits) 2]"
proof -
  let ?e = "zero_engine\<lparr>rx_result_buffer := Some demo_ring, rx_head := 255, rx_tail := 1, rx_buffer := 0x100000\<rparr>"
  have e: "rx_head ?e = 255" "rx_tail ?e = 1" "rx_buffer ?e = 0x100000" "user_buffer_index ?e = 0" "sgdma_regs ?e = 0"
    by (simp_all add: zero_engine_def)
  have two: "i < 2 \<longleftrightarrow> i = 0 \<or> i = 1" for i :: nat by auto
  have slots: "demo_ring ! 255 = \<lparr>res_status = 0x52B40000, res_length = 4096\<rparr>"
    "demo_ring ! 0 = \<lparr>res_status = 0x52B40001, res_length = 20\<rparr>" "length demo_ring = RX_BUF_PAGES"
    by (simp_all add: demo_ring_def RX_BUF_PAGES_def nth_list_update)
  have p: "packet demo_ring 255 2"
    unfolding packet_def two using slots by (auto simp: RX_BUF_PAGES_def rx_fault_def C2H_WB_def RX_BUF_BLOCK_def RX_STATUS_EOP_def)
  have n: "pkt_len demo_ring 255 2 = 4116"
  proof -
    have "{..<2 :: nat} = {0, 1}" by auto
    then show ?thesis unfolding pkt_len_def using slots by (simp add: RX_BUF_PAGES_def)
  qed
  have log: "copy_log 0x7000 0x100000 255 4116 2 = [KI (C_copy_block 0x7000 0x1FF000 4096) 0, KI (C_copy_block 0x8000 0x100000 20) 0]"
    by (simp add: copy_log_def RX_BUF_BLOCK_def RX_BUF_PAGES_def upt_rec)
  show ?thesis
    using complete_cyclic_delivers_packet[where e = ?e and result = demo_ring and k = 2 and buf = "0x7000" and w = quiet_world]
      slots p n log unfolding e by (auto simp: RX_BUF_PAGES_def RX_BUF_BLOCK_def)
qed

text \<open>The number of results the device has written and nobody consumed yet.\<close>

definition live :: "xdma_result list \<Rightarrow> nat" where
  "live result = length (filter (\<lambda>r. res_status r \<noteq> 0) result)"

lemma live_simps: "live (r # rs) = (if res_status r \<noteq> 0 then Suc (live rs) else live rs)" "live (rs @ qs) = live rs + live qs"
  by (simp_all add: live_def)

lemma live_clear:
  assumes "i < length result" and "res_status (result ! i) \<noteq> 0"
  shows "live (result[i := clr (result ! i)]) < live result"
proof -
  have "live result = live (take i result @ result ! i # drop (Suc i) result)"
    by (rule arg_cong[OF id_take_nth_drop[OF assms(1)]])
  moreover have "live (result[i := clr (result ! i)]) = live (take i result @ clr (result ! i) # drop (Suc i) result)"
    by (rule arg_cong[OF upd_conv_take_nth_drop[OF assms(1)]])
  ultimately show ?thesis using assms(2) by (simp add: live_simps clr_def)
qed

lemma complete_loop_ends:
  "\<exists>r. complete_loop pl nc result e = Some r"
proof (induction "live result" arbitrary: pl nc result e rule: less_induct)
  case less
  let ?r = "result ! rx_head e"
  show ?case
  proof (cases "(rx_head e \<noteq> rx_tail e \<or> rx_overrun e) \<and> rx_head e < length result \<and> \<not> rx_fault ?r \<and> res_status ?r AND RX_STATUS_EOP = 0")
    case True
    then have "res_status ?r \<noteq> 0" by (auto simp: rx_fault_def C2H_WB_def)
    then have "live (result[rx_head e := clr ?r]) < live result" using True live_clear by blast
    then have IH: "\<exists>r. complete_loop pl' nc' (result[rx_head e := clr ?r]) e' = Some r" for pl' nc' e' by (rule less.hyps)
    then show ?thesis using True by (subst complete_loop.simps) (simp add: Let_def clr_def)
  next
    case False
    then show ?thesis by (subst complete_loop.simps) (auto simp: Let_def arr_get_def)
  qed
qed

text \<open>
  C30. Completing a read never loops forever, whatever the device wrote into the ring: every round that
  goes on has cleared a result that carried the magic.
\<close>

theorem complete_cyclic_ends: "\<exists>r. complete_cyclic e buf w = Some r"
  using complete_loop_ends by (auto simp: complete_cyclic_def Let_def split: option.splits) (metis option.distinct(1))

end
