(* ===== verification/Xdma_Chardev.thy ===== *)
theory Xdma_Chardev
  imports Xdma_Setup Xdma_Cyclic Refinement
begin

text \<open>
  The character devices of \<^verbatim>\<open>xdma-core.c\<close>: the ioctls of an engine node, the control, user and bypass nodes,
  the event nodes, and the creation and removal of a node.

  The driver's own globals are a record: the module-wide \<^verbatim>\<open>major\<close>, the table of used instance numbers,
  the device class, and the live \<^verbatim>\<open>struct xdma_char\<close> objects by address. A node refers to its engine by
  channel and direction and to its event by its index, because both live inside the device.
\<close>

section \<open>Performance measurement\<close>

definition IOCTL_XDMA_PERF_V1 :: u32 where [const_defs]: "IOCTL_XDMA_PERF_V1 = 1"

definition get_perf_stats :: "xdma_engine \<Rightarrow> world \<Rightarrow> (xdma_engine \<times> world) option" where
  "get_perf_stats e w = do {
     pf \<leftarrow> xdma_perf e;
     let (lo, w) = read_register (regs e + er R_completed_desc_count) w;
     let it = build_u64 0 (ucast lo);
     let (hi, w) = read_register (regs e + er R_perf_cyc_hi) w;
     let (lo, w) = read_register (regs e + er R_perf_cyc_lo) w;
     let cyc = build_u64 (ucast hi) (ucast lo);
     let (hi, w) = read_register (regs e + er R_perf_dat_hi) w;
     let (lo, w) = read_register (regs e + er R_perf_dat_lo) w;
     let dat = build_u64 (ucast hi) (ucast lo);
     let (hi, w) = read_register (regs e + er R_perf_pnd_hi) w;
     let (lo, w) = read_register (regs e + er R_perf_pnd_lo) w;
     let pnd = build_u64 (ucast hi) (ucast lo);
     Some (e\<lparr>xdma_perf := Some (pf\<lparr>iterations := ucast it, clock_cycle_count := cyc, data_cycle_count := dat,
             pending_count := pnd\<rparr>)\<rparr>, w) }"

text \<open>The ten words of \<^verbatim>\<open>struct xdma_performance_ioctl\<close>, and the structure they make.\<close>

definition perf_words :: "perf_ioctl \<Rightarrow> u32 list" where
  "perf_words p = [version p, transfer_size p, stopped p, iterations p,
     ucast (clock_cycle_count p), ucast (drop_bit 32 (clock_cycle_count p)),
     ucast (data_cycle_count p), ucast (drop_bit 32 (data_cycle_count p)),
     ucast (pending_count p), ucast (drop_bit 32 (pending_count p))]"

definition perf_of :: "(nat \<Rightarrow> u32) \<Rightarrow> perf_ioctl" where
  "perf_of f = \<lparr>version = f 0, transfer_size = f 1, stopped = f 2, iterations = f 3,
     clock_cycle_count = addr_of (f 5) (f 4), data_cycle_count = addr_of (f 7) (f 6), pending_count = addr_of (f 9) (f 8)\<rparr>"

text \<open>
  \<^verbatim>\<open>copy_from_user\<close> returns the number of bytes it could not copy, never a negative number: the words before them
  were copied, the rest of the zeroed structure stays zero. The error test of the source is \<^verbatim>\<open>rc < 0\<close>.
\<close>

definition ioctl_do_perf_start :: "xdma_engine \<Rightarrow> u64 \<Rightarrow> world \<Rightarrow> (int \<times> xdma_engine \<times> world) option" where
  "ioctl_do_perf_start e arg w =
    (if xdma_perf e \<noteq> None then Some (- EBUSY, e, w)
     else case call_ptr (C_kzalloc ''xdma_performance_ioctl'') w of (p, w) \<Rightarrow>
     if p = 0 then Some (- ENOMEM, e, w)
     else case call_int (C_copy_from_user arg 40) w of (rc, w) \<Rightarrow>
       let pf = perf_of (\<lambda>k. if int (4 * k + 4) \<le> 40 - rc then usr w (io w) (arg + of_nat (4 * k)) else 0);
           e = e\<lparr>xdma_perf := Some pf\<rparr> in
       if rc < 0 then Some (- EINVAL, e, w)
       else if version pf \<noteq> IOCTL_XDMA_PERF_V1 then Some (- EINVAL, e, w)
       else do {
         let w = write_register XDMA_PERF_CLEAR (regs e + er R_perf_ctrl) w;
         let (_, w) = read_register (regs e + er R_identifier) w;
         let w = write_register (XDMA_PERF_AUTO OR XDMA_PERF_RUN) (regs e + er R_perf_ctrl) w;
         let (_, w) = read_register (regs e + er R_identifier) w;
         (_, e, w) \<leftarrow> xdma_performance_submit e w;
         Some (0, e, w) })"

definition kfree_perf :: "world \<Rightarrow> world" where
  "kfree_perf w = call_void (C_misc ''kfree xdma_perf'' 0) w"

definition ioctl_do_perf_stop :: "xdma_engine \<Rightarrow> u64 \<Rightarrow> world \<Rightarrow> (int \<times> xdma_engine \<times> world) option" where
  "ioctl_do_perf_stop e arg w =
    (if xdma_perf e = None then Some (- EINVAL, e, w)
     else do {
       (_, w) \<leftarrow> engine_cyclic_stop e w;
       (e, w) \<leftarrow> get_perf_stats e w;
       pf \<leftarrow> xdma_perf e;
       let (rc, w) = call_int (C_copy_to_user arg (perf_words pf)) w;
       if rc \<noteq> 0 then Some (- EINVAL, e, w)
       else Some (0, e\<lparr>xdma_perf := None\<rparr>, kfree_perf w) })"

definition ioctl_do_perf_get :: "xdma_engine \<Rightarrow> u64 \<Rightarrow> world \<Rightarrow> (int \<times> xdma_engine \<times> world) option" where
  "ioctl_do_perf_get e arg w =
    (if xdma_perf e = None then Some (- EPROTO, e, w)
     else do {
       (e, w) \<leftarrow> get_perf_stats e w;
       pf \<leftarrow> xdma_perf e;
       let (rc, w) = call_int (C_copy_to_user arg (perf_words pf)) w;
       Some (if rc \<noteq> 0 then - EINVAL else 0, e, w) })"

section \<open>Addressing mode and alignment\<close>

definition ioctl_do_addrmode_set :: "xdma_engine \<Rightarrow> u64 \<Rightarrow> world \<Rightarrow> int \<times> xdma_engine \<times> world" where
  "ioctl_do_addrmode_set e arg w =
    (let (rc, w) = call_int (C_get_user arg) w;
         dst = usr w (io w) arg;
         (e, w) = (if rc = 0 then
             let e = e\<lparr>non_incr_addr := dst \<noteq> 0\<rparr> in
             (e, write_register XDMA_CTRL_NON_INCR_ADDR
                   (regs e + er (if non_incr_addr e then R_control_w1s else R_control_w1c)) w)
           else (e, w));
         (e, w) = engine_alignments e w
     in (rc, e, w))"

definition ioctl_do_addrmode_get :: "xdma_engine \<Rightarrow> u64 \<Rightarrow> world \<Rightarrow> int \<times> world" where
  "ioctl_do_addrmode_get e arg w = call_int (C_put_user arg (if non_incr_addr e then 1 else 0)) w"

definition ioctl_do_align_get :: "xdma_engine \<Rightarrow> u64 \<Rightarrow> world \<Rightarrow> int \<times> world" where
  "ioctl_do_align_get e arg w = call_int (C_put_user arg (addr_align e)) w"

section \<open>The ioctl of an engine node\<close>

text \<open>\<^verbatim>\<open>_IOC\<close> of the kernel: direction, size of the argument, magic and number.\<close>

definition IOC :: "u32 \<Rightarrow> u32 \<Rightarrow> u32 \<Rightarrow> u32" where
  "IOC dir nr sz = push_bit 30 dir OR push_bit 16 sz OR push_bit 8 0x71 OR nr"

definition IOCTL_XDMA_PERF_START :: u32 where "IOCTL_XDMA_PERF_START = IOC 1 1 8"
definition IOCTL_XDMA_PERF_STOP :: u32 where "IOCTL_XDMA_PERF_STOP = IOC 1 2 8"
definition IOCTL_XDMA_PERF_GET :: u32 where "IOCTL_XDMA_PERF_GET = IOC 2 3 8"
definition IOCTL_XDMA_ADDRMODE_SET :: u32 where "IOCTL_XDMA_ADDRMODE_SET = IOC 1 4 4"
definition IOCTL_XDMA_ADDRMODE_GET :: u32 where "IOCTL_XDMA_ADDRMODE_GET = IOC 2 5 4"
definition IOCTL_XDMA_ALIGN_GET :: u32 where "IOCTL_XDMA_ALIGN_GET = IOC 2 6 4"
definition IOCTL_XDMA_WZ_ALLOC_BUFFERS :: u32 where "IOCTL_XDMA_WZ_ALLOC_BUFFERS = IOC 0 7 0"
definition IOCTL_XDMA_WZ_START :: u32 where "IOCTL_XDMA_WZ_START = IOC 0 8 0"
definition IOCTL_XDMA_WZ_STOP :: u32 where "IOCTL_XDMA_WZ_STOP = IOC 0 9 0"
definition IOCTL_XDMA_WZ_FREE_BUFFERS :: u32 where "IOCTL_XDMA_WZ_FREE_BUFFERS = IOC 0 10 0"
definition IOCTL_XDMA_WZ_GETBUF :: u32 where "IOCTL_XDMA_WZ_GETBUF = IOC 2 11 12"
definition IOCTL_XDMA_WZ_CONFIRM :: u32 where "IOCTL_XDMA_WZ_CONFIRM = IOC 1 12 8"
definition IOCTL_XDMA_WZ_GETFREE :: u32 where "IOCTL_XDMA_WZ_GETFREE = IOC 0 13 0"

text \<open>The outer option is the loop of the confirmation, which may not end.\<close>

definition char_sgdma_ioctl ::
  "(xdma_engine \<times> world \<Rightarrow> xdma_engine \<times> world) \<Rightarrow> u32 \<Rightarrow> u64 \<Rightarrow> xdma_engine \<Rightarrow> world \<Rightarrow>
     (int \<times> xdma_engine \<times> world) option option" where
  "char_sgdma_ioctl sleep cmd arg e w =
    (if cmd = IOCTL_XDMA_PERF_START then Some (ioctl_do_perf_start e arg w)
     else if cmd = IOCTL_XDMA_PERF_STOP then Some (ioctl_do_perf_stop e arg w)
     else if cmd = IOCTL_XDMA_PERF_GET then Some (ioctl_do_perf_get e arg w)
     else if cmd = IOCTL_XDMA_ADDRMODE_SET then Some (Some (ioctl_do_addrmode_set e arg w))
     else if cmd = IOCTL_XDMA_ADDRMODE_GET then (case ioctl_do_addrmode_get e arg w of (rc, w) \<Rightarrow> Some (Some (rc, e, w)))
     else if cmd = IOCTL_XDMA_ALIGN_GET then (case ioctl_do_align_get e arg w of (rc, w) \<Rightarrow> Some (Some (rc, e, w)))
     else if cmd = IOCTL_XDMA_WZ_ALLOC_BUFFERS then Some (ioctl_do_wz_alloc_buffers e w)
     else if cmd = IOCTL_XDMA_WZ_START then Some (ioctl_do_wz_start e w)
     else if cmd = IOCTL_XDMA_WZ_STOP then Some (ioctl_do_wz_stop sleep e w)
     else if cmd = IOCTL_XDMA_WZ_GETBUF then Some (ioctl_do_wz_getbuf sleep e arg w)
     else if cmd = IOCTL_XDMA_WZ_FREE_BUFFERS then Some (ioctl_do_wz_free_buffers e w)
     else if cmd = IOCTL_XDMA_WZ_CONFIRM then
       map_option (map_option (\<lambda>(rc, w). (rc, e, w))) (ioctl_do_wz_confirm e arg w)
     else Some (Some (- EINVAL, e, w)))"

section \<open>Nodes\<close>

record xdma_char =
  cmagic :: u64
  has_lro :: bool
  cdevno :: u32
  cbar :: int
  cengine :: "(nat \<times> nat) option"
  cuser_irq :: "nat option"
  sys_device :: u64

record xdma_drv =
  drv_major :: int
  dev_present :: "bool list"
  xdma_class :: u64
  chars :: "u64 \<Rightarrow> xdma_char option"

definition char_check :: "xdma_char \<Rightarrow> xdma_dev \<Rightarrow> unit option" where
  "char_check c lro = do { BUG_ON (cmagic c \<noteq> MAGIC_CHAR); BUG_ON (\<not> has_lro c); BUG_ON (dev_magic lro \<noteq> MAGIC_DEVICE) }"

definition char_open :: "xdma_char \<Rightarrow> int option" where
  "char_open c = do { BUG_ON (cmagic c \<noteq> MAGIC_CHAR); Some 0 }"

definition char_close :: "xdma_char \<Rightarrow> xdma_dev \<Rightarrow> int option" where
  "char_close c lro = do { char_check c lro; Some 0 }"

section \<open>The control and user nodes\<close>


text \<open>\<^verbatim>\<open>pci_resource_end\<close>: the last address of a present BAR, 0 for an absent one.\<close>

definition res_end :: "pci_dev \<Rightarrow> nat \<Rightarrow> u64" where
  "res_end dev i = (if res_len dev i = 0 then 0 else res_start dev i + res_len dev i - 1)"

definition VMEM_FLAGS :: u64 where "VMEM_FLAGS = VM_IO OR VM_DONTEXPAND OR VM_DONTDUMP"

definition bridge_mmap :: "pci_dev \<Rightarrow> xdma_char \<Rightarrow> xdma_dev \<Rightarrow> vm_area \<Rightarrow> world \<Rightarrow> (int \<times> vm_area \<times> world) option" where
  "bridge_mmap dev c lro vma w = do {
     char_check c lro;
     let b = nat (cbar c);
     let off = push_bit PAGE_SHIFT (vm_pgoff vma);
     let phys = res_start dev b + off;
     let vsize = vm_end vma - vm_start vma;
     let psize = res_end dev b - res_start dev b + 1 - off;
     if vsize > psize then Some (- EINVAL, vma, w)
     else do {
       let vma = vma\<lparr>vm_flags := vm_flags vma OR VMEM_FLAGS\<rparr>;
       let (rc, w) = call_int (C_remap_pfn (drop_bit PAGE_SHIFT phys) vsize) w;
       Some (if rc \<noteq> 0 then - EAGAIN else 0, vma, w) } }"

definition char_bar :: "xdma_char \<Rightarrow> xdma_dev \<Rightarrow> u64 option" where
  "char_bar c lro = (if cbar c < 0 then None else arr_get (bar lro) (nat (cbar c)))"

text \<open>The result holds the new file position.\<close>

definition char_ctrl_read :: "xdma_char \<Rightarrow> xdma_dev \<Rightarrow> u64 \<Rightarrow> nat \<Rightarrow> u64 \<Rightarrow> world \<Rightarrow> (int \<times> u64 \<times> world) option" where
  "char_ctrl_read c lro buf cnt pos w = do {
     char_check c lro;
     if pos AND 3 \<noteq> 0 then Some (- EPROTO, pos, w)
     else do {
       b \<leftarrow> char_bar c lro;
       let (v, w) = read_register (b + pos) w;
       let (_, w) = call_int (C_copy_to_user buf [v]) w;
       Some (4, pos + 4, w) } }"

text \<open>\<open>stale\<close> is what the local variable of the source holds when the copy from the user fails.\<close>

definition char_ctrl_write ::
  "u32 \<Rightarrow> xdma_char \<Rightarrow> xdma_dev \<Rightarrow> u64 \<Rightarrow> nat \<Rightarrow> u64 \<Rightarrow> world \<Rightarrow> (int \<times> u64 \<times> world) option" where
  "char_ctrl_write stale c lro buf cnt pos w = do {
     char_check c lro;
     if pos AND 3 \<noteq> 0 then Some (- EPROTO, pos, w)
     else do {
       b \<leftarrow> char_bar c lro;
       let (ret, w) = call_int (C_copy_from_user buf 4) w;
       let v = (if ret = 0 then usr w (io w) buf else stale);
       Some (4, pos + 4, write_register v (b + pos) w) } }"

section \<open>The event nodes\<close>

text \<open>\<open>sleep\<close> is what happens to the device while the reader waits.\<close>

definition char_events_read ::
  "(xdma_dev \<times> world \<Rightarrow> xdma_dev \<times> world) \<Rightarrow> xdma_char \<Rightarrow> u64 \<Rightarrow> nat \<Rightarrow> u64 \<Rightarrow> xdma_dev \<Rightarrow> world \<Rightarrow>
     (int \<times> xdma_dev \<times> world) option" where
  "char_events_read sleep c buf cnt pos lro w = do {
     BUG_ON (cmagic c \<noteq> MAGIC_CHAR);
     i \<leftarrow> cuser_irq c;
     if cnt \<noteq> 4 then Some (- EPROTO, lro, w)
     else if pos AND 3 \<noteq> 0 then Some (- EPROTO, lro, w)
     else do {
       latched \<leftarrow> arr_get (user_irq lro) i;
       let (rc, lro, w) = (if latched then (0, lro, w) else (case sleep (lro, w) of (lro, w) \<Rightarrow>
             (case call_int (C_wait_event ''events_wq'') w of (rc, w) \<Rightarrow> (rc, lro, w))));
       if rc = - ERESTARTSYS then Some (- ERESTARTSYS, lro, w)
       else do {
         events_user \<leftarrow> arr_get (user_irq lro) i;
         let lro = lro\<lparr>user_irq := (user_irq lro)[i := False]\<rparr>;
         let (_, w) = call_int (C_copy_to_user buf [if events_user then 1 else 0]) w;
         Some (4, lro, w) } } }"

definition POLLIN :: u32 where [const_defs]: "POLLIN = 1"
definition POLLRDNORM :: u32 where [const_defs]: "POLLRDNORM = 0x40"

definition char_events_poll :: "xdma_char \<Rightarrow> xdma_dev \<Rightarrow> world \<Rightarrow> (u32 \<times> world) option" where
  "char_events_poll c lro w = do {
     BUG_ON (cmagic c \<noteq> MAGIC_CHAR);
     i \<leftarrow> cuser_irq c;
     let w = call_void (C_misc ''poll_wait'' i) w;
     latched \<leftarrow> arr_get (user_irq lro) i;
     Some (if latched then POLLIN OR POLLRDNORM else 0, w) }"

section \<open>The bypass nodes\<close>

definition desc_words :: "xdma_desc \<Rightarrow> u32 list" where
  "desc_words d = [control d, bytes d, src_addr_lo d, src_addr_hi d, dst_addr_lo d, dst_addr_hi d, next_lo d, next_hi d]"

definition copy_desc_one :: "xdma_transfer \<Rightarrow> u64 \<Rightarrow> nat \<Rightarrow> nat \<Rightarrow> int \<times> nat \<times> world \<Rightarrow> (int \<times> nat \<times> world) option" where
  "copy_desc_one t buf buf_size i s = (case s of (rc, off, w) \<Rightarrow>
     if off + 32 \<le> buf_size then do {
       d \<leftarrow> dmem w (desc_ptr (desc_virt t) i);
       let (err, w) = call_int (C_copy_to_user (buf + of_nat off) (desc_words d)) w;
       Some (if err \<noteq> 0 then (- EINVAL, buf_size, w) else (rc, off + 32, w))
     } else Some (- ENOMEM, off, w))"

definition copy_desc_data :: "xdma_transfer \<Rightarrow> u64 \<Rightarrow> nat \<Rightarrow> nat \<Rightarrow> world \<Rightarrow> (int \<times> nat \<times> world) option" where
  "copy_desc_data t buf off buf_size w = do {
     BUG_ON (buf = 0);
     for_range 0 (desc_num t) (copy_desc_one t buf buf_size) (0, off, w) }"

definition bypass_check :: "xdma_char \<Rightarrow> xdma_dev \<Rightarrow> xdma_engine \<Rightarrow> unit option" where
  "bypass_check c lro e = do { char_check c lro; BUG_ON (magic e \<noteq> MAGIC_ENGINE) }"

fun bypass_read_loop :: "u64 \<Rightarrow> nat \<Rightarrow> u64 list \<Rightarrow> int \<times> nat \<times> world \<Rightarrow> (int \<times> nat \<times> world) option" where
  "bypass_read_loop buf cnt [] s = Some s"
| "bypass_read_loop buf cnt (p # ps) (rc, off, w) = do {
     t \<leftarrow> xfers w p;
     s \<leftarrow> copy_desc_data t buf off cnt w;
     bypass_read_loop buf cnt ps s }"

definition char_bypass_read ::
  "xdma_char \<Rightarrow> xdma_dev \<Rightarrow> xdma_engine \<Rightarrow> u64 \<Rightarrow> nat \<Rightarrow> world \<Rightarrow> (int \<times> world) option" where
  "char_bypass_read c lro e buf cnt w = do {
     bypass_check c lro e;
     if cnt AND 3 \<noteq> 0 then Some (- EINVAL, w)
     else if buf = 0 then Some (- EINVAL, w)
     else if bypass_bar_idx lro < 0 then Some (- ENODEV, w)
     else do {
       (rc, off, w) \<leftarrow> bypass_read_loop buf cnt (transfer_list e) (0, 0, w);
       Some (if rc < 0 then rc else int off, w) } }"

text \<open>The write loop over \<open>n\<close> words; \<open>k\<close> words are written. The address never moves.\<close>

fun bypass_write_loop :: "u64 \<Rightarrow> u64 \<Rightarrow> nat \<Rightarrow> nat \<Rightarrow> int \<Rightarrow> world \<Rightarrow> int \<times> world" where
  "bypass_write_loop a buf k 0 rc w = (rc, w)"
| "bypass_write_loop a buf k (Suc n) rc w =
    (let q = buf + of_nat (4 * k);
         (err, w) = call_int (C_copy_from_user q 4) w in
     if err = 0 then bypass_write_loop a buf (Suc k) n (int (4 * Suc k)) (write_register (usr w (io w) q) a w)
     else (- EINVAL, w))"

definition char_bypass_write ::
  "xdma_char \<Rightarrow> xdma_dev \<Rightarrow> xdma_engine \<Rightarrow> u64 \<Rightarrow> nat \<Rightarrow> world \<Rightarrow> (int \<times> world) option" where
  "char_bypass_write c lro e buf cnt w = do {
     bypass_check c lro e;
     if cnt AND 3 \<noteq> 0 then Some (- EINVAL, w)
     else if buf = 0 then Some (- EINVAL, w)
     else if bypass_bar_idx lro < 0 then Some (- ENODEV, w)
     else do {
       b \<leftarrow> arr_get (bar lro) (nat (bypass_bar_idx lro));
       let bypass_addr = b + 4 * ucast (bypass_offset e);
       Some (bypass_write_loop bypass_addr buf 0 (cnt div 4) 0 w) } }"

section \<open>Creating and removing a node\<close>

definition MAX_XDMA_DEVICES :: nat where [const_defs]: "MAX_XDMA_DEVICES = 64"
definition XDMA_MINOR_COUNT :: nat where [const_defs]: "XDMA_MINOR_COUNT = 255"

text \<open>\<^verbatim>\<open>dev_t\<close>: twelve bits of major number, twenty of minor number.\<close>

definition MKDEV :: "int \<Rightarrow> int \<Rightarrow> u32" where "MKDEV ma mi = push_bit 20 (of_int ma) OR of_int mi"
definition MAJOR :: "u32 \<Rightarrow> int" where "MAJOR d = uint (drop_bit 20 d)"

definition kfree_char :: "u64 \<Rightarrow> world \<Rightarrow> world" where "kfree_char p w = call_void (C_kfree p) w"

definition unregister_chrdev_region :: "u32 \<Rightarrow> world \<Rightarrow> world" where
  "unregister_chrdev_region d w = call_void (C_cdev ''unregister_chrdev_region'' (ucast d)) w"

definition destroy_sg_char :: "u64 \<Rightarrow> xdma_drv \<times> world \<Rightarrow> (xdma_drv \<times> world) option" where
  "destroy_sg_char p s = (case s of (drv, w) \<Rightarrow> do {
     c \<leftarrow> chars drv p;
     BUG_ON (cmagic c \<noteq> MAGIC_CHAR);
     BUG_ON (\<not> has_lro c);
     BUG_ON (xdma_class drv = 0);
     BUG_ON (sys_device c = 0);
     let w = call_void (C_cdev ''device_destroy'' (ucast (cdevno c))) w;
     let w = call_void (C_cdev ''cdev_del'' (ucast (cdevno c))) w;
     let w = unregister_chrdev_region (cdevno c) w;
     Some (drv\<lparr>chars := (chars drv)(p := None)\<rparr>, kfree_char p w) })"

text \<open>A major number of its own: the kernel's choice, or counting the module-wide one down.\<close>

definition gen_dev_major :: "xdma_drv \<Rightarrow> world \<Rightarrow> int \<times> xdma_drv \<times> world" where
  "gen_dev_major drv w =
    (if drv_major drv = 0 then
       let (rc, w) = call_int (C_cdev ''alloc_chrdev_region'' 0) w;
           d = (if rc = 0 then ucast (kptr w (io w) (C_misc ''alloc_chrdev_region'' 0)) else 0)
       in (MAJOR d, drv, w)
     else (drv_major drv, drv\<lparr>drv_major := drv_major drv - 1\<rparr>, w))"

definition gen_dev_minor :: "xdma_engine option \<Rightarrow> chardev_type \<Rightarrow> int \<Rightarrow> int option" where
  "gen_dev_minor eo type event_id =
    (if type = CHAR_XDMA_H2C \<or> type = CHAR_XDMA_C2H then do {
       e \<leftarrow> eo;
       BUG_ON (number_in_channel e \<ge> 2);
       Some (32 + int (number_in_channel e * 4) + int (channel e)) }
     else if type = CHAR_BYPASS_H2C \<or> type = CHAR_BYPASS_C2H then do {
       e \<leftarrow> eo;
       BUG_ON (number_in_channel e \<ge> 2);
       Some (64 + int (number_in_channel e * 4) + int (channel e)) }
     else if type = CHAR_BYPASS then Some 100
     else if type = CHAR_EVENTS then Some (10 + event_id)
     else Some (int (chardev_val type)))"

datatype file_operations = sg_polled_fops | sg_interrupt_fops | ctrl_fops | events_fops | bypass_fops

text \<open>The handlers of the tables, as compiled: the reads, writes and seeks of the interrupt table are commented out.\<close>

fun fops_table :: "file_operations \<Rightarrow> (string \<times> string) list" where
  "fops_table sg_polled_fops = [(''open'', ''char_sgdma_open''), (''release'', ''char_sgdma_close''), (''read'', ''char_sgdma_read''),
     (''write'', ''char_sgdma_write''), (''mmap'', ''char_sgdma_wz_mmap''), (''unlocked_ioctl'', ''char_sgdma_ioctl''),
     (''llseek'', ''char_sgdma_llseek'')]"
| "fops_table sg_interrupt_fops = [(''open'', ''char_sgdma_open''), (''release'', ''char_sgdma_close''),
     (''mmap'', ''char_sgdma_wz_mmap''), (''unlocked_ioctl'', ''char_sgdma_ioctl'')]"
| "fops_table ctrl_fops = [(''open'', ''char_open''), (''release'', ''char_close''), (''read'', ''char_ctrl_read''),
     (''write'', ''char_ctrl_write''), (''mmap'', ''bridge_mmap'')]"
| "fops_table bypass_fops = [(''open'', ''char_open''), (''release'', ''char_close''), (''read'', ''char_bypass_read''),
     (''write'', ''char_bypass_write''), (''mmap'', ''bridge_mmap'')]"
| "fops_table events_fops = [(''open'', ''char_open''), (''release'', ''char_close''), (''read'', ''char_events_read''),
     (''poll'', ''char_events_poll'')]"

fun select_file_ops :: "bool \<Rightarrow> chardev_type \<Rightarrow> file_operations" where
  "select_file_ops poll CHAR_XDMA_H2C = (if poll then sg_polled_fops else sg_interrupt_fops)"
| "select_file_ops poll CHAR_XDMA_C2H = (if poll then sg_polled_fops else sg_interrupt_fops)"
| "select_file_ops poll CHAR_USER = ctrl_fops"
| "select_file_ops poll CHAR_CTRL = ctrl_fops"
| "select_file_ops poll CHAR_EVENTS = events_fops"
| "select_file_ops poll CHAR_BYPASS_H2C = bypass_fops"
| "select_file_ops poll CHAR_BYPASS_C2H = bypass_fops"
| "select_file_ops poll CHAR_BYPASS = bypass_fops"

fun devnode_names :: "chardev_type \<Rightarrow> string" where
  "devnode_names CHAR_USER = ''wz-xdma%d_user''"
| "devnode_names CHAR_CTRL = ''wz-xdma%d_control''"
| "devnode_names CHAR_EVENTS = ''wz-xdma%d_events_%d''"
| "devnode_names CHAR_XDMA_H2C = ''wz-xdma%d_h2c_%d''"
| "devnode_names CHAR_XDMA_C2H = ''wz-xdma%d_c2h_%d''"
| "devnode_names CHAR_BYPASS_H2C = ''wz-xdma%d_bypass_h2c_%d''"
| "devnode_names CHAR_BYPASS_C2H = ''wz-xdma%d_bypass_c2h_%d''"
| "devnode_names CHAR_BYPASS = ''wz-xdma%d_bypass''"

text \<open>The name is the format of the table with the instance and, where it has one, a second number.\<close>

definition config_kobject ::
  "xdma_char \<Rightarrow> xdma_dev \<Rightarrow> xdma_engine option \<Rightarrow> chardev_type \<Rightarrow> world \<Rightarrow> (int \<times> world) option" where
  "config_kobject c lro eo type w = do {
     BUG_ON (\<not> has_lro c);
     n \<leftarrow> (if type \<in> {CHAR_XDMA_H2C, CHAR_XDMA_C2H, CHAR_BYPASS_H2C, CHAR_BYPASS_C2H}
           then map_option (\<lambda>e. int (channel e)) eo
           else Some (if type = CHAR_EVENTS then cbar c else 0));
     Some (call_int (C_node ''kobject_set_name'' (devnode_names type) (instance_nr lro) n) w) }"

definition create_dev ::
  "xdma_char \<Rightarrow> xdma_dev \<Rightarrow> xdma_engine option \<Rightarrow> chardev_type \<Rightarrow> world \<Rightarrow> (int \<times> xdma_char \<times> world) option" where
  "create_dev c lro eo type w = do {
     BUG_ON (\<not> has_lro c);
     let last_param = (if type = CHAR_EVENTS then cbar c else case eo of Some e \<Rightarrow> int (channel e) | None \<Rightarrow> 0);
     let (p, w) = call_ptr (C_node ''device_create'' (devnode_names type) (instance_nr lro) last_param) w;
     Some (if p = 0 then -1 else 0, c\<lparr>sys_device := p\<rparr>, w) }"

text \<open>The search for a free instance number; the array is read before the index is compared.\<close>

function dev_slot :: "bool list \<Rightarrow> nat \<Rightarrow> nat option" where
  "dev_slot present i = do { used \<leftarrow> arr_get present i; if used \<and> i < MAX_XDMA_DEVICES then dev_slot present (i + 1) else Some i }"
  by pat_completeness auto
termination by (relation "measure (\<lambda>(p, i). length p - i)") (auto simp: arr_get_def split: if_splits)

declare dev_slot.simps [simp del]

text \<open>A new device takes an instance number and a major number; \<open>None\<close> inside the result is the full table.\<close>

definition new_instance :: "xdma_dev \<Rightarrow> xdma_drv \<Rightarrow> world \<Rightarrow> (xdma_dev \<times> xdma_drv \<times> world) option option" where
  "new_instance lro drv w =
    (if major lro = 0 then do {
       i \<leftarrow> dev_slot (dev_present drv) 0;
       if i = MAX_XDMA_DEVICES then Some None
       else do {
         present \<leftarrow> arr_set (dev_present drv) i True;
         let (m, drv, w) = gen_dev_major (drv\<lparr>dev_present := present\<rparr>) w;
         Some (Some (lro\<lparr>instance_nr := int i, major := m\<rparr>, drv, w)) }
     } else Some (Some (lro, drv, w)))"

text \<open>Making a named node live: the last part of \<^verbatim>\<open>create_sg_char\<close>, with its error exits.\<close>

definition go_live ::
  "u64 \<Rightarrow> xdma_char \<Rightarrow> xdma_dev \<Rightarrow> xdma_engine option \<Rightarrow> chardev_type \<Rightarrow> xdma_drv \<Rightarrow> world \<Rightarrow> (u64 \<times> xdma_drv \<times> world) option" where
  "go_live p c lro eo type drv w = do {
     let devno = cdevno c;
     let (rc, w) = call_int (C_cdev ''cdev_add'' (ucast devno)) w;
     if rc < 0 then Some (0, drv, kfree_char p (unregister_chrdev_region devno w))
     else do {
       (rc, c, w) \<leftarrow> (if xdma_class drv \<noteq> 0 then create_dev c lro eo type w else Some (0, c, w));
       if rc < 0 then
         Some (0, drv, kfree_char p (unregister_chrdev_region devno (call_void (C_cdev ''cdev_del'' (ucast devno)) w)))
       else Some (p, drv\<lparr>chars := (chars drv)(p \<mapsto> c)\<rparr>, w) } }"

text \<open>From the minor number to the registered region.\<close>

definition register_node ::
  "u64 \<Rightarrow> xdma_dev \<Rightarrow> int \<Rightarrow> xdma_engine option \<Rightarrow> chardev_type \<Rightarrow> xdma_drv \<Rightarrow> world \<Rightarrow> (u64 \<times> xdma_drv \<times> world) option" where
  "register_node p lro b eo type drv w = do {
     minor \<leftarrow> gen_dev_minor eo type b;
     let devno = MKDEV (major lro) minor;
     let w = call_void (C_misc ''cdev_init'' (chardev_val type)) w;
     let c = \<lparr>cmagic = MAGIC_CHAR, has_lro = True, cdevno = devno, cbar = b,
              cengine = map_option (\<lambda>e. (channel e, number_in_channel e)) eo,
              cuser_irq = (if type = CHAR_EVENTS then Some (nat b) else None), sys_device = 0\<rparr>;
     (rc, w) \<leftarrow> config_kobject c lro eo type w;
     if rc \<noteq> 0 then Some (0, drv, kfree_char p w)
     else do {
       let (rc, w) = (if drv_major drv \<noteq> 0 then call_int (C_cdev ''register_chrdev_region'' (ucast devno)) w else (0, w));
       if rc < 0 then Some (0, drv, kfree_char p w)
       else go_live p c lro eo type drv w } }"

definition create_sg_char ::
  "xdma_dev \<Rightarrow> int \<Rightarrow> xdma_engine option \<Rightarrow> chardev_type \<Rightarrow> xdma_drv \<Rightarrow> world \<Rightarrow> (u64 \<times> xdma_dev \<times> xdma_drv \<times> world) option" where
  "create_sg_char lro b eo type drv w = do {
     let (p, w) = call_ptr (C_kzalloc ''xdma_char'') w;
     if p = 0 then Some (0, lro, drv, w)
     else do {
       r \<leftarrow> new_instance lro drv w;
       (case r of
          None \<Rightarrow> Some (0, lro, drv, kfree_char p w)
        | Some (lro, drv, w) \<Rightarrow> do {
            (q, drv, w) \<leftarrow> register_node p lro b eo type drv w;
            Some (q, lro, drv, w) }) } }"

section \<open>The module\<close>

text \<open>The driver's globals at load time; \<^verbatim>\<open>class_create\<close> reports an error by an \<^verbatim>\<open>ERR_PTR\<close>, one of the last 4095 addresses.
  \<open>probes\<close> is what the probes of the devices already present do inside \<^verbatim>\<open>pci_register_driver\<close>.\<close>

definition IS_ERR :: "u64 \<Rightarrow> bool" where "IS_ERR p \<longleftrightarrow> p \<ge> - 4095"

definition xdma_init :: "(xdma_drv \<times> world \<Rightarrow> xdma_drv \<times> world) \<Rightarrow> xdma_drv \<Rightarrow> world \<Rightarrow> int \<times> xdma_drv \<times> world" where
  "xdma_init probes drv w =
    (let (p, w) = call_ptr (C_misc ''class_create'' 0) w;
         drv = drv\<lparr>xdma_class := p\<rparr> in
     if IS_ERR p then (-1, drv, w)
     else let (rc, w) = call_int (C_pci ''pci_register_driver'') w;
              (drv, w) = probes (drv, w)
          in (rc, drv\<lparr>dev_present := replicate MAX_XDMA_DEVICES False\<rparr>, w))"

definition xdma_exit :: "xdma_drv \<Rightarrow> world \<Rightarrow> world" where
  "xdma_exit drv w =
    (let w = call_void (C_pci ''pci_unregister_driver'') w in
     if xdma_class drv \<noteq> 0 then call_void (C_misc ''class_destroy'' 0) w else w)"

section \<open>Every node has its own minor number\<close>

text \<open>
  The nodes \<^verbatim>\<open>create_interfaces\<close> makes: an engine node of either kind goes with an engine of its direction, an event
  node with one of the sixteen events.
\<close>

definition node_ok :: "chardev_type \<Rightarrow> xdma_engine option \<Rightarrow> int \<Rightarrow> bool" where
  "node_ok type eo nr \<longleftrightarrow>
    (type \<in> {CHAR_XDMA_H2C, CHAR_BYPASS_H2C} \<longrightarrow> (\<exists>e. eo = Some e \<and> number_in_channel e = 0 \<and> channel e < XDMA_CHANNEL_NUM_MAX)) \<and>
    (type \<in> {CHAR_XDMA_C2H, CHAR_BYPASS_C2H} \<longrightarrow> (\<exists>e. eo = Some e \<and> number_in_channel e = 1 \<and> channel e < XDMA_CHANNEL_NUM_MAX)) \<and>
    (type = CHAR_EVENTS \<longrightarrow> 0 \<le> nr \<and> nr < int MAX_USER_IRQ)"

text \<open>What distinguishes two nodes of a device: the kind, and the channel or the event number.\<close>

definition node_key :: "chardev_type \<Rightarrow> xdma_engine option \<Rightarrow> int \<Rightarrow> chardev_type \<times> int" where
  "node_key type eo nr = (type, if type = CHAR_EVENTS then nr
     else if type \<in> {CHAR_USER, CHAR_CTRL, CHAR_BYPASS} then 0 else case eo of Some e \<Rightarrow> int (channel e) | None \<Rightarrow> 0)"

text \<open>
  Every node of a device gets a minor number below the count the driver reserves, and two nodes
  with the same minor number are the same node.
\<close>

theorem gen_dev_minor_unique:
  assumes "node_ok t eo nr" and "node_ok t' eo' nr'"
  shows "\<exists>m m'. gen_dev_minor eo t nr = Some m \<and> gen_dev_minor eo' t' nr' = Some m' \<and>
    0 \<le> m \<and> m < int XDMA_MINOR_COUNT \<and> (m = m' \<longleftrightarrow> node_key t eo nr = node_key t' eo' nr')"
  using assms
  by (cases t; cases t') (auto simp: node_ok_def node_key_def gen_dev_minor_def const_defs)

theorem gen_dev_minor_unique_witness:
  "\<exists>m m'. gen_dev_minor None CHAR_EVENTS 3 = Some m \<and> gen_dev_minor (Some (zero_engine\<lparr>number_in_channel := 1\<rparr>)) CHAR_XDMA_C2H 0 = Some m' \<and>
    0 \<le> m \<and> m < int XDMA_MINOR_COUNT \<and>
    (m = m' \<longleftrightarrow> node_key CHAR_EVENTS None 3 = node_key CHAR_XDMA_C2H (Some (zero_engine\<lparr>number_in_channel := 1\<rparr>)) 0)"
  by (rule gen_dev_minor_unique) (auto simp: node_ok_def const_defs zero_engine_def)

section \<open>Creating and removing a node are inverse\<close>

text \<open>The character devices that went live and those that were deleted again.\<close>

fun cdev_got :: "io \<Rightarrow> u64 multiset" where
  "cdev_got (KI (C_cdev f d) r) = (if f = ''cdev_add'' \<and> r \<ge> 0 then {#d#} else {#})"
| "cdev_got _ = {#}"

fun cdev_freed :: "io \<Rightarrow> u64 multiset" where
  "cdev_freed (KV (C_cdev f d)) = (if f = ''cdev_del'' then {#d#} else {#})"
| "cdev_freed _ = {#}"

fun mem_got :: "io \<Rightarrow> u64 multiset" where
  "mem_got (KP (C_kzalloc _) p) = (if p = 0 then {#} else {#p#})"
| "mem_got _ = {#}"

fun mem_freed :: "io \<Rightarrow> u64 multiset" where
  "mem_freed (KV (C_kfree p)) = {#p#}"
| "mem_freed _ = {#}"

text \<open>A stretch of the history in which no node changed hands and nothing was freed.\<close>

definition neutral :: "io list \<Rightarrow> bool" where
  "neutral l \<longleftrightarrow> tally cdev_got l = {#} \<and> tally cdev_freed l = {#} \<and> tally mem_got l = {#} \<and> tally mem_freed l = {#}"

lemma config_kobject_neutral:
  assumes "config_kobject c lro eo type w = Some (rc, w')"
  shows "\<exists>l. io w' = io w @ l \<and> neutral l"
proof -
  from assms obtain n where "call_int (C_node ''kobject_set_name'' (devnode_names type) (instance_nr lro) n) w = (rc, w')"
    unfolding config_kobject_def by (auto simp: bind_eq_Some_conv)
  then show ?thesis by (auto simp: call_int_def Let_def neutral_def)
qed

lemma create_dev_neutral:
  assumes "create_dev c lro eo type w = Some (rc, c', w')"
  shows "\<exists>l p. io w' = io w @ l \<and> neutral l \<and> c' = c\<lparr>sys_device := p\<rparr> \<and> (\<not> rc < 0 \<longrightarrow> p \<noteq> 0)"
  using assms unfolding create_dev_def by (auto simp: call_ptr_def Let_def neutral_def split: if_splits)

lemma go_live_cases:
  assumes "go_live p c lro eo type drv w = Some (q, drv', w')" and "p \<noteq> 0"
  shows "\<exists>l. io w' = io w @ l \<and>
    (if q = 0 then chars drv' = chars drv \<and> tally cdev_got l = tally cdev_freed l \<and> tally mem_freed l = {#p#}
     else q = p \<and> (\<exists>s. chars drv' = (chars drv)(p \<mapsto> c\<lparr>sys_device := s\<rparr>) \<and> (xdma_class drv \<noteq> 0 \<longrightarrow> s \<noteq> 0) \<and>
       tally cdev_got l = tally cdev_freed l + {#ucast (cdevno c)#} \<and> tally mem_freed l = {#})) \<and>
    tally mem_got l = {#} \<and> xdma_class drv' = xdma_class drv"
proof -
  define rc where "rc = fst (call_int (C_cdev ''cdev_add'' (ucast (cdevno c))) w)"
  let ?e = "KI (C_cdev ''cdev_add'' (ucast (cdevno c))) rc"
  have add: "call_int (C_cdev ''cdev_add'' (ucast (cdevno c))) w = (rc, emit ?e w)"
    by (simp add: rc_def call_int_def Let_def)
  show ?thesis
  proof (cases "rc < 0")
    case True
    with assms add show ?thesis
      by (auto simp: go_live_def kfree_char_def unregister_chrdev_region_def call_void_def Let_def)
  next
    case False
    with assms(1) add obtain rc2 c2 w2 where d: "(if xdma_class drv \<noteq> 0 then create_dev c lro eo type (emit ?e w)
        else Some (0, c, emit ?e w)) = Some (rc2, c2, w2)"
      by (auto simp: go_live_def bind_eq_Some_conv Let_def)
    have "\<exists>l s. io w2 = io w @ ?e # l \<and> neutral l \<and> c2 = c\<lparr>sys_device := s\<rparr> \<and> (\<not> rc2 < 0 \<and> xdma_class drv \<noteq> 0 \<longrightarrow> s \<noteq> 0)"
    proof (cases "xdma_class drv = 0")
      case True
      with d show ?thesis by (auto simp: neutral_def intro!: exI[of _ "[]"] exI[of _ "sys_device c"])
    next
      case nz: False
      with d create_dev_neutral[of c lro eo type "emit ?e w" rc2 c2 w2] show ?thesis by auto
    qed
    then obtain l s where l: "io w2 = io w @ ?e # l" "neutral l" "c2 = c\<lparr>sys_device := s\<rparr>"
      "\<not> rc2 < 0 \<and> xdma_class drv \<noteq> 0 \<longrightarrow> s \<noteq> 0" by blast
    have run: "go_live p c lro eo type drv w = (if rc2 < 0
        then Some (0, drv, kfree_char p (unregister_chrdev_region (cdevno c) (call_void (C_cdev ''cdev_del'' (ucast (cdevno c))) w2)))
        else Some (p, drv\<lparr>chars := (chars drv)(p \<mapsto> c2)\<rparr>, w2))"
      unfolding go_live_def add Let_def prod.case d if_not_P[OF False] by simp
    show ?thesis
    proof (cases "rc2 < 0")
      case True
      with assms run l False show ?thesis
        by (auto simp: kfree_char_def unregister_chrdev_region_def call_void_def neutral_def)
    next
      case nf: False
      with assms run have "q = p" "drv' = drv\<lparr>chars := (chars drv)(p \<mapsto> c2)\<rparr>" "w' = w2" by auto
      with assms(2) l False nf show ?thesis
        by (intro exI[of _ "?e # l"]) (auto simp: neutral_def)
    qed
  qed
qed

lemma neutral_append: "neutral l \<Longrightarrow> neutral l' \<Longrightarrow> neutral (l @ l')"
  by (simp add: neutral_def)

lemma register_node_cases:
  assumes "register_node p lro b eo type drv w = Some (q, drv', w')" and "p \<noteq> 0"
  shows "\<exists>l. io w' = io w @ l \<and>
    (if q = 0 then chars drv' = chars drv \<and> tally cdev_got l = tally cdev_freed l \<and> tally mem_freed l = {#p#}
     else q = p \<and> (\<exists>c. chars drv' = (chars drv)(p \<mapsto> c) \<and> cmagic c = MAGIC_CHAR \<and> has_lro c \<and> (xdma_class drv \<noteq> 0 \<longrightarrow> sys_device c \<noteq> 0) \<and>
       tally cdev_got l = tally cdev_freed l + {#ucast (cdevno c)#} \<and> tally mem_freed l = {#})) \<and>
    tally mem_got l = {#} \<and> xdma_class drv' = xdma_class drv"
proof -
  from assms(1) obtain minor where m: "gen_dev_minor eo type b = Some minor"
    by (auto simp: register_node_def bind_eq_Some_conv)
  define devno where "devno = MKDEV (major lro) minor"
  define c where "c = \<lparr>cmagic = MAGIC_CHAR, has_lro = True, cdevno = devno, cbar = b,
      cengine = map_option (\<lambda>e. (channel e, number_in_channel e)) eo,
      cuser_irq = (if type = CHAR_EVENTS then Some (nat b) else None), sys_device = 0\<rparr>"
  define w1 where "w1 = call_void (C_misc ''cdev_init'' (chardev_val type)) w"
  have w1: "io w1 = io w @ [KV (C_misc ''cdev_init'' (chardev_val type))]" by (simp add: w1_def call_void_def)
  from assms(1) m obtain rc w2 where k: "config_kobject c lro eo type w1 = Some (rc, w2)"
    by (auto simp: register_node_def bind_eq_Some_conv Let_def c_def devno_def w1_def)
  from config_kobject_neutral[OF k] w1 obtain l1 where l1: "io w2 = io w @ l1" "neutral l1"
    by (auto simp: neutral_def)
  define rg where "rg = (if drv_major drv \<noteq> 0 then call_int (C_cdev ''register_chrdev_region'' (ucast devno)) w2 else (0, w2))"
  have "\<exists>l. io (snd rg) = io w @ l \<and> neutral l"
    using l1 by (auto simp: rg_def call_int_def Let_def neutral_def)
  then obtain l2 where l2: "io (snd rg) = io w @ l2" "neutral l2" by blast
  have run: "register_node p lro b eo type drv w =
      (if rc \<noteq> 0 then Some (0, drv, kfree_char p w2) else if fst rg < 0 then Some (0, drv, kfree_char p (snd rg))
       else go_live p c lro eo type drv (snd rg))"
    using m k unfolding rg_def c_def devno_def w1_def register_node_def by (simp add: Let_def split_def)
  show ?thesis
  proof (cases "rc \<noteq> 0 \<or> fst rg < 0")
    case True
    with assms(1) run l1 l2 show ?thesis
      by (auto simp: kfree_char_def call_void_def neutral_def split: if_splits)
  next
    case False
    with assms(1) run have "go_live p c lro eo type drv (snd rg) = Some (q, drv', w')" by simp
    from go_live_cases[OF this assms(2)] obtain l where g: "io w' = io (snd rg) @ l"
      "if q = 0 then chars drv' = chars drv \<and> tally cdev_got l = tally cdev_freed l \<and> tally mem_freed l = {#p#}
       else q = p \<and> (\<exists>s. chars drv' = (chars drv)(p \<mapsto> c\<lparr>sys_device := s\<rparr>) \<and> (xdma_class drv \<noteq> 0 \<longrightarrow> s \<noteq> 0) \<and>
         tally cdev_got l = tally cdev_freed l + {#ucast (cdevno c)#} \<and> tally mem_freed l = {#})"
      "tally mem_got l = {#}" "xdma_class drv' = xdma_class drv" by blast
    have c: "cmagic c = MAGIC_CHAR" "has_lro c" by (simp_all add: c_def)
    show ?thesis
    proof (intro exI[of _ "l2 @ l"] conjI)
      show "if q = 0 then chars drv' = chars drv \<and> tally cdev_got (l2 @ l) = tally cdev_freed (l2 @ l) \<and> tally mem_freed (l2 @ l) = {#p#}
        else q = p \<and> (\<exists>c. chars drv' = (chars drv)(p \<mapsto> c) \<and> cmagic c = MAGIC_CHAR \<and> has_lro c \<and> (xdma_class drv \<noteq> 0 \<longrightarrow> sys_device c \<noteq> 0) \<and>
          tally cdev_got (l2 @ l) = tally cdev_freed (l2 @ l) + {#ucast (cdevno c)#} \<and> tally mem_freed (l2 @ l) = {#})"
      proof (cases "q = 0")
        case nz: False
        with g(2) obtain s where "q = p" "chars drv' = (chars drv)(p \<mapsto> c\<lparr>sys_device := s\<rparr>)" "xdma_class drv \<noteq> 0 \<longrightarrow> s \<noteq> 0"
          "tally cdev_got l = tally cdev_freed l + {#ucast (cdevno c)#}" "tally mem_freed l = {#}" by auto
        with c l2(2) nz show ?thesis unfolding neutral_def by (auto intro!: exI[of _ "c\<lparr>sys_device := s\<rparr>"])
      qed (use g(2) l2(2) in \<open>simp add: neutral_def\<close>)
    qed (use g l2 in \<open>auto simp: neutral_def\<close>)
  qed
qed

lemma go_live_kptr: "go_live p c lro eo type drv w = Some (q, drv', w') \<Longrightarrow> kptr w' = kptr w"
  by (auto simp: go_live_def create_dev_def kfree_char_def unregister_chrdev_region_def call_void_def call_int_def call_ptr_def
      Let_def bind_eq_Some_conv split: if_splits)

lemma register_node_kptr:
  assumes "register_node p lro b eo type drv w = Some (q, drv', w')"
  shows "kptr w' = kptr w"
proof -
  from assms obtain minor where m: "gen_dev_minor eo type b = Some minor"
    by (auto simp: register_node_def bind_eq_Some_conv)
  define c where "c = \<lparr>cmagic = MAGIC_CHAR, has_lro = True, cdevno = MKDEV (major lro) minor, cbar = b,
      cengine = map_option (\<lambda>e. (channel e, number_in_channel e)) eo,
      cuser_irq = (if type = CHAR_EVENTS then Some (nat b) else None), sys_device = 0\<rparr>"
  define w1 where "w1 = call_void (C_misc ''cdev_init'' (chardev_val type)) w"
  from assms m obtain rc w2 where k: "config_kobject c lro eo type w1 = Some (rc, w2)"
    by (auto simp: register_node_def bind_eq_Some_conv Let_def c_def w1_def)
  have k2: "kptr w2 = kptr w"
    using k by (auto simp: config_kobject_def w1_def call_void_def call_int_def Let_def bind_eq_Some_conv)
  define rg where "rg = (if drv_major drv \<noteq> 0 then call_int (C_cdev ''register_chrdev_region'' (ucast (cdevno c))) w2 else (0, w2))"
  have k3: "kptr (snd rg) = kptr w" using k2 by (simp add: rg_def call_int_def Let_def)
  have run: "register_node p lro b eo type drv w =
      (if rc \<noteq> 0 then Some (0, drv, kfree_char p w2) else if fst rg < 0 then Some (0, drv, kfree_char p (snd rg))
       else go_live p c lro eo type drv (snd rg))"
    using m k unfolding rg_def c_def w1_def register_node_def by (simp add: Let_def split_def)
  show ?thesis
    using assms k2 k3 go_live_kptr[of p c lro eo type drv "snd rg" q drv' w'] unfolding run
    by (auto simp: kfree_char_def call_void_def split: if_splits)
qed

lemma new_instance_frame:
  assumes "new_instance lro drv w = Some (Some (lro', drv', w'))"
  shows "\<exists>l i m. io w' = io w @ l \<and> neutral l \<and> chars drv' = chars drv \<and> xdma_class drv' = xdma_class drv \<and>
    kptr w' = kptr w \<and> lro' = lro\<lparr>instance_nr := i, major := m\<rparr>"
proof (cases "major lro = 0")
  case True
  with assms show ?thesis
    by (fastforce simp: new_instance_def gen_dev_major_def call_int_def Let_def bind_eq_Some_conv neutral_def split: if_splits)
next
  case False
  with assms have eq: "lro' = lro" "drv' = drv" "w' = w" by (auto simp: new_instance_def)
  show ?thesis
    unfolding eq by (rule exI[of _ "[]"], rule exI[of _ "instance_nr lro"], rule exI[of _ "major lro"]) (simp add: neutral_def)
qed

lemma destroy_sg_char_run:
  assumes "chars drv p = Some c" and "cmagic c = MAGIC_CHAR" and "has_lro c" and "xdma_class drv \<noteq> 0" and "sys_device c \<noteq> 0"
  shows "\<exists>w' l. destroy_sg_char p (drv, w) = Some (drv\<lparr>chars := (chars drv)(p := None)\<rparr>, w') \<and> io w' = io w @ l \<and>
    tally cdev_got l = {#} \<and> tally cdev_freed l = {#ucast (cdevno c)#} \<and> tally mem_got l = {#} \<and> tally mem_freed l = {#p#}"
  using assms by (simp add: destroy_sg_char_def unregister_chrdev_region_def kfree_char_def call_void_def Let_def)

text \<open>Every node that went live was deleted again and every block of memory freed.\<close>

definition settled :: "io list \<Rightarrow> bool" where
  "settled l \<longleftrightarrow> tally cdev_got l = tally cdev_freed l \<and> tally mem_got l = tally mem_freed l"

lemma create_sg_char_cases:
  assumes "create_sg_char lro b eo type drv w = Some (q, lro', drv', w')" and "xdma_class drv \<noteq> 0"
  shows "\<exists>l i m. io w' = io w @ l \<and> xdma_class drv' = xdma_class drv \<and> kptr w' = kptr w \<and>
    lro' = lro\<lparr>instance_nr := i, major := m\<rparr> \<and>
    (if q = 0 then chars drv' = chars drv \<and> settled l
     else q = kptr w (io w) (C_kzalloc ''xdma_char'') \<and> (\<exists>c. chars drv' = (chars drv)(q \<mapsto> c) \<and> cmagic c = MAGIC_CHAR \<and> has_lro c \<and>
       sys_device c \<noteq> 0 \<and> tally cdev_got l = tally cdev_freed l + {#ucast (cdevno c)#} \<and> tally mem_got l = tally mem_freed l + {#q#}))"
proof -
  define p where "p = kptr w (io w) (C_kzalloc ''xdma_char'')"
  let ?e = "KP (C_kzalloc ''xdma_char'') p"
  have k: "call_ptr (C_kzalloc ''xdma_char'') w = (p, emit ?e w)" by (simp add: p_def call_ptr_def Let_def)
  have same: "\<exists>i m. lro = lro\<lparr>instance_nr := i, major := m\<rparr>" by (rule exI[of _ "instance_nr lro"], rule exI[of _ "major lro"]) simp
  consider "p = 0" | "p \<noteq> 0" "new_instance lro drv (emit ?e w) = Some None"
    | lro1 drv1 w1 where "p \<noteq> 0" "new_instance lro drv (emit ?e w) = Some (Some (lro1, drv1, w1))"
    using assms(1) k by (cases "new_instance lro drv (emit ?e w)") (auto simp: create_sg_char_def split: option.splits if_splits)
  then show ?thesis
  proof cases
    case 1
    with assms(1) k same show ?thesis by (auto simp: create_sg_char_def settled_def)
  next
    case 2
    with assms(1) k same show ?thesis by (auto simp: create_sg_char_def settled_def kfree_char_def call_void_def)
  next
    case 3
    from new_instance_frame[OF 3(2)] obtain l1 i m where
      l1: "io w1 = io w @ ?e # l1" "neutral l1" "chars drv1 = chars drv" "xdma_class drv1 = xdma_class drv" "kptr w1 = kptr w"
        "lro1 = lro\<lparr>instance_nr := i, major := m\<rparr>" by auto
    from assms(1) k 3 have reg: "register_node p lro1 b eo type drv1 w1 = Some (q, drv', w')" and lro': "lro' = lro1"
      by (auto simp: create_sg_char_def bind_eq_Some_conv)
    note kp = register_node_kptr[OF reg]
    from register_node_cases[OF reg 3(1)] obtain l2 where l2: "io w' = io w1 @ l2" "tally mem_got l2 = {#}"
      "xdma_class drv' = xdma_class drv1" and q: "if q = 0 then chars drv' = chars drv1 \<and> tally cdev_got l2 = tally cdev_freed l2 \<and> tally mem_freed l2 = {#p#}
       else q = p \<and> (\<exists>c. chars drv' = (chars drv1)(p \<mapsto> c) \<and> cmagic c = MAGIC_CHAR \<and> has_lro c \<and> (xdma_class drv1 \<noteq> 0 \<longrightarrow> sys_device c \<noteq> 0) \<and>
         tally cdev_got l2 = tally cdev_freed l2 + {#ucast (cdevno c)#} \<and> tally mem_freed l2 = {#})" by blast
    have io: "io w' = io w @ (?e # l1 @ l2)" using l1 l2 by simp
    have body: "if q = 0 then chars drv' = chars drv \<and> settled (?e # l1 @ l2)
     else q = p \<and> (\<exists>c. chars drv' = (chars drv)(q \<mapsto> c) \<and> cmagic c = MAGIC_CHAR \<and> has_lro c \<and>
       sys_device c \<noteq> 0 \<and> tally cdev_got (?e # l1 @ l2) = tally cdev_freed (?e # l1 @ l2) + {#ucast (cdevno c)#} \<and>
       tally mem_got (?e # l1 @ l2) = tally mem_freed (?e # l1 @ l2) + {#q#})"
      using q l1(2-4) l2(2) 3(1) assms(2) by (auto simp: settled_def neutral_def split: if_splits)
    have "xdma_class drv' = xdma_class drv" "kptr w' = kptr w" "lro' = lro\<lparr>instance_nr := i, major := m\<rparr>"
      using l1 l2 kp lro' by simp_all
    with io body show ?thesis unfolding p_def[symmetric] by blast
  qed
qed

text \<open>
  Creating a node that fails leaves nothing behind: no live character device, no memory, no
  entry among the driver's nodes. Creating one that succeeds makes it live, and removing it
  deletes exactly that node and frees its memory.
\<close>

theorem create_sg_char_all_or_nothing:
  assumes "create_sg_char lro b eo type drv w = Some (q, lro', drv', w')" and "xdma_class drv \<noteq> 0"
  shows "\<exists>l. io w' = io w @ l \<and>
    (if q = 0 then chars drv' = chars drv \<and> settled l
     else \<exists>drv'' w'' l'. destroy_sg_char q (drv', w') = Some (drv'', w'') \<and> io w'' = io w' @ l' \<and>
       chars drv'' = (chars drv)(q := None) \<and> \<not> settled l \<and> settled (l @ l'))"
proof -
  from create_sg_char_cases[OF assms] obtain l where l: "io w' = io w @ l" "xdma_class drv' = xdma_class drv" and
    q: "if q = 0 then chars drv' = chars drv \<and> settled l
     else (\<exists>c. chars drv' = (chars drv)(q \<mapsto> c) \<and> cmagic c = MAGIC_CHAR \<and> has_lro c \<and> sys_device c \<noteq> 0 \<and>
       tally cdev_got l = tally cdev_freed l + {#ucast (cdevno c)#} \<and> tally mem_got l = tally mem_freed l + {#q#})" by metis
  show ?thesis
  proof (cases "q = 0")
    case True
    with l q show ?thesis by auto
  next
    case False
    with q obtain c where c: "chars drv' = (chars drv)(q \<mapsto> c)" "cmagic c = MAGIC_CHAR" "has_lro c" "sys_device c \<noteq> 0"
      "tally cdev_got l = tally cdev_freed l + {#ucast (cdevno c)#}" "tally mem_got l = tally mem_freed l + {#q#}" by auto
    have "chars drv' q = Some c" "xdma_class drv' \<noteq> 0" using c(1) l(2) assms(2) by simp_all
    from destroy_sg_char_run[OF this(1) c(2,3) this(2) c(4), of w'] obtain w'' l' where
      d: "destroy_sg_char q (drv', w') = Some (drv'\<lparr>chars := (chars drv')(q := None)\<rparr>, w'')" "io w'' = io w' @ l'"
      "tally cdev_got l' = {#}" "tally cdev_freed l' = {#ucast (cdevno c)#}" "tally mem_got l' = {#}" "tally mem_freed l' = {#q#}" by blast
    have "\<not> settled l" "settled (l @ l')" using c(5,6) d(3-6) by (auto simp: settled_def)
    with l(1) d(1,2) c(1) False show ?thesis by (intro exI[of _ l]) auto
  qed
qed

definition demo_drv :: xdma_drv where
  "demo_drv = \<lparr>drv_major = 0, dev_present = replicate MAX_XDMA_DEVICES False, xdma_class = 0x100, chars = (\<lambda>_. None)\<rparr>"

lemma demo_create:
  "\<exists>q lro' drv' w'. create_sg_char zero_dev 0 None CHAR_CTRL demo_drv quiet_world = Some (q, lro', drv', w')"
proof -
  have "dev_slot (replicate 64 False) 0 = Some 0" by (subst dev_slot.simps) simp
  then show ?thesis
    by (simp add: create_sg_char_def new_instance_def register_node_def go_live_def config_kobject_def create_dev_def
        gen_dev_minor_def gen_dev_major_def demo_drv_def zero_dev_def call_ptr_def call_int_def call_void_def Let_def split_def MAX_XDMA_DEVICES_def)
qed

theorem create_sg_char_all_or_nothing_witness:
  "\<exists>q lro' drv' w' l. create_sg_char zero_dev 0 None CHAR_CTRL demo_drv quiet_world = Some (q, lro', drv', w') \<and> io w' = l \<and>
    (if q = 0 then chars drv' = chars demo_drv \<and> settled l
     else \<exists>drv'' w'' l'. destroy_sg_char q (drv', w') = Some (drv'', w'') \<and> io w'' = io w' @ l' \<and>
       chars drv'' = (chars demo_drv)(q := None) \<and> \<not> settled l \<and> settled (l @ l'))"
proof -
  obtain q lro' drv' w' where c: "create_sg_char zero_dev 0 None CHAR_CTRL demo_drv quiet_world = Some (q, lro', drv', w')"
    using demo_create by blast
  have "xdma_class demo_drv \<noteq> 0" by (simp add: demo_drv_def)
  from create_sg_char_all_or_nothing[OF c this] c show ?thesis by auto
qed

section \<open>Mapping a BAR\<close>

text \<open>
  C27. A mapping whose offset lies inside the BAR is refused exactly when it would reach past its end;
  otherwise it covers the frames from the offset on, all of them inside the BAR.
\<close>

theorem bridge_mmap_inside:
  assumes "char_check c lro = Some ()" and "0 \<le> cbar c" and "res_len dev (nat (cbar c)) = len" and "len \<noteq> 0"
    and "off = push_bit PAGE_SHIFT (vm_pgoff vma)" and "off \<le> len" and "vm_start vma \<le> vm_end vma"
  shows "\<exists>rc vma' w'. bridge_mmap dev c lro vma w = Some (rc, vma', w') \<and>
    (if unat off + unat (vm_end vma - vm_start vma) \<le> unat len
     then (\<exists>r. io w' = io w @ [KI (C_remap_pfn (drop_bit PAGE_SHIFT (res_start dev (nat (cbar c)) + off)) (vm_end vma - vm_start vma)) r] \<and>
            (rc = 0 \<longleftrightarrow> r = 0) \<and> vm_flags vma' = vm_flags vma OR VMEM_FLAGS)
     else rc = - EINVAL \<and> vma' = vma \<and> w' = w)"
proof -
  let ?s = "vm_end vma - vm_start vma"
  have "?s > len - off \<longleftrightarrow> \<not> unat off + unat ?s \<le> unat len"
    using assms(6) by (simp add: word_less_nat_alt unat_sub word_le_nat_alt) linarith
  then show ?thesis
    using assms by (auto simp: bridge_mmap_def res_end_def Let_def call_int_def split_def)
qed

definition demo_char :: xdma_char where
  "demo_char = \<lparr>cmagic = MAGIC_CHAR, has_lro = True, cdevno = 0, cbar = 0, cengine = None, cuser_irq = Some 2, sys_device = 0x100\<rparr>"

definition demo_vma :: vm_area where
  "demo_vma = \<lparr>vm_start = 0x7000, vm_end = 0x9000, vm_pgoff = 1, vm_flags = 0, vm_ops = []\<rparr>"

theorem bridge_mmap_inside_witness:
  "\<exists>rc vma' w'. bridge_mmap demo_pci demo_char (zero_dev\<lparr>dev_magic := MAGIC_DEVICE\<rparr>) demo_vma quiet_world = Some (rc, vma', w') \<and>
    (\<exists>r. io w' = [KI (C_remap_pfn 0xf0001 0x2000) r] \<and> (rc = 0 \<longleftrightarrow> r = 0) \<and> vm_flags vma' = VMEM_FLAGS)"
proof -
  have "char_check demo_char (zero_dev\<lparr>dev_magic := MAGIC_DEVICE\<rparr>) = Some ()" "0 \<le> cbar demo_char"
    "res_len demo_pci (nat (cbar demo_char)) = 0x10000" "(0x10000 :: u64) \<noteq> 0"
    "0x1000 = push_bit PAGE_SHIFT (vm_pgoff demo_vma)" "(0x1000 :: u64) \<le> 0x10000" "vm_start demo_vma \<le> vm_end demo_vma"
    by (simp_all add: char_check_def demo_char_def demo_pci_def demo_vma_def zero_dev_def PAGE_SHIFT_def)
  from bridge_mmap_inside[OF this, of quiet_world] show ?thesis
    by (simp add: demo_vma_def demo_pci_def demo_char_def PAGE_SHIFT_def)
qed

text \<open>An offset past the end of the BAR is not refused: the size that is left wraps around.\<close>

lemma bridge_mmap_past_end:
  assumes "char_check c lro = Some ()" and "res_len dev (nat (cbar c)) = 0x1000" and "vm_pgoff vma = 2"
    and "vm_end vma = vm_start vma + 0x1000"
  shows "\<exists>vma' w'. bridge_mmap dev c lro vma w = Some (if kint w (io w) (C_remap_pfn (drop_bit PAGE_SHIFT (res_start dev (nat (cbar c)) + 0x2000)) 0x1000) \<noteq> 0
    then - EAGAIN else 0, vma', w')"
  using assms by (simp add: bridge_mmap_def res_end_def Let_def call_int_def split_def PAGE_SHIFT_def)

section \<open>Events are reported exactly once\<close>

text \<open>
  The specification counts, for every event line, the interrupts since it was last read, and the
  reports made. A reader of a line without a pending interrupt waits, so that step is not allowed.
\<close>

datatype event_op = Raise nat | Take nat

fun event_spec :: "event_op \<Rightarrow> (nat \<Rightarrow> nat) \<times> nat \<Rightarrow> ((nat \<Rightarrow> nat) \<times> nat) option" where
  "event_spec (Raise i) (pend, n) = (if i < MAX_USER_IRQ then Some (pend(i := Suc (pend i)), n) else None)"
| "event_spec (Take i) (pend, n) = (if i < MAX_USER_IRQ \<and> 0 < pend i then Some (pend(i := 0), Suc n) else None)"

text \<open>The code's operations: the interrupt handler of a line, and a read of four bytes on its node.\<close>

definition event_char :: "nat \<Rightarrow> xdma_char" where
  "event_char i = \<lparr>cmagic = MAGIC_CHAR, has_lro = True, cdevno = 0, cbar = int i, cengine = None, cuser_irq = Some i, sys_device = 1\<rparr>"

fun event_step :: "(xdma_dev \<times> world \<Rightarrow> xdma_dev \<times> world) \<Rightarrow> u64 \<Rightarrow> event_op \<Rightarrow> xdma_dev \<times> world \<Rightarrow> (xdma_dev \<times> world) option" where
  "event_step sleep buf (Raise i) (lro, w) = xdma_user_irq i lro w"
| "event_step sleep buf (Take i) (lro, w) = do {
     (rc, lro, w) \<leftarrow> char_events_read sleep (event_char i) buf 4 0 lro w;
     if rc = 4 then Some (lro, w) else None }"

fun report_of :: "io \<Rightarrow> u32 list list" where
  "report_of (KI (C_copy_to_user _ ws) _) = [ws]"
| "report_of _ = []"

definition reports :: "io list \<Rightarrow> u32 list list" where
  "reports l = concat (map report_of l)"

lemma reports_simps [simp]: "reports [] = []" "reports (l @ l') = reports l @ reports l'" "reports [x] = report_of x"
  by (simp_all add: reports_def)

definition event_rel :: "io list \<Rightarrow> xdma_dev \<times> world \<Rightarrow> (nat \<Rightarrow> nat) \<times> nat \<Rightarrow> bool" where
  "event_rel l0 s a \<longleftrightarrow> (case (s, a) of ((lro, w), (pend, n)) \<Rightarrow>
     length (user_irq lro) = MAX_USER_IRQ \<and> (\<forall>i < MAX_USER_IRQ. user_irq lro ! i \<longleftrightarrow> 0 < pend i) \<and>
     (\<exists>l. io w = l0 @ l \<and> reports l = replicate n [1]))"

interpretation ev: simulation "event_step sleep buf" event_spec "event_rel l0" for sleep buf l0
proof
  fix s a x a' assume R: "event_rel l0 s a" and x: "event_spec x a = Some a'"
  obtain lro w pend n where sa: "s = (lro, w)" "a = (pend, n)" by (cases s; cases a)
  from R sa obtain l where irq: "length (user_irq lro) = MAX_USER_IRQ" "\<And>i. i < MAX_USER_IRQ \<Longrightarrow> user_irq lro ! i \<longleftrightarrow> 0 < pend i"
    and l: "io w = l0 @ l" "reports l = replicate n [1]" by (auto simp: event_rel_def)
  show "\<exists>s'. event_step sleep buf x s = Some s' \<and> event_rel l0 s' a'"
  proof (cases x)
    case (Raise i)
    with x sa have i: "i < MAX_USER_IRQ" "a' = (pend(i := Suc (pend i)), n)" by (auto split: if_splits)
    with Raise sa irq l show ?thesis
      by (auto simp: xdma_user_irq_def user_irq_service_def call_void_def event_rel_def nth_list_update)
  next
    case (Take i)
    with x sa have i: "i < MAX_USER_IRQ" "0 < pend i" "a' = (pend(i := 0), Suc n)" by (auto split: if_splits)
    then have "user_irq lro ! i" using irq(2) by simp
    with Take sa irq l i show ?thesis
      by (auto simp: char_events_read_def event_char_def call_int_def Let_def event_rel_def nth_list_update replicate_append_same)
  qed
qed



text \<open>
  Loading the module forgets the instances that were handed out while the driver registered: the table is
  cleared after the probes of the devices that were already present.
\<close>

lemma xdma_init_forgets_instances:
  assumes "xdma_init probes drv w = (rc, drv', w')" and "\<not> IS_ERR (kptr w (io w) (C_misc ''class_create'' 0))"
  shows "dev_present drv' = replicate MAX_XDMA_DEVICES False"
  using assms by (auto simp: xdma_init_def call_ptr_def call_int_def Let_def split_def split: prod.splits)

text \<open>With all 64 instances in use the search reads past the table before it compares the index.\<close>

lemma dev_slot_full: "dev_slot (replicate MAX_XDMA_DEVICES True) 0 = None"
proof -
  have "dev_slot (replicate MAX_XDMA_DEVICES True) i = None" if "i \<le> MAX_XDMA_DEVICES" for i
    using that
  proof (induction "MAX_XDMA_DEVICES - i" arbitrary: i)
    case 0
    then show ?case by (subst dev_slot.simps) simp
  next
    case (Suc k)
    then show ?case by (subst dev_slot.simps) simp
  qed
  then show ?thesis by simp
qed

end
