(* ===== verification/Xdma_Probe.thy ===== *)
theory Xdma_Probe
  imports Xdma_Chardev
begin

text \<open>
  Bringing a device up and down, second part, from \<^verbatim>\<open>xdma-core.c\<close>: the nodes of a device, and the \<^verbatim>\<open>probe\<close> and
  \<^verbatim>\<open>remove\<close> of the PCI driver, with every error exit of the source in its order.
\<close>

section \<open>The nodes of a device\<close>

definition destroy_if :: "u64 \<Rightarrow> xdma_drv \<times> world \<Rightarrow> (xdma_drv \<times> world) option" where
  "destroy_if p s = (if p \<noteq> 0 then destroy_sg_char p s else Some s)"

definition destroy_interfaces :: "xdma_dev \<Rightarrow> xdma_drv \<times> world \<Rightarrow> (xdma_drv \<times> world) option" where
  "destroy_interfaces lro s = do {
     s \<leftarrow> for_range 0 XDMA_CHANNEL_NUM_MAX (\<lambda>ch s. do {
            s \<leftarrow> destroy_if (sgdma_char_dev lro ch 0) s;
            s \<leftarrow> destroy_if (sgdma_char_dev lro ch 1) s;
            s \<leftarrow> destroy_if (bypass_char_dev lro ch 0) s;
            destroy_if (bypass_char_dev lro ch 1) s }) s;
     s \<leftarrow> destroy_if (bypass_char_dev_base lro) s;
     s \<leftarrow> for_range 0 MAX_USER_IRQ (\<lambda>i s. do { p \<leftarrow> arr_get (events_char_dev lro) i; destroy_if p s }) s;
     s \<leftarrow> destroy_if (ctrl_char_dev lro) s;
     destroy_if (user_char_dev lro) s }"

type_synonym up = "xdma_dev \<times> xdma_drv \<times> world"

definition set_char :: "(nat \<Rightarrow> nat \<Rightarrow> u64) \<Rightarrow> nat \<Rightarrow> nat \<Rightarrow> u64 \<Rightarrow> nat \<Rightarrow> nat \<Rightarrow> u64" where
  "set_char t c d p = t(c := (t c)(d := p))"

definition create_engine_interface :: "xdma_engine \<Rightarrow> nat \<Rightarrow> bool \<Rightarrow> up \<Rightarrow> (int \<times> up) option" where
  "create_engine_interface e ch to_dev s = (case s of (lro, drv, w) \<Rightarrow> do {
     let dir_from_dev = (if to_dev then 0 else 1);
     (p, lro, drv, w) \<leftarrow> create_sg_char lro (-1) (Some e) (if to_dev then CHAR_XDMA_H2C else CHAR_XDMA_C2H) drv w;
     let lro = lro\<lparr>sgdma_char_dev := set_char (sgdma_char_dev lro) ch dir_from_dev p\<rparr>;
     Some (if p = 0 then -1 else 0, lro, drv, w) })"

definition create_bypass_interface :: "xdma_engine \<Rightarrow> nat \<Rightarrow> bool \<Rightarrow> up \<Rightarrow> (int \<times> up) option" where
  "create_bypass_interface e ch to_dev s = (case s of (lro, drv, w) \<Rightarrow> do {
     let dir_from_dev = (if to_dev then 0 else 1);
     (p, lro, drv, w) \<leftarrow> create_sg_char lro (bypass_bar_idx lro) (Some e)
                            (if to_dev then CHAR_BYPASS_H2C else CHAR_BYPASS_C2H) drv w;
     let lro = lro\<lparr>bypass_char_dev := set_char (bypass_char_dev lro) ch dir_from_dev p\<rparr>;
     Some (if p = 0 then -1 else 0, lro, drv, w) })"

text \<open>The four loops over the channels share their shape: create a node for each engine that is there.\<close>

definition channel_nodes ::
  "nat \<Rightarrow> (xdma_dev \<Rightarrow> bool) \<Rightarrow> (xdma_engine \<Rightarrow> nat \<Rightarrow> up \<Rightarrow> (int \<times> up) option) \<Rightarrow> up \<Rightarrow> (int option \<times> up) option" where
  "channel_nodes dir wanted create s = for_try 0 XDMA_CHANNEL_NUM_MAX (\<lambda>ch s.
     (case engine (fst s) ch dir of
        Some e \<Rightarrow> if wanted (fst s) then do { (rc, s) \<leftarrow> create e ch s; Some (if rc \<noteq> 0 then Some rc else None, s) } else Some (None, s)
      | None \<Rightarrow> Some (None, s))) s"

definition create_user_node :: "up \<Rightarrow> (bool \<times> up) option" where
  "create_user_node s = (case s of (lro, drv, w) \<Rightarrow>
     if user_bar_idx lro < 0 then Some (True, lro\<lparr>user_char_dev := 0\<rparr>, drv, w)
     else do {
       (p, lro, drv, w) \<leftarrow> create_sg_char lro (user_bar_idx lro) None CHAR_USER drv w;
       Some (p \<noteq> 0, lro\<lparr>user_char_dev := p\<rparr>, drv, w) })"

definition create_ctrl_node :: "up \<Rightarrow> (bool \<times> up) option" where
  "create_ctrl_node s = (case s of (lro, drv, w) \<Rightarrow> do {
     (p, lro, drv, w) \<leftarrow> create_sg_char lro (config_bar_idx lro) None CHAR_CTRL drv w;
     Some (p \<noteq> 0, lro\<lparr>ctrl_char_dev := p\<rparr>, drv, w) })"

text \<open>The test after each event node looks at the array, not at its entry: a failure goes unnoticed.\<close>

definition create_event_nodes :: "up \<Rightarrow> up option" where
  "create_event_nodes s = for_range 0 MAX_USER_IRQ (\<lambda>i (lro, drv, w). do {
     (p, lro, drv, w) \<leftarrow> create_sg_char lro (int i) None CHAR_EVENTS drv w;
     ps \<leftarrow> arr_set (events_char_dev lro) i p;
     Some (lro\<lparr>events_char_dev := ps\<rparr>, drv, w) }) s"

definition create_bypass_base :: "up \<Rightarrow> up option" where
  "create_bypass_base s = (case s of (lro, drv, w) \<Rightarrow>
     if bypass_bar_idx lro < 0 then Some (lro\<lparr>bypass_char_dev_base := 0\<rparr>, drv, w)
     else do {
       (p, lro, drv, w) \<leftarrow> create_sg_char lro (bypass_bar_idx lro) None CHAR_BYPASS drv w;
       Some (lro\<lparr>bypass_char_dev_base := p\<rparr>, drv, w) })"

definition interfaces_fail :: "up \<Rightarrow> (int \<times> up) option" where
  "interfaces_fail s = (case s of (lro, drv, w) \<Rightarrow> do { (drv, w) \<leftarrow> destroy_interfaces lro (drv, w); Some (-1, lro, drv, w) })"

definition create_interfaces :: "up \<Rightarrow> (int \<times> up) option" where
  "create_interfaces s = do {
     (ok, s) \<leftarrow> create_user_node s;
     if \<not> ok then interfaces_fail s else do {
     (ok, s) \<leftarrow> create_ctrl_node s;
     if \<not> ok then interfaces_fail s else do {
     s \<leftarrow> create_event_nodes s;
     (r, s) \<leftarrow> channel_nodes 0 (\<lambda>_. True) (\<lambda>e ch. create_engine_interface e ch True) s;
     if r \<noteq> None then interfaces_fail s else do {
     (r, s) \<leftarrow> channel_nodes 1 (\<lambda>_. True) (\<lambda>e ch. create_engine_interface e ch False) s;
     if r \<noteq> None then interfaces_fail s else do {
     (r, s) \<leftarrow> channel_nodes 0 (\<lambda>lro. bypass_bar_idx lro \<ge> 0) (\<lambda>e ch. create_bypass_interface e ch True) s;
     if r \<noteq> None then interfaces_fail s else do {
     (r, s) \<leftarrow> channel_nodes 1 (\<lambda>lro. bypass_bar_idx lro \<ge> 0) (\<lambda>e ch. create_bypass_interface e ch False) s;
     if r \<noteq> None then interfaces_fail s else do {
     s \<leftarrow> create_bypass_base s;
     Some (0, s) } } } } } } }"

section \<open>Probe\<close>

text \<open>The error exits of \<^verbatim>\<open>probe\<close>, from the last label to the first; each falls through to the next.\<close>

definition err_enable :: "xdma_dev \<Rightarrow> world \<Rightarrow> world" where
  "err_enable lro w = call_void (C_misc ''kfree lro'' 0) w"

definition err_scan_msi :: "xdma_dev \<Rightarrow> world \<Rightarrow> world" where
  "err_scan_msi lro w = err_enable lro (if \<not> regions_in_use lro then call_void (C_pci ''pci_disable_device'') w else w)"

definition err_regions :: "xdma_dev \<Rightarrow> world \<Rightarrow> world" where
  "err_regions lro w = err_scan_msi lro (if msi_enabled lro then call_void (C_pci ''pci_disable_msi'') w else w)"

definition err_map :: "xdma_dev \<Rightarrow> world \<Rightarrow> world" where
  "err_map lro w = err_regions lro (if got_regions lro then call_void (C_pci ''pci_release_regions'') w else w)"

definition err_mask :: "xdma_dev \<Rightarrow> world \<Rightarrow> world option" where
  "err_mask lro w = do { (lro, w) \<leftarrow> unmap_bars lro w; Some (err_map lro w) }"

definition err_engines :: "xdma_dev \<Rightarrow> world \<Rightarrow> world option" where
  "err_engines lro w = do { w \<leftarrow> irq_teardown lro w; err_mask lro w }"

definition err_interfaces :: "xdma_dev \<Rightarrow> world \<Rightarrow> world option" where
  "err_interfaces lro w = do { (lro, w) \<leftarrow> remove_engines lro w; err_engines lro w }"

text \<open>
  The result is the status, the device when one was kept, the driver's globals and the world. The
  last part of \<^verbatim>\<open>probe\<close>, from the engines on: \<open>probe_live\<close> once the nodes are there, \<open>probe_nodes\<close> once the engines are.
\<close>

definition probe_live :: "xdma_dev \<Rightarrow> xdma_drv \<Rightarrow> world \<Rightarrow> (int \<times> xdma_dev option \<times> xdma_drv \<times> world) option" where
  "probe_live lro drv w = do {
     w \<leftarrow> user_interrupts_enable lro (- 1) w;
     w \<leftarrow> (if \<not> poll_mode w then channel_interrupts_enable lro (- 1) w else Some w);
     (_, w) \<leftarrow> read_interrupts lro w;
     let (rc, w) = call_int (C_misc ''device_create_file'' 0) w;
     if rc \<noteq> 0 then do { w \<leftarrow> err_interfaces lro w; Some (rc, None, drv, w) }
     else Some (0, Some lro, drv, w) }"

definition probe_nodes :: "xdma_dev \<Rightarrow> xdma_drv \<Rightarrow> world \<Rightarrow> (int \<times> xdma_dev option \<times> xdma_drv \<times> world) option" where
  "probe_nodes lro drv w = do {
     (rc, lro, drv, w) \<leftarrow> create_interfaces (lro, drv, w);
     if rc \<noteq> 0 then do { w \<leftarrow> err_interfaces lro w; Some (rc, None, drv, w) }
     else probe_live lro drv w }"

definition probe_tail :: "xdma_dev \<Rightarrow> xdma_drv \<Rightarrow> world \<Rightarrow> (int \<times> xdma_dev option \<times> xdma_drv \<times> world) option" where
  "probe_tail lro drv w = do {
     b \<leftarrow> config_bar lro;
     let (v, w) = read_register b w;
     w \<leftarrow> (if enable_credit_mp w \<and> v AND 0x8000 \<noteq> 0 then enable_credit_feature lro w else Some w);
     (rc, lro, w) \<leftarrow> probe_engines lro w;
     if rc \<noteq> 0 then do { w \<leftarrow> err_engines lro w; Some (rc, None, drv, w) }
     else probe_nodes lro drv w }"

definition probe :: "pci_dev \<Rightarrow> xdma_drv \<Rightarrow> world \<Rightarrow> (int \<times> xdma_dev option \<times> xdma_drv \<times> world) option" where
  "probe dev drv w = (case alloc_dev_instance w of
     (None, w) \<Rightarrow> Some (0, None, drv, w)
   | (Some lro, w) \<Rightarrow> do {
       let (rc, w) = call_int (C_pci ''pci_enable_device'') w;
       if rc \<noteq> 0 then Some (rc, None, drv, err_enable lro w)
       else do {
       let w = call_void (C_pci ''pci_set_master'') w;
       let (rc, lro, w) = probe_scan_for_msi dev lro w;
       if rc < 0 then Some (rc, None, drv, err_scan_msi lro w)
       else do {
       let (rc, lro, w) = request_regions lro w;
       if rc \<noteq> 0 then Some (rc, None, drv, err_regions lro w)
       else do {
       (rc, lro, w) \<leftarrow> map_bars dev lro w;
       if rc \<noteq> 0 then Some (rc, None, drv, err_map lro w)
       else do {
       let (rc, w) = set_dma_mask w;
       if rc \<noteq> 0 then do { w \<leftarrow> err_mask lro w; Some (rc, None, drv, w) }
       else do {
       (rc, lro, w) \<leftarrow> irq_setup (pdev_irq dev) lro w;
       if rc \<noteq> 0 then do { w \<leftarrow> err_mask lro w; Some (rc, None, drv, w) }
       else probe_tail lro drv w } } } } } })"

section \<open>Remove\<close>

definition remove :: "xdma_dev \<Rightarrow> xdma_drv \<Rightarrow> world \<Rightarrow> (xdma_drv \<times> world) option" where
  "remove lro drv w = do {
     w \<leftarrow> channel_interrupts_disable lro (- 1) w;
     w \<leftarrow> user_interrupts_disable lro (- 1) w;
     (_, w) \<leftarrow> read_interrupts lro w;
     (drv, w) \<leftarrow> destroy_interfaces lro (drv, w);
     (lro, w) \<leftarrow> remove_engines lro w;
     w \<leftarrow> irq_teardown lro w;
     (lro, w) \<leftarrow> unmap_bars lro w;
     let w = (if got_regions lro then call_void (C_pci ''pci_release_regions'') w else w);
     let (lro, w) = (if msix_enabled lro then (lro\<lparr>msix_enabled := False\<rparr>, call_void (C_pci ''pci_disable_msix'') w)
                     else if msi_enabled lro then (lro\<lparr>msi_enabled := False\<rparr>, call_void (C_pci ''pci_disable_msi'') w)
                     else (lro, w));
     let w = (if \<not> regions_in_use lro then call_void (C_pci ''pci_disable_device'') w else w);
     present \<leftarrow> (if instance_nr lro < 0 then None else arr_set (dev_present drv) (nat (instance_nr lro)) False);
     let w = call_void (C_misc ''device_remove_file'' 0) w;
     Some (drv\<lparr>dev_present := present\<rparr>, err_enable lro w) }"

end
