(* ===== verification/Xdma_Nodes.thy ===== *)
theory Xdma_Nodes
  imports Xdma_Probe
begin

text \<open>
  All nodes of a device together: \<^verbatim>\<open>create_interfaces\<close> and \<^verbatim>\<open>destroy_interfaces\<close> of \<^verbatim>\<open>xdma-core.c\<close> are inverse, and a failure
  half way leaves nothing behind.
\<close>

section \<open>The slots of a device\<close>

text \<open>The places where a device keeps its nodes, in the order in which they are removed.\<close>

datatype slot = SUser | SCtrl | SBase | SEvent nat | SSg nat nat | SByp nat nat

fun slot_get :: "xdma_dev \<Rightarrow> slot \<Rightarrow> u64" where
  "slot_get lro SUser = user_char_dev lro"
| "slot_get lro SCtrl = ctrl_char_dev lro"
| "slot_get lro SBase = bypass_char_dev_base lro"
| "slot_get lro (SEvent i) = events_char_dev lro ! i"
| "slot_get lro (SSg c d) = sgdma_char_dev lro c d"
| "slot_get lro (SByp c d) = bypass_char_dev lro c d"

definition channel_slots :: "nat \<Rightarrow> slot list" where
  "channel_slots ch = [SSg ch 0, SSg ch 1, SByp ch 0, SByp ch 1]"

definition all_slots :: "slot list" where
  "all_slots = concat (map channel_slots [0..<XDMA_CHANNEL_NUM_MAX]) @ [SBase] @ map SEvent [0..<MAX_USER_IRQ] @ [SCtrl, SUser]"

lemma distinct_slots: "distinct all_slots"
proof -
  have "distinct (concat (map channel_slots [0..<4]))" by (simp add: channel_slots_def upt_rec)
  then show ?thesis by (auto simp: all_slots_def channel_slots_def XDMA_CHANNEL_NUM_MAX_def distinct_map inj_on_def)
qed

lemma in_slots [simp]:
  "SUser \<in> set all_slots" "SCtrl \<in> set all_slots" "SBase \<in> set all_slots" "i < MAX_USER_IRQ \<Longrightarrow> SEvent i \<in> set all_slots"
  "c < XDMA_CHANNEL_NUM_MAX \<Longrightarrow> d < 2 \<Longrightarrow> SSg c d \<in> set all_slots" "c < XDMA_CHANNEL_NUM_MAX \<Longrightarrow> d < 2 \<Longrightarrow> SByp c d \<in> set all_slots"
  by (auto simp: all_slots_def channel_slots_def less_2_cases_iff)

fun destroy_all :: "u64 list \<Rightarrow> xdma_drv \<times> world \<Rightarrow> (xdma_drv \<times> world) option" where
  "destroy_all [] s = Some s"
| "destroy_all (p # ps) s = Option.bind (destroy_if p s) (destroy_all ps)"

lemma destroy_all_append: "destroy_all (ps @ qs) s = Option.bind (destroy_all ps s) (destroy_all qs)"
proof (induction ps arbitrary: s)
  case (Cons p ps)
  then show ?case by (cases "destroy_if p s") simp_all
qed simp

lemma for_range_destroy:
  assumes "\<And>k s. i \<le> k \<Longrightarrow> k < i + n \<Longrightarrow> f k s = destroy_all (g k) s"
  shows "for_range i n f s = destroy_all (concat (map g [i..<i + n])) s"
  using assms
proof (induction n arbitrary: i s)
  case 0
  then show ?case by simp
next
  case (Suc n)
  have "[i..<i + Suc n] = i # [Suc i..<Suc i + n]" by (simp add: upt_rec)
  moreover have "for_range (Suc i) n f = destroy_all (concat (map g [Suc i..<Suc i + n]))"
    by (rule ext, rule Suc.IH) (use Suc.prems in auto)
  ultimately show ?case using Suc.prems[of i s] by (simp add: destroy_all_append)
qed

lemma destroy_all_Cons: "destroy_all (p # ps) = (\<lambda>s. Option.bind (destroy_if p s) (destroy_all ps))"
  by (rule ext) simp

lemma destroy_all_append': "destroy_all (ps @ qs) = (\<lambda>s. Option.bind (destroy_all ps s) (destroy_all qs))"
  by (rule ext) (rule destroy_all_append)

lemma destroy_all_Nil: "destroy_all [] = Some"
  by (rule ext) simp

lemma destroy_all_nonzero: "destroy_all ps s = destroy_all (filter (\<lambda>p. p \<noteq> 0) ps) s"
proof (induction ps arbitrary: s)
  case (Cons p ps)
  then show ?case by (cases "destroy_if p s") (auto simp: destroy_if_def)
qed simp

lemma destroy_interfaces_slots:
  assumes "length (events_char_dev lro) = MAX_USER_IRQ"
  shows "destroy_interfaces lro s = destroy_all (map (slot_get lro) all_slots) s"
proof -
  have a: "for_range 0 XDMA_CHANNEL_NUM_MAX (\<lambda>ch s. do {
            s \<leftarrow> destroy_if (sgdma_char_dev lro ch 0) s;
            s \<leftarrow> destroy_if (sgdma_char_dev lro ch 1) s;
            s \<leftarrow> destroy_if (bypass_char_dev lro ch 0) s;
            destroy_if (bypass_char_dev lro ch 1) s }) s =
      destroy_all (concat (map (\<lambda>ch. map (slot_get lro) (channel_slots ch)) [0..<0 + XDMA_CHANNEL_NUM_MAX])) s" for s
    by (rule for_range_destroy) (simp add: channel_slots_def destroy_all_Cons destroy_all_Nil del: destroy_all.simps)
  have b: "for_range 0 MAX_USER_IRQ (\<lambda>i s. do { p \<leftarrow> arr_get (events_char_dev lro) i; destroy_if p s }) s =
      destroy_all (concat (map (\<lambda>i. [slot_get lro (SEvent i)]) [0..<0 + MAX_USER_IRQ])) s" for s
    by (rule for_range_destroy) (use assms in \<open>simp add: arr_get_def destroy_all_Cons destroy_all_Nil del: destroy_all.simps\<close>)
  show ?thesis
    unfolding destroy_interfaces_def a b all_slots_def
    by (simp add: destroy_all_append' map_concat comp_def concat_map_singleton destroy_all_Cons destroy_all_Nil del: destroy_all.simps)
qed


fun slot_put :: "slot \<Rightarrow> u64 \<Rightarrow> xdma_dev \<Rightarrow> xdma_dev" where
  "slot_put SUser p lro = lro\<lparr>user_char_dev := p\<rparr>"
| "slot_put SCtrl p lro = lro\<lparr>ctrl_char_dev := p\<rparr>"
| "slot_put SBase p lro = lro\<lparr>bypass_char_dev_base := p\<rparr>"
| "slot_put (SEvent i) p lro = lro\<lparr>events_char_dev := (events_char_dev lro)[i := p]\<rparr>"
| "slot_put (SSg c d) p lro = lro\<lparr>sgdma_char_dev := set_char (sgdma_char_dev lro) c d p\<rparr>"
| "slot_put (SByp c d) p lro = lro\<lparr>bypass_char_dev := set_char (bypass_char_dev lro) c d p\<rparr>"

lemma slot_get_put:
  assumes "t \<in> set all_slots" and "length (events_char_dev lro) = MAX_USER_IRQ"
  shows "slot_get (slot_put s p lro) t = (if t = s then p else slot_get lro t)"
proof -
  have "i < MAX_USER_IRQ" if "t = SEvent i" for i using assms(1) that by (auto simp: all_slots_def channel_slots_def)
  with assms(2) show ?thesis by (cases s; cases t) (auto simp: set_char_def nth_list_update)
qed

lemma slot_put_frame [simp]:
  "length (events_char_dev (slot_put s p lro)) = length (events_char_dev lro)"
  "major (slot_put s p lro) = major lro" "engine (slot_put s p lro) = engine lro"
  by (cases s; simp)+

lemma slot_get_number [simp]: "slot_get (lro\<lparr>instance_nr := i, major := m\<rparr>) s = slot_get lro s"
  by (cases s) simp_all

definition nodes :: "xdma_dev \<Rightarrow> u64 list" where
  "nodes lro = filter (\<lambda>p. p \<noteq> 0) (map (slot_get lro) all_slots)"

lemma nodes_put:
  assumes "s \<in> set all_slots" and "slot_get lro s = 0" and "length (events_char_dev lro) = MAX_USER_IRQ"
  shows "mset (nodes (slot_put s p lro)) = mset (nodes lro) + (if p = 0 then {#} else {#p#})"
proof -
  from split_list[OF assms(1)] obtain xs ys where s: "all_slots = xs @ s # ys" by blast
  have d: "s \<notin> set xs" "s \<notin> set ys" using distinct_slots unfolding s by auto
  have same: "map (slot_get (slot_put s p lro)) zs = map (slot_get lro) zs" if "s \<notin> set zs" "set zs \<subseteq> set all_slots" for zs
    using that slot_get_put[OF _ assms(3)] by (intro map_cong) auto
  have "set xs \<subseteq> set all_slots" "set ys \<subseteq> set all_slots" unfolding s by auto
  note e = same[OF d(1) this(1)] same[OF d(2) this(2)]
  have "map (slot_get (slot_put s p lro)) all_slots = map (slot_get lro) xs @ p # map (slot_get lro) ys"
    unfolding s map_append list.map e using slot_get_put[OF assms(1,3), of s p] by simp
  moreover have "map (slot_get lro) all_slots = map (slot_get lro) xs @ 0 # map (slot_get lro) ys" unfolding s using assms(2) by simp
  ultimately show ?thesis by (simp add: nodes_def)
qed

section \<open>Nodes that can be taken down again\<close>

definition live_node :: "xdma_drv \<Rightarrow> u64 \<Rightarrow> bool" where
  "live_node drv p \<longleftrightarrow> (case chars drv p of None \<Rightarrow> False | Some c \<Rightarrow> cmagic c = MAGIC_CHAR \<and> has_lro c \<and> sys_device c \<noteq> 0)"

definition node_number :: "xdma_drv \<Rightarrow> u64 \<Rightarrow> u64" where
  "node_number drv p = (case chars drv p of None \<Rightarrow> 0 | Some c \<Rightarrow> ucast (cdevno c))"

text \<open>The nodes \<open>ps\<close> are live, apart from them the table of nodes is \<open>base\<close>, and the history \<open>l\<close> created exactly them.\<close>

definition undoable :: "(u64 \<rightharpoonup> xdma_char) \<Rightarrow> u64 list \<Rightarrow> xdma_drv \<Rightarrow> io list \<Rightarrow> bool" where
  "undoable base ps drv l \<longleftrightarrow> distinct ps \<and> 0 \<notin> set ps \<and> (\<forall>p \<in> set ps. live_node drv p \<and> base p = None) \<and>
     (\<forall>p. p \<notin> set ps \<longrightarrow> chars drv p = base p) \<and>
     tally cdev_got l = tally cdev_freed l + image_mset (node_number drv) (mset ps) \<and>
     tally mem_got l = tally mem_freed l + mset ps"

lemma undoable_perm: "undoable base ps drv l \<Longrightarrow> mset qs = mset ps \<Longrightarrow> undoable base qs drv l"
  unfolding undoable_def by (metis mset_eq_imp_distinct_iff mset_eq_setD)

lemma undoable_undo:
  assumes "undoable base ps drv l" and "xdma_class drv \<noteq> 0"
  shows "\<exists>drv' w' l'. destroy_all ps (drv, w) = Some (drv', w') \<and> io w' = io w @ l' \<and> chars drv' = base \<and> settled (l @ l')"
  using assms
proof (induction ps arbitrary: drv w l)
  case Nil
  then have "chars drv = base" by (auto simp: undoable_def)
  with Nil show ?case by (auto simp: undoable_def settled_def)
next
  case (Cons p ps)
  then have p: "p \<noteq> 0" "p \<notin> set ps" "live_node drv p" by (auto simp: undoable_def)
  then obtain c where c: "chars drv p = Some c" "cmagic c = MAGIC_CHAR" "has_lro c" "sys_device c \<noteq> 0"
    by (auto simp: live_node_def split: option.splits)
  from destroy_sg_char_run[OF c(1-3) Cons.prems(2) c(4), of w] obtain w1 l1 where
    d: "destroy_sg_char p (drv, w) = Some (drv\<lparr>chars := (chars drv)(p := None)\<rparr>, w1)" "io w1 = io w @ l1"
      "tally cdev_got l1 = {#}" "tally cdev_freed l1 = {#ucast (cdevno c)#}" "tally mem_got l1 = {#}" "tally mem_freed l1 = {#p#}" by blast
  let ?drv = "drv\<lparr>chars := (chars drv)(p := None)\<rparr>"
  have n: "image_mset (node_number ?drv) (mset ps) = image_mset (node_number drv) (mset ps)"
    using p(2) by (intro image_mset_cong) (auto simp: node_number_def)
  have "undoable base ps ?drv (l @ l1)"
    using Cons.prems(1) p(2) c(1) d(3-6) n by (auto simp: undoable_def live_node_def node_number_def)
  from Cons.IH[OF this, of w1] Cons.prems(2) d(1,2) p(1) show ?case by (auto simp: destroy_if_def)
qed

section \<open>Creating is total\<close>

text \<open>A device has its numbers, or can get them: an instance is free and the kernel gives out major numbers.\<close>

definition numbered :: "xdma_dev \<Rightarrow> xdma_drv \<Rightarrow> world \<Rightarrow> bool" where
  "numbered lro drv w \<longleftrightarrow> major lro \<noteq> 0 \<or>
     (length (dev_present drv) = MAX_XDMA_DEVICES \<and> False \<in> set (dev_present drv) \<and>
      (drv_major drv \<noteq> 0 \<or> (\<forall>l. kint w l (C_cdev ''alloc_chrdev_region'' 0) = 0 \<and>
         MAJOR (ucast (kptr w l (C_misc ''alloc_chrdev_region'' 0))) \<noteq> 0)))"

lemma dev_slot_finds:
  assumes "i \<le> j" and "j < length xs" and "\<not> xs ! j" and "length xs = MAX_XDMA_DEVICES"
  shows "\<exists>k. dev_slot xs i = Some k \<and> k < MAX_XDMA_DEVICES"
  using assms
proof (induction xs i rule: dev_slot.induct)
  case (1 xs i)
  show ?case
  proof (cases "xs ! i")
    case True
    with "1.prems" have "i \<noteq> j" by auto
    with True "1.prems" show ?thesis using "1.IH"[of True] by (subst dev_slot.simps) (auto simp: arr_get_def)
  next
    case False
    with "1.prems" show ?thesis by (subst dev_slot.simps) (auto simp: arr_get_def)
  qed
qed

lemma new_instance_total:
  assumes "numbered lro drv w"
  shows "\<exists>lro' drv' w'. new_instance lro drv w = Some (Some (lro', drv', w')) \<and> major lro' \<noteq> 0"
proof (cases "major lro = 0")
  case False
  then show ?thesis by (simp add: new_instance_def)
next
  case True
  with assms have n: "length (dev_present drv) = MAX_XDMA_DEVICES" "False \<in> set (dev_present drv)" by (auto simp: numbered_def)
  then obtain j where "j < length (dev_present drv)" "\<not> dev_present drv ! j" by (auto simp: in_set_conv_nth)
  from dev_slot_finds[OF _ this n(1), of 0] obtain k where "dev_slot (dev_present drv) 0 = Some k" "k < MAX_XDMA_DEVICES" by auto
  with True assms n show ?thesis
    by (auto simp: new_instance_def gen_dev_major_def arr_set_def numbered_def call_int_def Let_def)
qed

lemma register_node_total:
  assumes "gen_dev_minor eo type b \<noteq> None"
  shows "\<exists>q drv' w'. register_node p lro b eo type drv w = Some (q, drv', w')"
proof -
  from assms obtain minor where m: "gen_dev_minor eo type b = Some minor" by blast
  define c where "c = \<lparr>cmagic = MAGIC_CHAR, has_lro = True, cdevno = MKDEV (major lro) minor, cbar = b,
      cengine = map_option (\<lambda>e. (channel e, number_in_channel e)) eo,
      cuser_irq = (if type = CHAR_EVENTS then Some (nat b) else None), sys_device = 0\<rparr>"
  have go: "\<exists>q drv' w'. go_live p c lro eo type drv w = Some (q, drv', w')" for w
    by (simp add: go_live_def create_dev_def call_int_def call_ptr_def Let_def c_def)
  have "\<exists>rc w2. config_kobject c lro eo type (call_void (C_misc ''cdev_init'' (chardev_val type)) w) = Some (rc, w2)"
    using m by (cases eo) (auto simp: config_kobject_def gen_dev_minor_def call_int_def Let_def c_def split: if_splits)
  then obtain rc w2 where k: "config_kobject c lro eo type (call_void (C_misc ''cdev_init'' (chardev_val type)) w) = Some (rc, w2)"
    by blast
  define rg where "rg = (if drv_major drv \<noteq> 0 then call_int (C_cdev ''register_chrdev_region'' (ucast (cdevno c))) w2 else (0, w2))"
  have "register_node p lro b eo type drv w =
      (if rc \<noteq> 0 then Some (0, drv, kfree_char p w2) else if fst rg < 0 then Some (0, drv, kfree_char p (snd rg))
       else go_live p c lro eo type drv (snd rg))"
    using m k unfolding rg_def c_def register_node_def by (simp add: Let_def split_def)
  with go[of "snd rg"] show ?thesis by auto
qed

lemma create_sg_char_total:
  assumes "numbered lro drv w" and "gen_dev_minor eo type b \<noteq> None"
  shows "\<exists>q lro' drv' w'. create_sg_char lro b eo type drv w = Some (q, lro', drv', w') \<and> numbered lro' drv' w'"
proof -
  define p where "p = kptr w (io w) (C_kzalloc ''xdma_char'')"
  let ?w = "emit (KP (C_kzalloc ''xdma_char'') p) w"
  have k: "call_ptr (C_kzalloc ''xdma_char'') w = (p, ?w)" by (simp add: p_def call_ptr_def Let_def)
  have n: "numbered lro drv ?w" using assms(1) by (simp add: numbered_def)
  from new_instance_total[OF n] obtain lro1 drv1 w1 where 1: "new_instance lro drv ?w = Some (Some (lro1, drv1, w1))" "major lro1 \<noteq> 0"
    by blast
  from register_node_total[OF assms(2), of p lro1 drv1 w1] obtain q drv2 w2 where
    "register_node p lro1 b eo type drv1 w1 = Some (q, drv2, w2)" by blast
  with 1 k n show ?thesis by (auto simp: create_sg_char_def numbered_def)
qed


section \<open>Bringing the nodes up and taking them down\<close>

text \<open>The allocator does not return memory that is in use, and the nodes that existed before, in the history \<open>l0\<close>, have
  their memory.\<close>

definition alloc_ok :: "(io list \<Rightarrow> kcall \<Rightarrow> u64) \<Rightarrow> bool" where
  "alloc_ok k \<longleftrightarrow> (\<forall>l. k l (C_kzalloc ''xdma_char'') \<notin># tally mem_got l - tally mem_freed l)"

definition held_before :: "(u64 \<rightharpoonup> xdma_char) \<Rightarrow> io list \<Rightarrow> bool" where
  "held_before base l0 \<longleftrightarrow> tally mem_freed l0 \<subseteq># tally mem_got l0 \<and> dom base \<subseteq> set_mset (tally mem_got l0 - tally mem_freed l0)"

text \<open>The state of a device some of whose nodes exist. The slots \<open>todo\<close> are still empty.\<close>

definition up_ok :: "(u64 \<rightharpoonup> xdma_char) \<Rightarrow> io list \<Rightarrow> slot set \<Rightarrow> up \<Rightarrow> bool" where
  "up_ok base l0 todo s \<longleftrightarrow> (case s of (lro, drv, w) \<Rightarrow>
     length (events_char_dev lro) = MAX_USER_IRQ \<and> numbered lro drv w \<and> xdma_class drv \<noteq> 0 \<and> alloc_ok (kptr w) \<and>
     (\<forall>ch d e. engine lro ch d = Some e \<longrightarrow> number_in_channel e < 2) \<and>
     todo \<subseteq> set all_slots \<and> (\<forall>t \<in> todo. slot_get lro t = 0) \<and>
     held_before base l0 \<and> (\<exists>l. io w = l0 @ l \<and> undoable base (nodes lro) drv l))"

lemma up_ok_less: "up_ok base l0 T s \<Longrightarrow> T' \<subseteq> T \<Longrightarrow> up_ok base l0 T' s"
  by (auto simp: up_ok_def split: prod.splits)

lemma up_okD:
  assumes "up_ok base l0 T (lro, drv, w)"
  shows "length (events_char_dev lro) = MAX_USER_IRQ" "numbered lro drv w" "xdma_class drv \<noteq> 0" "alloc_ok (kptr w)"
    "\<And>ch d e. engine lro ch d = Some e \<Longrightarrow> number_in_channel e < 2" "T \<subseteq> set all_slots" "\<And>t. t \<in> T \<Longrightarrow> slot_get lro t = 0"
    "\<exists>l. io w = l0 @ l \<and> undoable base (nodes lro) drv l" "held_before base l0"
  using assms unfolding up_ok_def prod.case by blast+

lemma undoable_more:
  assumes "undoable base ps drv l" and "q \<noteq> 0" "q \<notin> set ps" "base q = None"
    and "chars drv' = (chars drv)(q \<mapsto> c)" "cmagic c = MAGIC_CHAR" "has_lro c" "sys_device c \<noteq> 0"
    and "tally cdev_got l' = tally cdev_freed l' + {#ucast (cdevno c)#}" "tally mem_got l' = tally mem_freed l' + {#q#}"
  shows "undoable base (q # ps) drv' (l @ l')"
proof -
  have "image_mset (node_number drv') (mset ps) = image_mset (node_number drv) (mset ps)"
    using assms(3,5) by (intro image_mset_cong) (auto simp: node_number_def)
  with assms show ?thesis by (auto simp: undoable_def live_node_def node_number_def)
qed

lemma undoable_settled:
  assumes "undoable base ps drv l" and "chars drv' = chars drv" and "settled l'"
  shows "undoable base ps drv' (l @ l')"
proof -
  have "live_node drv' = live_node drv" "node_number drv' = node_number drv"
    using assms(2) by (auto simp: live_node_def node_number_def fun_eq_iff)
  with assms show ?thesis by (simp add: undoable_def settled_def)
qed

lemma create_node:
  assumes up: "up_ok base l0 T (lro, drv, w)" and t: "t \<in> T" and m: "gen_dev_minor eo type b \<noteq> None"
  shows "\<exists>q lro' drv' w'. create_sg_char lro b eo type drv w = Some (q, lro', drv', w') \<and>
    up_ok base l0 (T - {t}) (slot_put t q lro', drv', w')"
proof -
  note u = up_okD[OF up]
  from u(8) obtain l where l: "io w = l0 @ l" "undoable base (nodes lro) drv l" by blast
  from create_sg_char_total[OF u(2) m] obtain q lro' drv' w' where
    c: "create_sg_char lro b eo type drv w = Some (q, lro', drv', w')" "numbered lro' drv' w'" by blast
  from create_sg_char_cases[OF c(1) u(3)] obtain l1 i n where
    s: "io w' = io w @ l1" "xdma_class drv' = xdma_class drv" "kptr w' = kptr w" "lro' = lro\<lparr>instance_nr := i, major := n\<rparr>" and
    q: "if q = 0 then chars drv' = chars drv \<and> settled l1
     else q = kptr w (io w) (C_kzalloc ''xdma_char'') \<and> (\<exists>c. chars drv' = (chars drv)(q \<mapsto> c) \<and> cmagic c = MAGIC_CHAR \<and> has_lro c \<and>
       sys_device c \<noteq> 0 \<and> tally cdev_got l1 = tally cdev_freed l1 + {#ucast (cdevno c)#} \<and> tally mem_got l1 = tally mem_freed l1 + {#q#})"
    by blast
  have len: "length (events_char_dev lro') = MAX_USER_IRQ" using u(1) s(4) by simp
  have n: "nodes lro' = nodes lro" by (simp add: nodes_def s(4) cong: map_cong)
  have zero: "slot_get lro' t = 0" "t \<in> set all_slots" using u(6,7) t s(4) by auto
  note put = nodes_put[OF zero(2,1) len, of q, unfolded n]
  have "undoable base (nodes (slot_put t q lro')) drv' (l @ l1)"
  proof (cases "q = 0")
    case True
    with q put undoable_settled[OF l(2)] undoable_perm show ?thesis by fastforce
  next
    case False
    obtain A where A: "tally mem_got l0 = tally mem_freed l0 + A" "dom base \<subseteq> set_mset A"
      using u(9) by (auto simp: held_before_def mset_subset_eq_exists_conv)
    have out: "tally mem_got (io w) - tally mem_freed (io w) = A + mset (nodes lro)"
      using l A(1) by (simp add: undoable_def)
    have "q \<notin># A + mset (nodes lro)" using u(4) q False unfolding out[symmetric] by (auto simp: alloc_ok_def)
    with A(2) have fresh: "q \<notin> set (nodes lro)" "base q = None" by (cases "base q"; auto)+
    from q False obtain c where "chars drv' = (chars drv)(q \<mapsto> c)" "cmagic c = MAGIC_CHAR" "has_lro c" "sys_device c \<noteq> 0"
      "tally cdev_got l1 = tally cdev_freed l1 + {#ucast (cdevno c)#}" "tally mem_got l1 = tally mem_freed l1 + {#q#}" by auto
    from undoable_more[OF l(2) False fresh this] have "undoable base (q # nodes lro) drv' (l @ l1)" .
    then show ?thesis by (rule undoable_perm) (use put False in simp)
  qed
  moreover have "slot_get (slot_put t q lro') x = 0" if "x \<in> T - {t}" for x
    using that u(6,7) slot_get_put[OF _ len, of x t q] s(4) by auto
  ultimately have "up_ok base l0 (T - {t}) (slot_put t q lro', drv', w')"
    unfolding up_ok_def prod.case using u(3-6,9) c(2) s l(1) len by (auto simp: numbered_def)
  with c(1) show ?thesis by blast
qed

lemma up_ok_destroy:
  assumes "up_ok base l0 T (lro, drv, w)"
  shows "\<exists>drv' w' l. destroy_interfaces lro (drv, w) = Some (drv', w') \<and> io w' = l0 @ l \<and> chars drv' = base \<and> settled l"
proof -
  from assms obtain l where l: "io w = l0 @ l" "undoable base (nodes lro) drv l" "xdma_class drv \<noteq> 0"
    "length (events_char_dev lro) = MAX_USER_IRQ" by (auto simp: up_ok_def)
  have "destroy_interfaces lro (drv, w) = destroy_all (nodes lro) (drv, w)"
    unfolding destroy_interfaces_slots[OF l(4)] nodes_def by (rule destroy_all_nonzero)
  with undoable_undo[OF l(2,3), of w] l(1) show ?thesis by auto
qed


text \<open>Each part of \<^verbatim>\<open>create_interfaces\<close> fills its slots and leaves the others to do.\<close>

lemma create_user_node_up:
  assumes "up_ok base l0 (insert SUser T) s" and "SUser \<notin> T"
  shows "\<exists>b s'. create_user_node s = Some (b, s') \<and> up_ok base l0 T s'"
proof -
  obtain lro drv w where s: "s = (lro, drv, w)" by (cases s)
  show ?thesis
  proof (cases "user_bar_idx lro < 0")
    case True
    have "slot_get lro SUser = 0" using assms(1) s by (auto dest: up_okD(7)[of _ _ _ lro drv w SUser])
    then have "lro\<lparr>user_char_dev := 0\<rparr> = lro" by simp
    with True s up_ok_less[OF assms(1)] show ?thesis by (auto simp: create_user_node_def)
  next
    case False
    from create_node[OF assms(1)[unfolded s], of SUser None CHAR_USER "user_bar_idx lro"] assms(2) False s show ?thesis
      by (auto simp: create_user_node_def gen_dev_minor_def)
  qed
qed

lemma create_ctrl_node_up:
  assumes "up_ok base l0 (insert SCtrl T) s" and "SCtrl \<notin> T"
  shows "\<exists>b s'. create_ctrl_node s = Some (b, s') \<and> up_ok base l0 T s'"
proof -
  obtain lro drv w where s: "s = (lro, drv, w)" by (cases s)
  from create_node[OF assms(1)[unfolded s], of SCtrl None CHAR_CTRL "config_bar_idx lro"] assms(2) s show ?thesis
    by (auto simp: create_ctrl_node_def gen_dev_minor_def)
qed

lemma create_event_nodes_up:
  assumes "up_ok base l0 (SEvent ` {0..<MAX_USER_IRQ} \<union> T) s" and "T \<inter> range SEvent = {}"
  shows "\<exists>s'. create_event_nodes s = Some s' \<and> up_ok base l0 T s'"
proof -
  have "\<exists>s'. create_event_nodes s = Some s' \<and> up_ok base l0 (SEvent ` {0 + MAX_USER_IRQ..<MAX_USER_IRQ} \<union> T) s'"
    unfolding create_event_nodes_def
  proof (rule for_range_total[where P = "\<lambda>k. up_ok base l0 (SEvent ` {k..<MAX_USER_IRQ} \<union> T)", OF assms(1)])
    fix k :: nat and s :: up
    assume k: "k < 0 + MAX_USER_IRQ" and u: "up_ok base l0 (SEvent ` {k..<MAX_USER_IRQ} \<union> T) s"
    obtain lro drv w where s: "s = (lro, drv, w)" by (cases s)
    from create_node[OF u[unfolded s], of "SEvent k" None CHAR_EVENTS "int k"] k obtain q lro' drv' w' where
      c: "create_sg_char lro (int k) None CHAR_EVENTS drv w = Some (q, lro', drv', w')"
        "up_ok base l0 (SEvent ` {k..<MAX_USER_IRQ} \<union> T - {SEvent k}) (slot_put (SEvent k) q lro', drv', w')"
      by (auto simp: gen_dev_minor_def)
    have "length (events_char_dev lro') = MAX_USER_IRQ" using up_okD(1)[OF c(2)] by simp
    moreover have "SEvent ` {Suc k..<MAX_USER_IRQ} \<union> T \<subseteq> SEvent ` {k..<MAX_USER_IRQ} \<union> T - {SEvent k}" using assms(2) by auto
    ultimately show "\<exists>s'. (case s of (lro, drv, w) \<Rightarrow> do {
         (p, lro, drv, w) \<leftarrow> create_sg_char lro (int k) None CHAR_EVENTS drv w;
         ps \<leftarrow> arr_set (events_char_dev lro) k p;
         Some (lro\<lparr>events_char_dev := ps\<rparr>, drv, w) }) = Some s' \<and> up_ok base l0 (SEvent ` {Suc k..<MAX_USER_IRQ} \<union> T) s'"
      using up_ok_less[OF c(2)] c(1) s k by (simp add: arr_set_def)
  qed
  then show ?thesis by auto
qed

lemma channel_nodes_up:
  assumes "up_ok base l0 (f ` {0..<XDMA_CHANNEL_NUM_MAX} \<union> T) s" and "T \<inter> range f = {}" and "inj f"
    and create: "\<And>e ch T s. up_ok base l0 T s \<Longrightarrow> f ch \<in> T \<Longrightarrow> number_in_channel e < 2 \<Longrightarrow>
      \<exists>rc s'. create e ch s = Some (rc, s') \<and> up_ok base l0 (T - {f ch}) s'"
  shows "\<exists>r s'. channel_nodes d wanted create s = Some (r, s') \<and> up_ok base l0 T s'"
proof -
  let ?P = "\<lambda>k. up_ok base l0 (f ` {k..<XDMA_CHANNEL_NUM_MAX} \<union> T)"
  have "\<exists>r s'. channel_nodes d wanted create s = Some (r, s') \<and>
      (case r of None \<Rightarrow> ?P (0 + XDMA_CHANNEL_NUM_MAX) s' | Some e \<Rightarrow> up_ok base l0 T s')"
    unfolding channel_nodes_def
  proof (rule for_try_total[where P = ?P, OF assms(1)])
    fix k :: nat and s :: up
    assume k: "k < 0 + XDMA_CHANNEL_NUM_MAX" and u: "?P k s"
    obtain lro drv w where s: "s = (lro, drv, w)" by (cases s)
    have rest: "?P (Suc k) s'" "up_ok base l0 T s'" if "up_ok base l0 (f ` {k..<XDMA_CHANNEL_NUM_MAX} \<union> T - {f k}) s'" for s'
      using that assms(2) by (auto elim!: up_ok_less simp: inj_eq[OF assms(3)])
    have skip: "?P (Suc k) s" using u by (rule up_ok_less) auto
    show "\<exists>r s'. (case engine (fst s) k d of
        Some e \<Rightarrow> if wanted (fst s) then do { (rc, s) \<leftarrow> create e k s; Some (if rc \<noteq> 0 then Some rc else None, s) } else Some (None, s)
      | None \<Rightarrow> Some (None, s)) = Some (r, s') \<and> (case r of None \<Rightarrow> ?P (Suc k) s' | Some e \<Rightarrow> up_ok base l0 T s')"
    proof (cases "engine lro k d")
      case (Some e)
      with up_okD(5)[OF u[unfolded s]] have "number_in_channel e < 2" .
      from create[OF u _ this, of k] k obtain rc s' where "create e k s = Some (rc, s')"
        "up_ok base l0 (f ` {k..<XDMA_CHANNEL_NUM_MAX} \<union> T - {f k}) s'" by auto
      with Some s skip rest[of s'] show ?thesis by (cases s') auto
    qed (use s skip in auto)
  qed
  then show ?thesis by (fastforce split: option.splits)
qed

lemma create_engine_interface_up:
  assumes "up_ok base l0 T s" and "SSg ch (if to_dev then 0 else 1) \<in> T" and "number_in_channel e < 2"
  shows "\<exists>rc s'. create_engine_interface e ch to_dev s = Some (rc, s') \<and> up_ok base l0 (T - {SSg ch (if to_dev then 0 else 1)}) s'"
proof -
  obtain lro drv w where s: "s = (lro, drv, w)" by (cases s)
  from create_node[OF assms(1)[unfolded s] assms(2), of "Some e" "if to_dev then CHAR_XDMA_H2C else CHAR_XDMA_C2H" "-1"] assms(3) s
  show ?thesis by (auto simp: create_engine_interface_def gen_dev_minor_def Let_def split: if_splits)
qed

lemma create_bypass_interface_up:
  assumes "up_ok base l0 T s" and "SByp ch (if to_dev then 0 else 1) \<in> T" and "number_in_channel e < 2"
  shows "\<exists>rc s'. create_bypass_interface e ch to_dev s = Some (rc, s') \<and> up_ok base l0 (T - {SByp ch (if to_dev then 0 else 1)}) s'"
proof -
  obtain lro drv w where s: "s = (lro, drv, w)" by (cases s)
  from create_node[OF assms(1)[unfolded s] assms(2), of "Some e" "if to_dev then CHAR_BYPASS_H2C else CHAR_BYPASS_C2H" "bypass_bar_idx lro"] assms(3) s
  show ?thesis by (auto simp: create_bypass_interface_def gen_dev_minor_def Let_def split: if_splits)
qed

lemma create_bypass_base_up:
  assumes "up_ok base l0 {SBase} s"
  shows "\<exists>s'. create_bypass_base s = Some s' \<and> up_ok base l0 {} s'"
proof -
  obtain lro drv w where s: "s = (lro, drv, w)" by (cases s)
  show ?thesis
  proof (cases "bypass_bar_idx lro < 0")
    case True
    have "slot_get lro SBase = 0" using assms s by (auto dest: up_okD(7)[of _ _ _ lro drv w SBase])
    then have "lro\<lparr>bypass_char_dev_base := 0\<rparr> = lro" by simp
    with True s up_ok_less[OF assms(1)] show ?thesis by (auto simp: create_bypass_base_def)
  next
    case False
    from create_node[OF assms(1)[unfolded s], of SBase None CHAR_BYPASS "bypass_bar_idx lro"] False s show ?thesis
      by (auto simp: create_bypass_base_def gen_dev_minor_def)
  qed
qed

lemma interfaces_fail_up:
  assumes "up_ok base l0 T s"
  shows "\<exists>lro' drv' w' l. interfaces_fail s = Some (-1, lro', drv', w') \<and> io w' = l0 @ l \<and> chars drv' = base \<and> settled l"
proof -
  obtain lro drv w where s: "s = (lro, drv, w)" by (cases s)
  from up_ok_destroy[OF assms[unfolded s]] s show ?thesis by (auto simp: interfaces_fail_def)
qed


text \<open>The outcome of \<^verbatim>\<open>create_interfaces\<close>.\<close>

definition brought_up :: "(u64 \<rightharpoonup> xdma_char) \<Rightarrow> io list \<Rightarrow> (int \<times> up) option \<Rightarrow> bool" where
  "brought_up base l0 r \<longleftrightarrow> (\<exists>rc lro drv w. r = Some (rc, lro, drv, w) \<and>
     (if rc = 0 then up_ok base l0 {} (lro, drv, w) else \<exists>l. io w = l0 @ l \<and> chars drv = base \<and> settled l))"

lemma brought_up_fail: "up_ok base l0 T s \<Longrightarrow> brought_up base l0 (interfaces_fail s)"
  using interfaces_fail_up[of base l0 T s] unfolding brought_up_def by fastforce

lemma create_interfaces_up:
  assumes "up_ok base l0 (set all_slots) s"
  shows "brought_up base l0 (create_interfaces s)"
proof -
  let ?N = XDMA_CHANNEL_NUM_MAX
  define T7 T6 T5 T4 T3 T2 T1 where
    "T7 = {SBase}" and "T6 = (\<lambda>c. SByp c 1) ` {0..<?N} \<union> T7" and "T5 = (\<lambda>c. SByp c 0) ` {0..<?N} \<union> T6" and
    "T4 = (\<lambda>c. SSg c 1) ` {0..<?N} \<union> T5" and "T3 = (\<lambda>c. SSg c 0) ` {0..<?N} \<union> T4" and
    "T2 = SEvent ` {0..<MAX_USER_IRQ} \<union> T3" and "T1 = insert SCtrl T2"
  note T = T7_def T6_def T5_def T4_def T3_def T2_def T1_def
  have "up_ok base l0 (insert SUser T1) s" using assms by (rule up_ok_less) (auto simp: T)
  from create_user_node_up[OF this] obtain b1 s1 where 1: "create_user_node s = Some (b1, s1)" "up_ok base l0 T1 s1" by (auto simp: T)
  from create_ctrl_node_up[OF 1(2)[unfolded T1_def]] obtain b2 s2 where 2: "create_ctrl_node s1 = Some (b2, s2)" "up_ok base l0 T2 s2"
    by (auto simp: T)
  from create_event_nodes_up[OF 2(2)[unfolded T2_def]] obtain s3 where 3: "create_event_nodes s2 = Some s3" "up_ok base l0 T3 s3"
    by (auto simp: T)
  have 4: "\<exists>r s4. channel_nodes 0 (\<lambda>_. True) (\<lambda>e ch. create_engine_interface e ch True) s3 = Some (r, s4) \<and> up_ok base l0 T4 s4"
    by (rule channel_nodes_up[OF 3(2)[unfolded T3_def]]) (auto simp: T inj_def intro: create_engine_interface_up[where to_dev = True, simplified])
  have 5: "\<exists>r s5. channel_nodes 1 (\<lambda>_. True) (\<lambda>e ch. create_engine_interface e ch False) s4 = Some (r, s5) \<and> up_ok base l0 T5 s5"
    if "up_ok base l0 T4 s4" for s4
    by (rule channel_nodes_up[OF that[unfolded T4_def]]) (auto simp: T inj_def intro: create_engine_interface_up[where to_dev = False, simplified])
  have 6: "\<exists>r s6. channel_nodes 0 (\<lambda>lro. bypass_bar_idx lro \<ge> 0) (\<lambda>e ch. create_bypass_interface e ch True) s5 = Some (r, s6) \<and>
      up_ok base l0 T6 s6" if "up_ok base l0 T5 s5" for s5
    by (rule channel_nodes_up[OF that[unfolded T5_def]]) (auto simp: T inj_def intro: create_bypass_interface_up[where to_dev = True, simplified])
  have 7: "\<exists>r s7. channel_nodes 1 (\<lambda>lro. bypass_bar_idx lro \<ge> 0) (\<lambda>e ch. create_bypass_interface e ch False) s6 = Some (r, s7) \<and>
      up_ok base l0 T7 s7" if "up_ok base l0 T6 s6" for s6
    by (rule channel_nodes_up[OF that[unfolded T6_def]]) (auto simp: T inj_def intro: create_bypass_interface_up[where to_dev = False, simplified])
  from 4 obtain r4 s4 where 4: "channel_nodes 0 (\<lambda>_. True) (\<lambda>e ch. create_engine_interface e ch True) s3 = Some (r4, s4)" "up_ok base l0 T4 s4" by blast
  from 5[OF this(2)] obtain r5 s5 where 5: "channel_nodes 1 (\<lambda>_. True) (\<lambda>e ch. create_engine_interface e ch False) s4 = Some (r5, s5)" "up_ok base l0 T5 s5" by blast
  from 6[OF this(2)] obtain r6 s6 where 6: "channel_nodes 0 (\<lambda>lro. bypass_bar_idx lro \<ge> 0) (\<lambda>e ch. create_bypass_interface e ch True) s5 = Some (r6, s6)"
    "up_ok base l0 T6 s6" by blast
  from 7[OF this(2)] obtain r7 s7 where 7: "channel_nodes 1 (\<lambda>lro. bypass_bar_idx lro \<ge> 0) (\<lambda>e ch. create_bypass_interface e ch False) s6 = Some (r7, s7)"
    "up_ok base l0 T7 s7" by blast
  from create_bypass_base_up[OF 7(2)[unfolded T7_def]] obtain s8 where 8: "create_bypass_base s7 = Some s8" "up_ok base l0 {} s8" by blast
  have "brought_up base l0 (Some (0, s8))" using 8(2) by (cases s8) (auto simp: brought_up_def)
  then show ?thesis
    unfolding create_interfaces_def using 1 2 3 4 5 6 7 8(1) by (simp add: brought_up_fail)
qed


text \<open>An allocator that hands out the position in the history, unless it is in use.\<close>

definition position_alloc :: "io list \<Rightarrow> kcall \<Rightarrow> u64" where
  "position_alloc l c = (let p = of_nat (length l + 1) in
     case c of C_kzalloc _ \<Rightarrow> if p \<in># tally mem_got l - tally mem_freed l then 0 else p | _ \<Rightarrow> 8)"

lemma mem_got_nonzero: "0 \<notin># tally mem_got l"
proof (induction l)
  case (Cons x l)
  have "0 \<notin># mem_got x" by (cases x rule: mem_got.cases) auto
  with Cons show ?case by simp
qed simp

lemma position_alloc_ok: "alloc_ok position_alloc"
  unfolding alloc_ok_def using mem_got_nonzero by (auto simp: position_alloc_def Let_def dest: in_diffD)


end
