(* ===== verification/Xdma_Account.thy ===== *)
theory Xdma_Account
  imports Xdma_Nodes
begin

text \<open>
  An account of what a device takes from the bus between \<^verbatim>\<open>probe\<close> and \<^verbatim>\<open>remove\<close> of \<^verbatim>\<open>xdma-core.c\<close>: the device and
  engine structures, the enabled device, its regions, mapped BARs, message interrupts, interrupt lines and write-back
  buffers. The nodes of a device have an account of their own, in \<^verbatim>\<open>Xdma_Nodes\<close>. The operations that leave the account alone,
  and those that map and unmap BARs, request and free lines, set up and remove engines.
\<close>

section \<open>The account\<close>

text \<open>When its regions are refused, the device is in use and stays enabled for whoever uses it: the refusal hands the enabled device over.\<close>

datatype resource = R_dev | R_enabled | R_regions | R_msi | R_msix | R_bar u64 | R_line u32 | R_engine | R_wb

fun acquired :: "io \<Rightarrow> resource multiset" where
  "acquired (KP (C_kzalloc s) p) =
    (if p = 0 then {#} else if s = ''xdma_dev'' then {#R_dev#} else if s = ''xdma_engine'' then {#R_engine#} else {#})"
| "acquired (KI (C_pci s) r) =
    (if r \<noteq> 0 then {#} else if s = ''pci_enable_device'' then {#R_enabled#} else if s = ''pci_request_regions'' then {#R_regions#}
     else if s = ''pci_enable_msi'' then {#R_msi#} else if s = ''pci_enable_msix'' then {#R_msix#} else {#})"
| "acquired (KI (C_request_irq v) r) = (if r = 0 then {#R_line v#} else {#})"
| "acquired (KP (C_pci_iomap _ _) p) = (if p = 0 then {#} else {#R_bar p#})"
| "acquired (KP (C_pci_alloc_consistent _) p) = (if p = 0 then {#} else {#R_wb#})"
| "acquired _ = {#}"

fun released :: "io \<Rightarrow> resource multiset" where
  "released (KV (C_misc s n)) = (if s = ''kfree lro'' then {#R_dev#} else if s = ''kfree engine'' then {#R_engine#} else {#})"
| "released (KV (C_pci s)) =
    (if s = ''pci_disable_device'' then {#R_enabled#} else if s = ''pci_release_regions'' then {#R_regions#}
     else if s = ''pci_disable_msi'' then {#R_msi#} else if s = ''pci_disable_msix'' then {#R_msix#} else {#})"
| "released (KI (C_pci s) r) = (if s = ''pci_request_regions'' \<and> r \<noteq> 0 then {#R_enabled#} else {#})"
| "released (KV (C_free_irq v)) = {#R_line v#}"
| "released (KV (C_pci_iounmap p)) = {#R_bar p#}"
| "released (KV (C_pci_free_consistent _ _)) = {#R_wb#}"
| "released _ = {#}"

definition quiet :: "io \<Rightarrow> bool" where
  "quiet e \<longleftrightarrow> acquired e = {#} \<and> released e = {#}"

text \<open>The world \<open>w\<close> differs from \<open>w0\<close> by a history in which \<open>H\<close> was taken and not given back. The kernel is the same.\<close>

definition owes :: "world \<Rightarrow> resource multiset \<Rightarrow> world \<Rightarrow> bool" where
  "owes w0 H w \<longleftrightarrow> kint w = kint w0 \<and> kptr w = kptr w0 \<and> poll_mode w = poll_mode w0 \<and>
     (\<exists>l. io w = io w0 @ l \<and> tally acquired l = tally released l + H)"

definition hushed :: "world \<Rightarrow> world \<Rightarrow> bool" where
  "hushed w0 w \<longleftrightarrow> kint w = kint w0 \<and> kptr w = kptr w0 \<and> poll_mode w = poll_mode w0 \<and>
     (\<exists>l. io w = io w0 @ l \<and> list_all quiet l)"

lemma hushed_refl [simp]: "hushed w w"
  by (simp add: hushed_def)

lemma hushed_emit: "hushed w0 w \<Longrightarrow> quiet e \<Longrightarrow> hushed w0 (emit e w)"
  by (auto simp: hushed_def)

lemma owes_refl: "owes w {#} w"
  by (simp add: owes_def)

lemma quiet_tally:
  assumes "list_all quiet l"
  shows "tally acquired l = {#}" "tally released l = {#}"
  using assms by (auto intro!: tally_none[of quiet] simp: quiet_def)

lemma owes_hushed: "owes w0 H w \<Longrightarrow> hushed w w' \<Longrightarrow> owes w0 H w'"
  by (auto simp: owes_def hushed_def quiet_tally)

lemma owes_emit: "owes w0 H w \<Longrightarrow> H + acquired e = released e + H' \<Longrightarrow> owes w0 H' (emit e w)"
proof -
  assume "owes w0 H w" and e: "H + acquired e = released e + H'"
  then obtain l where l: "kint w = kint w0" "kptr w = kptr w0" "poll_mode w = poll_mode w0" "io w = io w0 @ l"
    "tally acquired l = tally released l + H" by (auto simp: owes_def)
  have "tally acquired (l @ [e]) = tally released (l @ [e]) + H'" using l(5) e by (simp add: ac_simps)
  with l show ?thesis by (auto simp: owes_def)
qed

section \<open>Quiet operations\<close>

text \<open>Calls that only compute.\<close>

lemma ensures_pure:
  "(\<And>x. Q x) \<Longrightarrow> ensures (config_bar lro) Q" "(\<And>x. Q x) \<Longrightarrow> ensures (int_ctrl lro r) Q"
  "(\<And>x. Q' x) \<Longrightarrow> ensures (gen_dev_minor eo type b) Q'" "(\<And>x. Q'' x) \<Longrightarrow> ensures (dev_slot xs i) Q''"
  by (auto simp: ensures_def)

lemma hush_prims:
  "hushed w0 w \<Longrightarrow> hushed w0 (write_register v a w)" "hushed w0 w \<Longrightarrow> hushed w0 (snd (read_register a w))"
  "hushed w0 w \<Longrightarrow> (\<And>r. quiet (KI c r)) \<Longrightarrow> hushed w0 (snd (call_int c w))"
  "hushed w0 w \<Longrightarrow> (\<And>p. quiet (KP c p)) \<Longrightarrow> hushed w0 (snd (call_ptr c w))"
  "hushed w0 w \<Longrightarrow> quiet (KV c) \<Longrightarrow> hushed w0 (call_void c w)"
  by (auto simp: io_prim_defs Let_def quiet_def intro: hushed_emit)

lemmas hush_intros = hush_prims ensures_pure

lemma hush_interrupts:
  assumes "hushed w0 w"
  shows "ensures (user_interrupts_enable lro m w) (hushed w0)" "ensures (user_interrupts_disable lro m w) (hushed w0)"
    "ensures (channel_interrupts_enable lro m w) (hushed w0)" "ensures (channel_interrupts_disable lro m w) (hushed w0)"
    "ensures (read_interrupts lro w) (\<lambda>(v, w'). hushed w0 w')" "ensures (enable_credit_feature lro w) (hushed w0)"
  using assms unfolding user_interrupts_enable_def user_interrupts_disable_def channel_interrupts_enable_def
    channel_interrupts_disable_def read_interrupts_def enable_credit_feature_def Let_def split_def
  by (auto intro!: hush_intros)

lemma hush_set_dma_mask: "hushed w0 w \<Longrightarrow> hushed w0 (snd (set_dma_mask w))"
  by (auto simp: set_dma_mask_def Let_def split_def quiet_def intro!: hush_intros)

lemma hush_go_live: "hushed w0 w \<Longrightarrow> ensures (go_live p c lro eo type drv w) (\<lambda>(q, drv', w'). hushed w0 w')"
  by (auto simp: go_live_def create_dev_def kfree_char_def unregister_chrdev_region_def Let_def split_def quiet_def intro!: hush_intros)

lemma hush_config_kobject: "hushed w0 w \<Longrightarrow> ensures (config_kobject c lro eo type w) (\<lambda>(rc, w'). hushed w0 w')"
  by (cases eo) (auto simp: config_kobject_def quiet_def split_def intro!: hush_intros)

lemma hush_register_node: "hushed w0 w \<Longrightarrow> ensures (register_node p lro b eo type drv w) (\<lambda>(q, drv', w'). hushed w0 w')"
  by (auto simp: register_node_def kfree_char_def Let_def split_def quiet_def
      intro!: hush_intros ensures_mono[OF hush_config_kobject] hush_go_live[unfolded split_def])

lemma hush_destroy_if: "hushed w0 (snd s) \<Longrightarrow> ensures (destroy_if p s) (\<lambda>s'. hushed w0 (snd s'))"
  by (auto simp: destroy_if_def destroy_sg_char_def kfree_char_def unregister_chrdev_region_def Let_def split_def quiet_def ensures_def
      bind_eq_Some_conv intro!: hush_intros)

lemma hush_destroy_interfaces: "hushed w0 (snd s) \<Longrightarrow> ensures (destroy_interfaces lro s) (\<lambda>s'. hushed w0 (snd s'))"
  unfolding destroy_interfaces_def
  by (auto intro!: hush_intros ensures_mono[OF hush_destroy_if] hush_destroy_if
      ensures_mono[OF ensures_for_range[where P = "\<lambda>_ s. hushed w0 (snd s)"]])


text \<open>Creating nodes changes the numbers and the slots of a device, and nothing else of it.\<close>

definition node_frame :: "xdma_dev \<Rightarrow> xdma_dev \<Rightarrow> bool" where
  "node_frame lro lro' \<longleftrightarrow> bar lro' = bar lro \<and> config_bar_idx lro' = config_bar_idx lro \<and> regions_in_use lro' = regions_in_use lro \<and>
     got_regions lro' = got_regions lro \<and> irq_line lro' = irq_line lro \<and> msi_enabled lro' = msi_enabled lro \<and>
     msix_enabled lro' = msix_enabled lro \<and> entry_vector lro' = entry_vector lro \<and> engine lro' = engine lro"

abbreviation calm :: "world \<Rightarrow> xdma_dev \<Rightarrow> up \<Rightarrow> bool" where
  "calm w0 l0 s \<equiv> hushed w0 (snd (snd s)) \<and> node_frame l0 (fst s)"

lemma node_frame_refl [simp]: "node_frame lro lro"
  by (simp add: node_frame_def)

lemma new_instance_calm:
  "hushed w0 w \<Longrightarrow> node_frame l0 lro \<Longrightarrow>
    ensures (new_instance lro drv w) (\<lambda>r. case r of None \<Rightarrow> True | Some (lro', drv', w') \<Rightarrow> hushed w0 w' \<and> node_frame l0 lro')"
  by (auto simp: new_instance_def gen_dev_major_def node_frame_def Let_def split_def quiet_def intro!: hush_intros)

lemma create_sg_char_calm:
  assumes "hushed w0 w" and "node_frame l0 lro"
  shows "ensures (create_sg_char lro b eo type drv w) (\<lambda>(q, s). calm w0 l0 s)"
  using assms
  by (auto simp: create_sg_char_def kfree_char_def Let_def split_def quiet_def split: option.splits
      intro!: hush_intros ensures_mono[OF new_instance_calm] ensures_mono[OF hush_register_node[unfolded split_def]])

lemma create_user_node_calm: "calm w0 l0 s \<Longrightarrow> ensures (create_user_node s) (\<lambda>(b, s'). calm w0 l0 s')"
  by (auto simp: create_user_node_def split_def node_frame_def intro!: ensures_mono[OF create_sg_char_calm[unfolded split_def]])

lemma create_ctrl_node_calm: "calm w0 l0 s \<Longrightarrow> ensures (create_ctrl_node s) (\<lambda>(b, s'). calm w0 l0 s')"
  by (auto simp: create_ctrl_node_def split_def node_frame_def intro!: ensures_mono[OF create_sg_char_calm[unfolded split_def]])


lemma create_event_nodes_calm: "calm w0 l0 s \<Longrightarrow> ensures (create_event_nodes s) (calm w0 l0)"
  unfolding create_event_nodes_def
  by (rule ensures_mono[OF ensures_for_range[where P = "\<lambda>_. calm w0 l0"]])
    (auto simp: split_def node_frame_def intro!: ensures_mono[OF create_sg_char_calm[unfolded split_def]])

lemma create_engine_interface_calm: "calm w0 l0 s \<Longrightarrow> ensures (create_engine_interface e ch d s) (\<lambda>(rc, s'). calm w0 l0 s')"
  by (auto simp: create_engine_interface_def Let_def split_def node_frame_def intro!: ensures_mono[OF create_sg_char_calm[unfolded split_def]])

lemma create_bypass_interface_calm: "calm w0 l0 s \<Longrightarrow> ensures (create_bypass_interface e ch d s) (\<lambda>(rc, s'). calm w0 l0 s')"
  by (auto simp: create_bypass_interface_def Let_def split_def node_frame_def intro!: ensures_mono[OF create_sg_char_calm[unfolded split_def]])

lemma channel_nodes_calm:
  assumes "calm w0 l0 s" and c: "\<And>e ch s. calm w0 l0 s \<Longrightarrow> ensures (create e ch s) (\<lambda>(rc, s'). calm w0 l0 s')"
  shows "ensures (channel_nodes d wanted create s) (\<lambda>(r, s'). calm w0 l0 s')"
proof -
  have "ensures (channel_nodes d wanted create s) (\<lambda>(r, s'). case r of None \<Rightarrow> calm w0 l0 s' | Some e \<Rightarrow> calm w0 l0 s')"
    unfolding channel_nodes_def
    by (rule ensures_for_try[where P = "\<lambda>_. calm w0 l0" and Q = "\<lambda>_. calm w0 l0"])
      (use assms(1) in \<open>auto simp: split_def split: option.splits intro!: ensures_mono[OF c]\<close>)
  then show ?thesis by (auto simp: ensures_def split: option.splits)
qed

lemma create_bypass_base_calm: "calm w0 l0 s \<Longrightarrow> ensures (create_bypass_base s) (calm w0 l0)"
  by (auto simp: create_bypass_base_def split_def node_frame_def intro!: ensures_mono[OF create_sg_char_calm[unfolded split_def]])

lemma interfaces_fail_calm: "calm w0 l0 s \<Longrightarrow> ensures (interfaces_fail s) (\<lambda>(rc, s'). calm w0 l0 s')"
  by (auto simp: interfaces_fail_def split_def intro!: ensures_mono[OF hush_destroy_interfaces])

lemma create_interfaces_calm:
  assumes "calm w0 l0 s"
  shows "ensures (create_interfaces s) (\<lambda>(rc, s'). calm w0 l0 s')"
  using assms unfolding create_interfaces_def
  by (auto simp: split_def intro!: ensures_mono[OF create_user_node_calm] ensures_mono[OF create_ctrl_node_calm]
      ensures_mono[OF create_event_nodes_calm] ensures_mono[OF create_bypass_base_calm] interfaces_fail_calm[unfolded split_def]
      ensures_mono[OF channel_nodes_calm] create_engine_interface_calm create_bypass_interface_calm)

section \<open>Bars, lines and engines\<close>

definition bars :: "xdma_dev \<Rightarrow> resource multiset" where
  "bars lro = image_mset R_bar (bm.held lro)"

text \<open>Mapping BARs changes nothing else the account depends on.\<close>

definition bar_frame :: "xdma_dev \<Rightarrow> xdma_dev \<Rightarrow> bool" where
  "bar_frame lro lro' \<longleftrightarrow> regions_in_use lro' = regions_in_use lro \<and> got_regions lro' = got_regions lro \<and> irq_line lro' = irq_line lro \<and>
     msi_enabled lro' = msi_enabled lro \<and> msix_enabled lro' = msix_enabled lro \<and> entry_vector lro' = entry_vector lro \<and>
     engine lro' = engine lro \<and> engines_num lro' = engines_num lro"

definition bars_at :: "world \<Rightarrow> resource multiset \<Rightarrow> xdma_dev \<Rightarrow> nat \<Rightarrow> xdma_dev \<times> world \<Rightarrow> bool" where
  "bars_at w0 H l0 k s \<longleftrightarrow> (case s of (lro, w) \<Rightarrow> owes w0 (H + bars lro) w \<and> bar_frame l0 lro \<and> length (bar lro) = XDMA_BAR_NUM \<and>
     (\<forall>j. k \<le> j \<and> j < XDMA_BAR_NUM \<longrightarrow> bar lro ! j = 0))"

lemma map_single_bar_owes:
  assumes "bars_at w0 H l0 k (lro, w)" and "k < XDMA_BAR_NUM"
  shows "ensures (map_single_bar dev k lro w) (\<lambda>(n, s). bars_at w0 H l0 (Suc k) s)"
proof -
  have a: "owes w0 (H + bars lro) w" "length (bar lro) = XDMA_BAR_NUM" "bar lro ! k = 0" "bar_frame l0 lro"
    "\<And>j. Suc k \<le> j \<Longrightarrow> j < XDMA_BAR_NUM \<Longrightarrow> bar lro ! j = 0" using assms by (auto simp: bars_at_def)
  have b0: "(bar lro)[k := 0] = bar lro" using a(3) by (metis list_update_id)
  have put: "bars_at w0 H l0 (Suc k) (lro\<lparr>bar := (bar lro)[k := p]\<rparr>, emit (KP (C_pci_iomap k n) p) w)" for p n
  proof -
    have h: "bm.held (lro\<lparr>bar := (bar lro)[k := p]\<rparr>) = bm.held lro + (if p = 0 then {#} else {#p#})"
      by (rule bm.held_put) (use a assms(2) in auto)
    have "owes w0 (H + bars (lro\<lparr>bar := (bar lro)[k := p]\<rparr>)) (emit (KP (C_pci_iomap k n) p) w)"
      by (rule owes_emit[OF a(1)]) (simp add: bars_def h)
    with a show ?thesis by (simp add: bars_at_def bar_frame_def)
  qed
  have "bars_at w0 H l0 (Suc k) (lro, w)" using a by (simp add: bars_at_def)
  with a(2) put b0 assms(2) show ?thesis by (auto simp: map_single_bar_def call_ptr_def Let_def)
qed

lemma is_config_bar_hush: "ensures (is_config_bar k lro w) (\<lambda>(f, w'). hushed w w')"
  by (auto simp: is_config_bar_def Let_def split_def intro!: hush_intros)

lemma bars_at_hushed: "bars_at w0 H l0 k (lro, w) \<Longrightarrow> hushed w w' \<Longrightarrow> bars_at w0 H l0 k (lro\<lparr>config_bar_idx := c\<rparr>, w')"
  "bars_at w0 H l0 k (lro, w) \<Longrightarrow> hushed w w' \<Longrightarrow> bars_at w0 H l0 k (lro, w')"
  by (auto simp: bars_at_def bars_def bar_frame_def bm.held_def intro: owes_hushed)

lemma map_bar_step_owes:
  assumes "bars_at w0 H l0 k (lro, w)" and "k < XDMA_BAR_NUM"
  shows "ensures (map_bar_step dev k (lro, ids, pos, w)) (\<lambda>(r, lro', ids', pos', w'). bars_at w0 H l0 (Suc k) (lro', w'))"
  unfolding map_bar_step_def prod.case ensures_simps
  by (rule ensures_mono[OF map_single_bar_owes[OF assms]])
    (auto simp: split_def intro: bars_at_hushed intro!: ensures_mono[OF is_config_bar_hush])

lemma unmap_bars_owes:
  assumes "bars_at w0 H l0 XDMA_BAR_NUM (lro, w)"
  shows "ensures (unmap_bars lro w) (\<lambda>(lro', w'). owes w0 H w' \<and> bar_frame l0 lro')"
proof -
  let ?P = "\<lambda>k (lro :: xdma_dev, w :: world). owes w0 (H + bars lro) w \<and> bar_frame l0 lro \<and> length (bar lro) = XDMA_BAR_NUM \<and> (\<forall>j<k. bar lro ! j = 0)"
  have "ensures (for_range 0 XDMA_BAR_NUM unmap_one (lro, w)) (?P (0 + XDMA_BAR_NUM))"
  proof (rule ensures_for_range)
    show "?P 0 (lro, w)" using assms by (simp add: bars_at_def)
    fix k :: nat and s assume k: "k < 0 + XDMA_BAR_NUM" and P: "?P k s"
    obtain x v where s: "s = (x, v)" by (cases s)
    let ?x = "x\<lparr>bar := (bar x)[k := 0]\<rparr>"
    have "owes w0 (H + bars ?x) (emit (KV (C_pci_iounmap (bar x ! k))) v)" if "bar x ! k \<noteq> 0"
    proof (rule owes_emit)
      show "owes w0 (H + bars x) v" using P s by simp
      have "bm.held x = bm.held ?x + {#bar x ! k#}" by (rule bm.held_drop) (use P s k that in auto)
      then show "H + bars x + acquired (KV (C_pci_iounmap (bar x ! k))) = released (KV (C_pci_iounmap (bar x ! k))) + (H + bars ?x)"
        by (simp add: bars_def)
    qed
    then show "ensures (unmap_one k s) (?P (Suc k))"
      using P k by (auto simp: s unmap_one_def call_void_def bar_frame_def nth_list_update less_Suc_eq)
  qed
  moreover have "bars lro = {#}" if "length (bar lro) = XDMA_BAR_NUM" "\<forall>j<XDMA_BAR_NUM. bar lro ! j = 0" for lro :: xdma_dev
    using that by (auto simp: bars_def bm.held_def filter_empty_conv in_set_conv_nth)
  ultimately show ?thesis unfolding unmap_bars_def by (auto elim!: ensures_mono)
qed

lemma map_bars_owes:
  assumes "owes w0 H w" and "bar lro = replicate XDMA_BAR_NUM 0"
  shows "ensures (map_bars dev lro w) (\<lambda>(rc, lro', w'). if rc = 0 then bars_at w0 H lro XDMA_BAR_NUM (lro', w')
     else owes w0 H w' \<and> bar_frame lro lro')"
proof -
  let ?P = "\<lambda>k (x :: xdma_dev, ids :: nat list, pos :: nat, v :: world). bars_at w0 H lro k (x, v)"
  have "bars_at w0 H lro 0 (lro, w)" using assms bm.held_empty[OF assms(2)] by (simp add: bars_at_def bars_def bar_frame_def)
  then have "ensures (for_try 0 XDMA_BAR_NUM (map_bar_step dev) (lro, [], 0, w))
      (\<lambda>(r, s). case r of None \<Rightarrow> ?P (0 + XDMA_BAR_NUM) s | Some e \<Rightarrow> ?P XDMA_BAR_NUM s)"
    by (intro ensures_for_try)
      (auto intro!: ensures_mono[OF map_bar_step_owes] split: option.splits simp: bars_at_def)
  moreover have "bars_at w0 H lro XDMA_BAR_NUM (identify_bars ids pos x, v)" if "bars_at w0 H lro XDMA_BAR_NUM (x, v)" for x v ids pos
    using that by (auto simp: identify_bars_def bars_at_def bars_def bar_frame_def bm.held_def split: list.splits)
  ultimately show ?thesis
    unfolding map_bars_def
    by (auto simp: split_def split: option.splits elim!: ensures_mono intro!: ensures_mono[OF unmap_bars_owes])
qed


text \<open>The lines of a device, and of its user interrupts up to number \<open>k\<close>.\<close>

definition vector_lines :: "u32 list \<Rightarrow> resource multiset" where
  "vector_lines vs = image_mset R_line (mset vs)"

definition lines :: "xdma_dev \<Rightarrow> resource multiset" where
  "lines lro = (if msix_enabled lro then vector_lines (take MAX_USER_IRQ (entry_vector lro)) else {#R_line (of_int (irq_line lro))#})"

lemma vector_lines_Suc: "k < length vs \<Longrightarrow> vector_lines (take (Suc k) vs) = vector_lines (take k vs) + {#R_line (vs ! k)#}"
  by (simp add: vector_lines_def take_Suc_conv_app_nth)

lemma free_irqs_below_owes:
  "owes w0 (H + vector_lines (take i (entry_vector lro))) w \<Longrightarrow> i \<le> length (entry_vector lro) \<Longrightarrow> ensures (free_irqs_below lro i w) (owes w0 H)"
proof (induction i arbitrary: w)
  case 0
  then show ?case by (simp add: vector_lines_def)
next
  case (Suc i)
  have "owes w0 (H + vector_lines (take i (entry_vector lro))) (call_void (C_free_irq (entry_vector lro ! i)) w)"
    unfolding call_void_def by (rule owes_emit[OF Suc.prems(1)]) (use Suc.prems(2) in \<open>simp add: vector_lines_Suc\<close>)
  with Suc show ?case by simp
qed

lemma write_msix_vectors_hush: "ensures (write_msix_vectors lro w) (hushed w)"
  by (auto simp: write_msix_vectors_def Let_def intro!: hush_intros)

lemma msix_irq_setup_owes:
  assumes "owes w0 H w" and "MAX_USER_IRQ \<le> length (entry_vector lro)"
  shows "ensures (msix_irq_setup lro w) (\<lambda>(rc, w'). owes w0 (if rc = 0 then H + vector_lines (take MAX_USER_IRQ (entry_vector lro)) else H) w')"
proof -
  let ?P = "\<lambda>k. owes w0 (H + vector_lines (take k (entry_vector lro)))"
  let ?Q = "\<lambda>(i, rc :: int) v. i \<le> length (entry_vector lro) \<and> rc \<noteq> 0 \<and> ?P i v"
  have one: "ensures (msix_request_one lro k v) (\<lambda>(r, v'). case r of None \<Rightarrow> ?P (Suc k) v' | Some e \<Rightarrow> ?Q e v')"
    if "k < MAX_USER_IRQ" "?P k v" for k v
  proof -
    let ?e = "\<lambda>rc. KI (C_request_irq (entry_vector lro ! k)) rc"
    have "?P (Suc k) (emit (?e 0) v)" by (rule owes_emit[OF that(2)]) (use that(1) assms(2) in \<open>simp add: vector_lines_Suc\<close>)
    moreover have "?P k (emit (?e rc) v)" if "rc \<noteq> 0" for rc by (rule owes_emit[OF \<open>?P k v\<close>]) (simp add: that)
    ultimately show ?thesis using that(1) assms(2) by (auto simp: msix_request_one_def call_int_def Let_def)
  qed
  have loop: "ensures (for_try 0 MAX_USER_IRQ (msix_request_one lro) v)
      (\<lambda>(r, v'). case r of None \<Rightarrow> ?P (0 + MAX_USER_IRQ) v' | Some e \<Rightarrow> ?Q e v')" if "hushed w v" for v
    by (rule ensures_for_try) (use one owes_hushed[OF assms(1) that] in \<open>auto simp: vector_lines_def\<close>)
  show ?thesis
    unfolding msix_irq_setup_def ensures_simps
    by (rule ensures_mono[OF write_msix_vectors_hush], rule ensures_mono[OF loop])
      (auto split: option.splits intro!: ensures_mono[OF free_irqs_below_owes])
qed

lemma irq_setup_owes:
  assumes "owes w0 H w" and "MAX_USER_IRQ \<le> length (entry_vector lro)"
  shows "ensures (irq_setup irq lro w) (\<lambda>(rc, lro', w'). owes w0 (if rc = 0 then H + lines lro' else H) w' \<and>
    (if msix_enabled lro then lro' = lro else lro' = lro\<lparr>irq_line := sint irq\<rparr>))"
proof (cases "msix_enabled lro")
  case True
  then show ?thesis unfolding irq_setup_def by (auto simp: lines_def intro!: ensures_mono[OF msix_irq_setup_owes[OF assms]])
next
  case False
  have req: "owes w0 (if rc = 0 then H + {#R_line irq#} else H) (emit (KI (C_request_irq irq) rc) v)" if "hushed w v" for rc v
    by (rule owes_emit[OF owes_hushed[OF assms(1) that]]) simp
  show ?thesis
    unfolding irq_setup_def if_not_P[OF False] ensures_simps(3)
  proof (rule ensures_mono[where P = "hushed w"], goal_cases)
    case 1
    then show ?case by (auto simp: Let_def split_def quiet_def intro!: hush_intros)
  next
    case (2 v)
    from req[OF this, of "kint v (io v) (C_request_irq irq)"] False show ?case by (auto simp: lines_def call_int_def Let_def)
  qed
qed

lemma irq_teardown_owes:
  assumes "owes w0 (H + lines lro) w" and "MAX_USER_IRQ \<le> length (entry_vector lro)" and "msix_enabled lro \<or> irq_line lro \<noteq> -1"
  shows "ensures (irq_teardown lro w) (owes w0 H)"
proof (cases "msix_enabled lro")
  case False
  have "owes w0 H (emit (KV (C_free_irq (of_int (irq_line lro)))) w)"
    by (rule owes_emit[OF assms(1)]) (simp add: lines_def False)
  with False assms(3) show ?thesis by (simp add: irq_teardown_def call_void_def)
next
  case True
  let ?vs = "take MAX_USER_IRQ (entry_vector lro)"
  let ?P = "\<lambda>k. owes w0 (H + vector_lines (drop k ?vs))"
  have "ensures (irq_teardown lro w) (?P (0 + MAX_USER_IRQ))"
    unfolding irq_teardown_def if_P[OF True]
  proof (rule ensures_for_range)
    show "?P 0 w" using assms(1) True by (simp add: lines_def)
    fix k v assume k: "k < 0 + MAX_USER_IRQ" and P: "?P k v"
    have "drop k ?vs = entry_vector lro ! k # drop (Suc k) ?vs"
      using k assms(2) by (simp add: Cons_nth_drop_Suc[symmetric])
    then have "?P (Suc k) (call_void (C_free_irq (entry_vector lro ! k)) v)"
      unfolding call_void_def by (intro owes_emit[OF P]) (simp add: vector_lines_def)
    then show "ensures (do { v' \<leftarrow> arr_get (entry_vector lro) k; Some (call_void (C_free_irq v') v) }) (?P (Suc k))" by simp
  qed
  then show ?thesis by (simp add: vector_lines_def)
qed


text \<open>What an engine holds, and all engines of a device.\<close>

definition engine_held :: "bool \<Rightarrow> xdma_engine \<Rightarrow> resource multiset" where
  "engine_held poll e = {#R_engine#} + (if msix_irq_line e \<noteq> 0 then {#R_line (msix_irq_line e)#} else {#}) +
     (if poll \<and> poll_mode_addr_virt e \<noteq> 0 then {#R_wb#} else {#})"

definition slot_held :: "bool \<Rightarrow> xdma_engine option \<Rightarrow> resource multiset" where
  "slot_held poll eo = (case eo of None \<Rightarrow> {#} | Some e \<Rightarrow> engine_held poll e)"

definition engines_held :: "bool \<Rightarrow> xdma_dev \<Rightarrow> nat \<Rightarrow> resource multiset" where
  "engines_held poll lro k = (\<Sum>c = k..<XDMA_CHANNEL_NUM_MAX. slot_held poll (engine lro c 0) + slot_held poll (engine lro c 1))"

lemma owes_poll: "owes w0 H w \<Longrightarrow> poll_mode w = poll_mode w0"
  by (simp add: owes_def)

lemma kfree_engine_owes: "owes w0 (H + {#R_engine#}) w \<Longrightarrow> owes w0 H (kfree_engine e w)"
  unfolding kfree_engine_def call_void_def by (rule owes_emit) auto

lemma engine_msix_teardown_owes:
  "owes w0 (H + (if msix_irq_line e \<noteq> 0 then {#R_line (msix_irq_line e)#} else {#})) w \<Longrightarrow> owes w0 H (engine_msix_teardown e w)"
  unfolding engine_msix_teardown_def call_void_def by (auto intro: owes_emit)

lemma write_register_owes: "owes w0 H w \<Longrightarrow> owes w0 H (write_register v a w)"
  by (rule owes_hushed) (auto intro: hush_prims)

lemma engine_destroy_owes:
  assumes "owes w0 (H + engine_held (poll_mode w0) e) w"
  shows "\<exists>w'. engine_destroy e (lro, w) = (lro\<lparr>engines_num := engines_num lro - 1\<rparr>, w') \<and> owes w0 H w'"
proof -
  let ?wb = "if poll_mode w0 \<and> poll_mode_addr_virt e \<noteq> 0 then {#R_wb#} else {#}"
  define w1 where "w1 = engine_msix_teardown e (write_register 0 (regs e + er R_interrupt_enable_mask) w)"
  have 1: "owes w0 (H + {#R_engine#} + ?wb) w1"
    unfolding w1_def by (intro engine_msix_teardown_owes write_register_owes) (use assms in \<open>simp add: engine_held_def ac_simps\<close>)
  define w2 where "w2 = (if poll_mode w1 then engine_writeback_teardown e w1 else w1)"
  have "owes w0 (H + {#R_engine#}) w2"
    unfolding w2_def engine_writeback_teardown_def call_void_def using 1 owes_poll[OF 1] by (auto intro: owes_emit[OF 1])
  from kfree_engine_owes[OF this, of e] show ?thesis
    unfolding engine_destroy_def prod.case Let_def w1_def[symmetric] w2_def[symmetric] by blast
qed

lemma engines_held_Suc:
  "k < XDMA_CHANNEL_NUM_MAX \<Longrightarrow>
    engines_held poll lro k = engines_held poll lro (Suc k) + slot_held poll (engine lro k 0) + slot_held poll (engine lro k 1)"
  by (simp add: engines_held_def sum.atLeast_Suc_lessThan ac_simps)

lemma remove_slot_owes:
  assumes "owes w0 (H + slot_held (poll_mode w0) eo) w"
  shows "\<exists>n w'. (case eo of Some e \<Rightarrow> engine_destroy e (lro, w) | None \<Rightarrow> (lro, w)) = (lro\<lparr>engines_num := n\<rparr>, w') \<and> owes w0 H w'"
proof (cases eo)
  case None
  then show ?thesis using assms by (intro exI[of _ "engines_num lro"] exI[of _ w]) (simp add: slot_held_def)
next
  case (Some e)
  then show ?thesis using engine_destroy_owes[of w0 H e w lro] assms by (auto simp: slot_held_def)
qed

lemma remove_engines_owes:
  assumes "owes w0 (H + engines_held (poll_mode w0) lro 0) w"
  shows "ensures (remove_engines lro w) (\<lambda>(lro', w'). owes w0 H w' \<and> (\<exists>n. lro' = lro\<lparr>engines_num := n\<rparr>))"
proof -
  let ?P = "\<lambda>k (x :: xdma_dev, v). owes w0 (H + engines_held (poll_mode w0) lro k) v \<and> (\<exists>n. x = lro\<lparr>engines_num := n\<rparr>)"
  have "ensures (remove_engines lro w) (?P (0 + XDMA_CHANNEL_NUM_MAX))"
    unfolding remove_engines_def
  proof (rule ensures_for_range)
    show "?P 0 (lro, w)" using assms by (auto intro: exI[of _ "engines_num lro"])
    fix k and s :: "xdma_dev \<times> world" assume k: "k < 0 + XDMA_CHANNEL_NUM_MAX" and P: "?P k s"
    obtain x v n where s: "s = (x, v)" "x = lro\<lparr>engines_num := n\<rparr>" using P by (cases s) auto
    let ?h = "\<lambda>d. slot_held (poll_mode w0) (engine lro k d)"
    from P k have "owes w0 (H + engines_held (poll_mode w0) lro (Suc k) + ?h 1 + ?h 0) v"
      by (simp add: s engines_held_Suc ac_simps)
    from remove_slot_owes[OF this, of x] obtain n1 v1 where
      1: "(case engine lro k 0 of Some e \<Rightarrow> engine_destroy e (x, v) | None \<Rightarrow> (x, v)) = (x\<lparr>engines_num := n1\<rparr>, v1)"
        "owes w0 (H + engines_held (poll_mode w0) lro (Suc k) + ?h 1) v1" by blast
    from remove_slot_owes[OF 1(2), of "x\<lparr>engines_num := n1\<rparr>"] obtain n2 v2 where
      2: "(case engine lro k 1 of Some e \<Rightarrow> engine_destroy e (x\<lparr>engines_num := n1\<rparr>, v1) | None \<Rightarrow> (x\<lparr>engines_num := n1\<rparr>, v1)) =
          (x\<lparr>engines_num := n1, engines_num := n2\<rparr>, v2)" "owes w0 (H + engines_held (poll_mode w0) lro (Suc k)) v2" by blast
    show "ensures (let s = (case engine lro k 0 of Some e \<Rightarrow> engine_destroy e s | None \<Rightarrow> s);
         s = (case engine lro k 1 of Some e \<Rightarrow> engine_destroy e s | None \<Rightarrow> s) in Some s) (?P (Suc k))"
      unfolding s(1) Let_def 1(1) 2(1) using 2(2) s(2) by auto
  qed
  then show ?thesis by (auto elim!: ensures_mono simp: engines_held_def)
qed


text \<open>The kernel gives every engine what it asks for: memory, its line, its write-back buffer.\<close>

definition engines_granted :: "world \<Rightarrow> bool" where
  "engines_granted w \<longleftrightarrow> (\<forall>l. kptr w l (C_kzalloc ''xdma_engine'') \<noteq> 0 \<and> (\<forall>v. kint w l (C_request_irq v) = 0) \<and>
     kptr w l (C_pci_alloc_consistent 32) \<noteq> 0)"

lemma owes_same: "owes w0 H w \<Longrightarrow> kint w = kint w0 \<and> kptr w = kptr w0 \<and> poll_mode w = poll_mode w0"
  by (simp add: owes_def)

lemma engine_configure_owes:
  assumes "owes w0 (H + engine_held (poll_mode w0) e) w" and "poll_mode_addr_virt e = 0" and "rx_transfer_cyclic e = 0"
  shows "ensures (engine_configure e w) (\<lambda>(eo, w'). owes w0 (H + slot_held (poll_mode w0) eo) w' \<and> (engines_granted w0 \<longrightarrow> eo \<noteq> None))"
proof -
  define w1 where "w1 = snd (engine_alignments e (write_register XDMA_CTRL_NON_INCR_ADDR (regs e + er R_control_w1c) w))"
  define e1 where "e1 = fst (engine_alignments e (write_register XDMA_CTRL_NON_INCR_ADDR (regs e + er R_control_w1c) w))"
  have e1: "msix_irq_line e1 = msix_irq_line e" "poll_mode_addr_virt e1 = 0" "rx_transfer_cyclic e1 = 0"
    using assms(2,3) by (auto simp: e1_def engine_alignments_def split_def)
  have "hushed w w1" by (auto simp: w1_def engine_alignments_def split_def intro!: hush_prims)
  from owes_hushed[OF assms(1) this] have o1: "owes w0 (H + engine_held (poll_mode w0) e1) w1"
    unfolding engine_held_def e1 assms(2) .
  have al: "engine_alignments e (write_register XDMA_CTRL_NON_INCR_ADDR (regs e + er R_control_w1c) w) = (e1, w1)"
    by (simp add: e1_def w1_def)
  show ?thesis
  proof (cases "poll_mode w0")
    case False
    with o1 owes_poll[OF o1] e1(3) show ?thesis
      unfolding engine_configure_def
      by (simp add: al Let_def slot_held_def write_register_owes)
  next
    case True
    define p where "p = kptr w1 (io w1) (C_pci_alloc_consistent 32)"
    let ?w = "emit (KP (C_pci_alloc_consistent 32) p) w1"
    have fail: "owes w0 H (kfree_engine e' (engine_msix_teardown e' ?w))" if "p = 0" "msix_irq_line e' = msix_irq_line e1" for e'
      by (intro kfree_engine_owes engine_msix_teardown_owes owes_emit[OF o1]) (use that e1(2) in \<open>simp add: engine_held_def ac_simps\<close>)
    have okay: "owes w0 (H + engine_held True e') ?w" if "p \<noteq> 0" "msix_irq_line e' = msix_irq_line e1" "poll_mode_addr_virt e' = p" for e'
      by (rule owes_emit[OF o1]) (use that e1(2) in \<open>simp add: engine_held_def\<close>)
    have g: "p = 0 \<longrightarrow> \<not> engines_granted w0" using owes_same[OF o1] by (auto simp: engines_granted_def p_def)
    show ?thesis
      using True owes_poll[OF o1] e1 fail okay g unfolding engine_configure_def
      by (simp add: al Let_def slot_held_def engine_writeback_setup_def call_ptr_def p_def[symmetric] write_register_owes)
  qed
qed

end
