(* ===== verification/Xdma_Lifecycle.thy ===== *)
theory Xdma_Lifecycle
  imports Xdma_Account
begin

text \<open>
  The life of a device, from \<^verbatim>\<open>probe\<close> to \<^verbatim>\<open>remove\<close> of \<^verbatim>\<open>xdma-core.c\<close>. Each step is followed through the account of
  \<^verbatim>\<open>Xdma_Account\<close>: the engines, the error exits of \<^verbatim>\<open>probe\<close> from the last to the first, \<^verbatim>\<open>probe\<close> as a whole, and
  \<^verbatim>\<open>remove\<close>. A small machine on which a device is probed and removed shows that the hypotheses can hold.
\<close>

section \<open>Creating the engines\<close>

text \<open>The vectors of a device with MSI-X are lines: none of them is 0.\<close>

definition vectors_ok :: "xdma_dev \<Rightarrow> bool" where
  "vectors_ok lro \<longleftrightarrow> length (entry_vector lro) = 32 \<and>
     (msix_enabled lro \<longrightarrow> (\<forall>i < MAX_NUM_ENGINES + MAX_USER_IRQ. entry_vector lro ! i \<noteq> 0))"

lemma engine_line_owes:
  assumes "owes w0 (H + {#R_engine#}) w" and "vectors_ok lro" and "engines_num lro < MAX_NUM_ENGINES"
    and "msix_irq_line e = 0" "poll_mode_addr_virt e = 0" "rx_transfer_cyclic e = 0"
  shows "ensures (if msix_enabled lro then engine_msix_setup lro e w else Some (0, e, w)) (\<lambda>(rc, e', w').
    if rc = 0 then owes w0 (H + engine_held (poll_mode w0) e') w' \<and> poll_mode_addr_virt e' = 0 \<and> rx_transfer_cyclic e' = 0
    else owes w0 (H + {#R_engine#}) w' \<and> \<not> engines_granted w0)"
proof (cases "msix_enabled lro")
  case False
  then show ?thesis using assms by (simp add: engine_held_def)
next
  case True
  define v where "v = entry_vector lro ! (engines_num lro + MAX_USER_IRQ)"
  define rc where "rc = kint w (io w) (C_request_irq v)"
  have v: "v \<noteq> 0" using assms(2,3) True by (simp add: v_def vectors_ok_def)
  have len: "engines_num lro + MAX_USER_IRQ < length (entry_vector lro)" using assms(2,3) by (simp add: vectors_ok_def const_defs)
  have "owes w0 (H + {#R_engine#} + (if rc = 0 then {#R_line v#} else {#})) (emit (KI (C_request_irq v) rc) w)"
    by (rule owes_emit[OF assms(1)]) simp
  moreover have "\<not> engines_granted w0" if "rc \<noteq> 0" using that owes_same[OF assms(1)] by (auto simp: engines_granted_def rc_def)
  ultimately show ?thesis
    using True assms(5,6) v len
    by (cases "rc = 0") (simp_all add: engine_msix_setup_def call_int_def Let_def engine_held_def add_mset_commute flip: v_def rc_def)
qed

lemma engine_create_owes:
  assumes "owes w0 H w" and "vectors_ok lro" and "engines_num lro < MAX_NUM_ENGINES"
  shows "ensures (engine_create lro offset to_dev ch w) (\<lambda>(eo, lro', w'). owes w0 (H + slot_held (poll_mode w0) eo) w' \<and>
    (\<exists>n \<le> Suc (engines_num lro). lro' = lro\<lparr>engines_num := n\<rparr>) \<and> (engines_granted w0 \<longrightarrow> eo \<noteq> None))"
proof -
  define p where "p = kptr w (io w) (C_kzalloc ''xdma_engine'')"
  have o1: "owes w0 (H + (if p = 0 then {#} else {#R_engine#})) (emit (KP (C_kzalloc ''xdma_engine'') p) w)"
    by (rule owes_emit[OF assms(1)]) simp
  have g: "p = 0 \<longrightarrow> \<not> engines_granted w0" using owes_same[OF assms(1)] by (auto simp: engines_granted_def p_def)
  have same: "\<exists>n \<le> Suc (engines_num lro). lro = lro\<lparr>engines_num := n\<rparr>" by (intro exI[of _ "engines_num lro"]) simp
  have ge: "owes w0 (H + {#R_engine#}) (snd (get_engine_type r (emit (KP (C_kzalloc ''xdma_engine'') p) w)))" if "p \<noteq> 0" for r
    using o1 that by (auto simp: get_engine_type_def split_def intro!: owes_hushed[OF _ hush_prims(2)])
  show ?thesis
  proof (cases "p = 0")
    case True
    with o1 g same show ?thesis by (simp add: engine_create_def call_ptr_def Let_def slot_held_def flip: p_def)
  next
    case False
    show ?thesis
      unfolding engine_create_def call_ptr_def Let_def p_def[symmetric] prod.case if_not_P[OF False] split_def fst_conv snd_conv ensures_simps(3)
    proof (rule ensures_pure(1), rule ensures_mono, rule engine_line_owes[OF ge[OF False] assms(2,3)], goal_cases)
      case (4 b x)
      obtain rc e v where x: "x = (rc, e, v)" by (cases x)
      show ?case
      proof (cases "rc = 0")
        case True
        with 4 have "owes w0 (H + engine_held (poll_mode w0) e) v" "poll_mode_addr_virt e = 0" "rx_transfer_cyclic e = 0" by (simp_all add: x)
        from engine_configure_owes[OF this] True show ?thesis by (auto simp: x elim!: ensures_mono)
      next
        case False
        with 4 same show ?thesis by (auto simp: x slot_held_def intro: kfree_engine_owes)
      qed
    qed (simp_all add: engine_init_def zero_engine_def)
  qed
qed

text \<open>
  The state while the engines of direction \<open>d\<close> are created: \<open>m\<close> engines at most before this direction, the slots from
  \<open>k\<close> on are empty, and so are those of the next direction.
\<close>

definition eng_frame :: "xdma_dev \<Rightarrow> xdma_dev \<Rightarrow> bool" where
  "eng_frame lro lro' \<longleftrightarrow> bar lro' = bar lro \<and> regions_in_use lro' = regions_in_use lro \<and> got_regions lro' = got_regions lro \<and>
     irq_line lro' = irq_line lro \<and> msi_enabled lro' = msi_enabled lro \<and> msix_enabled lro' = msix_enabled lro \<and>
     entry_vector lro' = entry_vector lro"

definition eng_at :: "world \<Rightarrow> resource multiset \<Rightarrow> xdma_dev \<Rightarrow> nat \<Rightarrow> nat \<Rightarrow> nat \<Rightarrow> xdma_dev \<times> world \<Rightarrow> bool" where
  "eng_at w0 H l0 d m k s \<longleftrightarrow> (case s of (lro, w) \<Rightarrow> owes w0 (H + engines_held (poll_mode w0) lro 0) w \<and> eng_frame l0 lro \<and>
     vectors_ok lro \<and> engines_num lro \<le> m + k \<and> (\<forall>c. k \<le> c \<longrightarrow> engine lro c d = None) \<and> (\<forall>c d'. d < d' \<longrightarrow> engine lro c d' = None))"

lemma engines_held_set:
  assumes "engine lro c d = None" and "c < XDMA_CHANNEL_NUM_MAX" and "d < 2"
  shows "engines_held poll (set_engine c d eo lro) 0 = engines_held poll lro 0 + slot_held poll eo"
proof -
  let ?g = "\<lambda>lro x. slot_held poll (engine lro x 0) + slot_held poll (engine lro x 1)"
  have split: "engines_held poll x 0 = ?g x c + (\<Sum>y \<in> {0..<XDMA_CHANNEL_NUM_MAX} - {c}. ?g x y)" for x
    unfolding engines_held_def by (rule sum.remove) (use assms(2) in auto)
  have "(\<Sum>y \<in> {0..<XDMA_CHANNEL_NUM_MAX} - {c}. ?g (set_engine c d eo lro) y) = (\<Sum>y \<in> {0..<XDMA_CHANNEL_NUM_MAX} - {c}. ?g lro y)"
    by (rule sum.cong) (auto simp: set_engine_def)
  moreover have "?g (set_engine c d eo lro) c = ?g lro c + slot_held poll eo"
    using assms(1,3) by (auto simp: set_engine_def slot_held_def less_2_cases_iff)
  ultimately show ?thesis by (simp only: split ac_simps)
qed

lemma probe_for_engine_owes:
  assumes "eng_at w0 H l0 d m k (lro, w)" and "k < XDMA_CHANNEL_NUM_MAX" and "m + k < MAX_NUM_ENGINES" and d: "d = (if to_dev then 0 else 1)"
  shows "ensures (probe_for_engine to_dev k lro w) (\<lambda>(rc, s). eng_at w0 H l0 d m (Suc k) s \<and> (engines_granted w0 \<longrightarrow> rc = 0))"
proof -
  have a: "owes w0 (H + engines_held (poll_mode w0) lro 0) w" "eng_frame l0 lro" "vectors_ok lro" "engines_num lro \<le> m + k"
    "\<And>c. k \<le> c \<Longrightarrow> engine lro c d = None" "\<And>c d'. d < d' \<Longrightarrow> engine lro c d' = None" using assms(1) by (auto simp: eng_at_def)
  have h: "hushed w (snd (get_engine_channel_id r (snd (get_engine_id r w))))" for r
    by (auto simp: get_engine_channel_id_def get_engine_id_def split_def intro!: hush_prims)
  have skip: "eng_at w0 H l0 d m (Suc k) (lro, snd (get_engine_channel_id r (snd (get_engine_id r w))))" for r
    using a owes_hushed[OF a(1) h] by (simp add: eng_at_def)
  have put: "eng_at w0 H l0 d m (Suc k) (set_engine k d eo (lro\<lparr>engines_num := n\<rparr>), v)"
    if "owes w0 (H + engines_held (poll_mode w0) lro 0 + slot_held (poll_mode w0) eo) v" "n \<le> Suc (engines_num lro)" for eo n v
  proof -
    have "engines_held (poll_mode w0) (set_engine k d eo (lro\<lparr>engines_num := n\<rparr>)) 0 = engines_held (poll_mode w0) lro 0 + slot_held (poll_mode w0) eo"
      using engines_held_set[of "lro\<lparr>engines_num := n\<rparr>" k d] a(5) assms(2) d by (simp add: engines_held_def)
    with that a show ?thesis by (auto simp: eng_at_def eng_frame_def vectors_ok_def set_engine_def add.assoc)
  qed
  have lt: "engines_num lro < MAX_NUM_ENGINES" using a(4) assms(3) by simp
  show ?thesis
    unfolding probe_for_engine_def Let_def split_def ensures_simps(3,4)
    by (rule ensures_pure(1)) (auto simp: skip d[symmetric] intro!: ensures_mono[OF engine_create_owes[OF owes_hushed[OF a(1) h] a(3) lt]] put)
qed

lemma probe_dir_owes:
  assumes "eng_at w0 H l0 d m 0 (lro, w)" and "m + XDMA_CHANNEL_NUM_MAX \<le> MAX_NUM_ENGINES" and d: "d = (if to_dev then 0 else 1)"
  shows "ensures (probe_dir to_dev (lro, w)) (\<lambda>(r, s). (\<exists>k. eng_at w0 H l0 d m k s) \<and>
    (if r = None then eng_at w0 H l0 d m XDMA_CHANNEL_NUM_MAX s else the r \<noteq> 0 \<and> \<not> engines_granted w0))"
proof -
  let ?P = "eng_at w0 H l0 d m" and ?Q = "\<lambda>(rc :: int) s. (\<exists>k. eng_at w0 H l0 d m k s) \<and> rc \<noteq> 0 \<and> \<not> engines_granted w0"
  have "ensures (probe_dir to_dev (lro, w)) (\<lambda>(r, s). case r of None \<Rightarrow> ?P (0 + XDMA_CHANNEL_NUM_MAX) s | Some e \<Rightarrow> ?Q e s)"
    unfolding probe_dir_def
  proof (rule ensures_for_try)
    fix k s assume k: "k < 0 + XDMA_CHANNEL_NUM_MAX" and P: "?P k s"
    obtain x v where s: "s = (x, v)" by (cases s)
    have "ensures (probe_for_engine to_dev k x v) (\<lambda>(rc, s). ?P (Suc k) s \<and> (engines_granted w0 \<longrightarrow> rc = 0))"
      by (rule probe_for_engine_owes) (use P s k assms(2) d in auto)
    then show "ensures (case s of (lro, w) \<Rightarrow> do { (rc, lro, w) \<leftarrow> probe_for_engine to_dev k lro w;
        Some (if rc \<noteq> 0 then Some rc else None, lro, w) }) (\<lambda>(r, s). case r of None \<Rightarrow> ?P (Suc k) s | Some e \<Rightarrow> ?Q e s)"
      by (auto simp: s elim!: ensures_mono)
  qed (fact assms(1))
  then show ?thesis by (auto elim!: ensures_mono split: option.splits)
qed

lemma probe_engines_owes:
  assumes "owes w0 H w" and "vectors_ok lro" and "engines_num lro = 0" and "\<And>c d. engine lro c d = None"
  shows "ensures (probe_engines lro w) (\<lambda>(rc, lro', w'). eng_frame lro lro' \<and>
    (if rc = 0 then owes w0 (H + engines_held (poll_mode w0) lro' 0) w' else \<not> engines_granted w0))"
proof -
  have "eng_at w0 H lro 0 0 0 (lro, w)"
    using assms by (simp add: eng_at_def eng_frame_def engines_held_def slot_held_def)
  then have 1: "ensures (probe_dir True (lro, w)) (\<lambda>(r, s). (\<exists>k. eng_at w0 H lro 0 0 k s) \<and>
      (if r = None then eng_at w0 H lro 0 0 XDMA_CHANNEL_NUM_MAX s else the r \<noteq> 0 \<and> \<not> engines_granted w0))"
    by (rule probe_dir_owes) (simp_all add: const_defs)
  have turn: "eng_at w0 H lro 1 XDMA_CHANNEL_NUM_MAX 0 s" if "eng_at w0 H lro 0 0 XDMA_CHANNEL_NUM_MAX s" for s
    using that by (auto simp: eng_at_def)
  have 2: "ensures (probe_dir False (x, v)) (\<lambda>(r, s). (\<exists>k. eng_at w0 H lro 1 XDMA_CHANNEL_NUM_MAX k s) \<and>
      (if r = None then eng_at w0 H lro 1 XDMA_CHANNEL_NUM_MAX XDMA_CHANNEL_NUM_MAX s else the r \<noteq> 0 \<and> \<not> engines_granted w0))"
    if "eng_at w0 H lro 0 0 XDMA_CHANNEL_NUM_MAX (x, v)" for x v
    by (rule probe_dir_owes[OF turn[OF that]]) (simp_all add: const_defs)
  have "ensures (remove_engines x v) (\<lambda>(x', v'). eng_frame lro x')" if "eng_at w0 H lro 0 0 k (x, v)" for k x v
    by (rule ensures_mono[OF remove_engines_owes[of w0 H]]) (use that in \<open>auto simp: eng_at_def eng_frame_def\<close>)
  then show ?thesis
    unfolding probe_engines_def
    by (auto split: option.splits if_splits simp: eng_at_def intro!: ensures_mono[OF 1] ensures_mono[OF 2] elim!: ensures_mono)
qed

section \<open>The error exits\<close>

text \<open>What the flags of a device say it holds; MSI-X apart, which no error exit gives back.\<close>

definition flagged :: "xdma_dev \<Rightarrow> resource multiset" where
  "flagged lro = {#R_dev#} + (if regions_in_use lro then {#} else {#R_enabled#}) + (if msi_enabled lro then {#R_msi#} else {#}) +
     (if got_regions lro then {#R_regions#} else {#})"

definition msix_held :: "xdma_dev \<Rightarrow> resource multiset" where
  "msix_held lro = (if msix_enabled lro then {#R_msix#} else {#})"

lemma void_owes: "owes w0 (H + released (KV c)) w \<Longrightarrow> owes w0 H (call_void c w)"
  unfolding call_void_def by (erule owes_emit) simp

lemma err_enable_owes: "owes w0 (H + {#R_dev#}) w \<Longrightarrow> owes w0 H (err_enable lro w)"
  unfolding err_enable_def by (rule void_owes) simp

lemma err_scan_msi_owes: "owes w0 (H + {#R_dev#} + (if regions_in_use lro then {#} else {#R_enabled#})) w \<Longrightarrow> owes w0 H (err_scan_msi lro w)"
  unfolding err_scan_msi_def by (intro err_enable_owes) (auto intro!: void_owes simp: add_mset_commute)

lemma err_map_owes:
  assumes "owes w0 (H + flagged lro) w"
  shows "owes w0 H (err_map lro w)"
proof -
  define w1 where "w1 = (if got_regions lro then call_void (C_pci ''pci_release_regions'') w else w)"
  have 1: "owes w0 (H + {#R_dev#} + (if regions_in_use lro then {#} else {#R_enabled#}) + (if msi_enabled lro then {#R_msi#} else {#})) w1"
    using assms unfolding w1_def flagged_def by (cases "got_regions lro") (auto intro!: void_owes simp: add.assoc)
  have "owes w0 (H + {#R_dev#} + (if regions_in_use lro then {#} else {#R_enabled#}))
      (if msi_enabled lro then call_void (C_pci ''pci_disable_msi'') w1 else w1)"
    using 1 by (cases "msi_enabled lro") (auto intro!: void_owes simp: add.assoc)
  then show ?thesis unfolding err_map_def err_regions_def w1_def[symmetric] by (rule err_scan_msi_owes)
qed

lemma err_mask_owes:
  assumes "bars_at w0 (H + flagged lro) lro XDMA_BAR_NUM (lro, w)"
  shows "ensures (err_mask lro w) (owes w0 H)"
proof -
  have "flagged x = flagged lro" if "bar_frame lro x" for x using that by (simp add: bar_frame_def flagged_def)
  then show ?thesis unfolding err_mask_def by (auto intro!: ensures_mono[OF unmap_bars_owes[OF assms]] err_map_owes)
qed

lemma err_engines_owes:
  assumes "owes w0 (H + flagged lro + bars lro + lines lro) w" and "length (bar lro) = XDMA_BAR_NUM" and "vectors_ok lro"
    and "msix_enabled lro \<or> irq_line lro \<noteq> -1"
  shows "ensures (err_engines lro w) (owes w0 H)"
  unfolding err_engines_def ensures_simps
  by (rule ensures_mono[OF irq_teardown_owes[OF assms(1)]])
    (use assms(2-4) in \<open>auto simp: vectors_ok_def const_defs intro!: err_mask_owes simp: bars_at_def bar_frame_def\<close>)

lemma err_interfaces_owes:
  assumes "owes w0 (H + flagged lro + bars lro + lines lro + engines_held (poll_mode w0) lro 0) w" and "length (bar lro) = XDMA_BAR_NUM"
    and "vectors_ok lro" and "msix_enabled lro \<or> irq_line lro \<noteq> -1"
  shows "ensures (err_interfaces lro w) (owes w0 H)"
proof -
  have f: "flagged (lro\<lparr>engines_num := n\<rparr>) = flagged lro" "bars (lro\<lparr>engines_num := n\<rparr>) = bars lro" "lines (lro\<lparr>engines_num := n\<rparr>) = lines lro"
    "vectors_ok (lro\<lparr>engines_num := n\<rparr>) = vectors_ok lro" for n
    by (simp_all add: flagged_def bars_def lines_def vectors_ok_def bm.held_def)
  show ?thesis
    unfolding err_interfaces_def
    using assms(2-4) f by (auto intro!: ensures_mono[OF remove_engines_owes[OF assms(1)]] err_engines_owes)
qed

section \<open>Probe\<close>

text \<open>What a device that was kept holds.\<close>

definition kept :: "world \<Rightarrow> xdma_dev \<Rightarrow> world \<Rightarrow> bool" where
  "kept w0 lro w \<longleftrightarrow> owes w0 (msix_held lro + flagged lro + bars lro + lines lro + engines_held (poll_mode w0) lro 0) w \<and>
     length (bar lro) = XDMA_BAR_NUM \<and> vectors_ok lro \<and> (msix_enabled lro \<or> irq_line lro \<noteq> -1) \<and> \<not> (msix_enabled lro \<and> msi_enabled lro)"

lemma eng_frame_eqs:
  assumes "eng_frame lro x"
  shows "flagged x = flagged lro" "bars x = bars lro" "lines x = lines lro" "vectors_ok x = vectors_ok lro" "msix_held x = msix_held lro"
    "bar x = bar lro" "irq_line x = irq_line lro" "msix_enabled x = msix_enabled lro" "msi_enabled x = msi_enabled lro"
  using assms by (simp_all add: eng_frame_def flagged_def bars_def lines_def vectors_ok_def msix_held_def bm.held_def)

lemma node_frame_kept: "kept w0 lro w \<Longrightarrow> node_frame lro x \<Longrightarrow> hushed w w' \<Longrightarrow> kept w0 x w'"
proof -
  assume k: "kept w0 lro w" and n: "node_frame lro x" and h: "hushed w w'"
  from n have f: "eng_frame lro x" by (simp add: node_frame_def eng_frame_def)
  have "engines_held (poll_mode w0) x 0 = engines_held (poll_mode w0) lro 0" using n by (simp add: node_frame_def engines_held_def)
  with k show ?thesis by (auto simp: kept_def eng_frame_eqs[OF f] intro: owes_hushed[OF _ h])
qed

lemma kept_hushed: "kept w0 lro w \<Longrightarrow> hushed w w' \<Longrightarrow> kept w0 lro w'"
  by (erule node_frame_kept[OF _ node_frame_refl])

lemma err_interfaces_kept: "kept w0 lro w \<Longrightarrow> ensures (err_interfaces lro w) (owes w0 (msix_held lro))"
  by (rule err_interfaces_owes) (simp_all add: kept_def)

text \<open>How the last part of \<^verbatim>\<open>probe\<close> ends.\<close>

definition ends :: "world \<Rightarrow> resource multiset \<Rightarrow> int \<times> xdma_dev option \<times> xdma_drv \<times> world \<Rightarrow> bool" where
  "ends w0 H r \<longleftrightarrow> (case r of (rc, None, drv, w) \<Rightarrow> engines_granted w0 \<longrightarrow> owes w0 H w | (rc, Some lro, drv, w) \<Rightarrow> kept w0 lro w)"

lemma ends_simps [simp]:
  "ends w0 H (rc, None, drv, w) \<longleftrightarrow> (engines_granted w0 \<longrightarrow> owes w0 H w)" "ends w0 H (rc, Some lro, drv, w) \<longleftrightarrow> kept w0 lro w"
  by (simp_all add: ends_def)

lemma probe_live_owes:
  assumes "kept w0 lro w"
  shows "ensures (probe_live lro drv w) (ends w0 (msix_held lro))"
proof -
  have k: "ensures (err_interfaces lro v) (owes w0 (msix_held lro))" "kept w0 lro v" if "hushed w v" for v
    using kept_hushed[OF assms that] err_interfaces_kept by auto
  show ?thesis
    unfolding probe_live_def
    by (auto simp: Let_def split_def quiet_def intro!: ensures_mono[OF hush_interrupts(1)[OF hushed_refl]] ensures_mono[OF hush_interrupts(3)]
        ensures_mono[OF hush_interrupts(5)] ensures_mono[OF k(1)] k(2) hush_prims)
qed

lemma probe_nodes_owes:
  assumes "kept w0 lro w"
  shows "ensures (probe_nodes lro drv w) (ends w0 (msix_held lro))"
  unfolding probe_nodes_def ensures_simps
proof (rule ensures_mono[OF create_interfaces_calm[where ?w0.0 = w and ?l0.0 = lro]], simp, clarify)
  fix rc :: int and x :: xdma_dev and drv' :: xdma_drv and v :: world assume "hushed w (snd (snd (x, drv', v)))" and "node_frame lro (fst (x, drv', v))"
  then have n: "hushed w v" "node_frame lro x" by simp_all
  have "kept w0 x v" "msix_held lro = msix_held x" using node_frame_kept[OF assms n(2,1)] n(2) by (simp_all add: node_frame_def msix_held_def)
  then show "ensures (if rc \<noteq> 0 then do { w \<leftarrow> err_interfaces x v; Some (rc, None, drv', w) } else probe_live x drv' v) (ends w0 (msix_held lro))"
    using probe_live_owes[of w0 x v drv'] by (auto intro!: ensures_mono[OF err_interfaces_kept])
qed

lemma probe_tail_owes:
  assumes "owes w0 (msix_held lro + flagged lro + bars lro + lines lro) w" and "length (bar lro) = XDMA_BAR_NUM" and "vectors_ok lro"
    and "msix_enabled lro \<or> irq_line lro \<noteq> -1" and "\<not> (msix_enabled lro \<and> msi_enabled lro)"
    and "engines_num lro = 0" and "\<And>c d. engine lro c d = None"
  shows "ensures (probe_tail lro drv w) (ends w0 (msix_held lro))"
proof -
  have engines: "ensures (probe_engines lro v) (\<lambda>(rc, lro', w'). if rc = 0 then kept w0 lro' w' \<and> msix_held lro' = msix_held lro else \<not> engines_granted w0)"
    if "hushed w v" for v
  proof (rule ensures_mono[OF probe_engines_owes[OF owes_hushed[OF assms(1) that] assms(3,6,7)]], clarify)
    fix rc lro' w' assume f: "eng_frame lro lro'"
      and o: "if rc = 0 then owes w0 (msix_held lro + flagged lro + bars lro + lines lro + engines_held (poll_mode w0) lro' 0) w' else \<not> engines_granted w0"
    show "if rc = 0 then kept w0 lro' w' \<and> msix_held lro' = msix_held lro else \<not> engines_granted w0"
      using o assms(2-5) by (simp add: kept_def eng_frame_eqs[OF f])
  qed
  have rest: "ensures (probe_engines lro v) (\<lambda>(rc, x, v'). ensures (if rc \<noteq> 0 then do { w \<leftarrow> err_engines x v'; Some (rc, None, drv, w) }
      else probe_nodes x drv v') (ends w0 (msix_held lro)))" if "hushed w v" for v
  proof (rule ensures_mono[OF engines[OF that]], clarify)
    fix rc :: int and x v' assume k: "if rc = 0 then kept w0 x v' \<and> msix_held x = msix_held lro else \<not> engines_granted w0"
    show "ensures (if rc \<noteq> 0 then do { w \<leftarrow> err_engines x v'; Some (rc, None, drv, w) } else probe_nodes x drv v') (ends w0 (msix_held lro))"
    proof (cases "rc = 0")
      case True
      with k probe_nodes_owes[of w0 x v' drv] show ?thesis by simp
    next
      case False
      with k show ?thesis by (auto simp: ensures_def bind_eq_Some_conv)
    qed
  qed
  show ?thesis
    unfolding probe_tail_def Let_def split_def ensures_simps(3)
    by (rule ensures_pure(1), rule ensures_mono[where P = "hushed w"])
      (use rest in \<open>auto simp: split_def intro!: hush_prims hush_interrupts\<close>)
qed

text \<open>
  Hypotheses on the kernel. A call that enables message interrupts succeeds or fails (a positive result, fewer vectors than
  asked for, is taken for a success by the driver), and the vectors it hands out are not 0.
\<close>

definition msi_plain :: "world \<Rightarrow> bool" where
  "msi_plain w \<longleftrightarrow> (\<forall>l. kint w l (C_pci ''pci_enable_msi'') \<le> 0 \<and> kint w l (C_pci ''pci_enable_msix'') \<le> 0 \<and>
     (\<forall>i < MAX_NUM_ENGINES + MAX_USER_IRQ. ucast (kptr w l (C_misc ''vector'' i)) \<noteq> (0 :: u32)))"

text \<open>A device as it was allocated: it owns nothing but itself.\<close>

definition fresh :: "xdma_dev \<Rightarrow> bool" where
  "fresh lro \<longleftrightarrow> bar lro = replicate XDMA_BAR_NUM 0 \<and> engines_num lro = 0 \<and> (\<forall>c d. engine lro c d = None)"

lemma msi_msix_capable_hush: "hushed w (snd (msi_msix_capable dev type w))"
  by (auto simp: msi_msix_capable_def split_def quiet_def intro!: hush_prims)

lemma int_owes: "owes w0 H w \<Longrightarrow> H + acquired (KI c (kint w (io w) c)) = released (KI c (kint w (io w) c)) + H' \<Longrightarrow> owes w0 H' (snd (call_int c w))"
  unfolding call_int_def Let_def by (simp add: owes_emit)

lemma probe_scan_owes:
  assumes "owes w0 (H + {#R_dev#} + {#R_enabled#}) w" and "msi_plain w0" and "fresh lro" and "length (entry_vector lro) = 32"
    and "\<not> msi_enabled lro" "\<not> msix_enabled lro" "\<not> regions_in_use lro" "\<not> got_regions lro"
  shows "case probe_scan_for_msi dev lro w of (rc, x, w') \<Rightarrow>
    (if rc < 0 then owes w0 (H + {#R_dev#} + {#R_enabled#}) w' else owes w0 (H + msix_held x + flagged x) w') \<and> fresh x \<and> vectors_ok x \<and>
    \<not> (msix_enabled x \<and> msi_enabled x) \<and> \<not> regions_in_use x \<and> \<not> got_regions x"
proof -
  define w1 where "w1 = snd (msi_msix_capable dev PCI_CAP_ID_MSIX w)"
  define w2 where "w2 = snd (msi_msix_capable dev PCI_CAP_ID_MSI w1)"
  have o1: "owes w0 (H + {#R_dev#} + {#R_enabled#}) w1" unfolding w1_def by (rule owes_hushed[OF assms(1) msi_msix_capable_hush])
  have o2: "owes w0 (H + {#R_dev#} + {#R_enabled#}) w2" unfolding w2_def by (rule owes_hushed[OF o1 msi_msix_capable_hush])
  have k: "kint v = kint w0" "kptr v = kptr w0" if "owes w0 X v" for v X using owes_same[OF that] by simp_all
  let ?x = "call_int (C_pci ''pci_enable_msix'') w1" and ?m = "call_int (C_pci ''pci_enable_msi'') w2"
  have x: "fst ?x \<le> 0" "fst ?m \<le> 0" using assms(2) k[OF o1] k[OF o2] by (simp_all add: msi_plain_def call_int_def Let_def)
  have ox: "owes w0 (H + {#R_dev#} + {#R_enabled#} + (if fst ?x = 0 then {#R_msix#} else {#})) (snd ?x)"
    by (rule int_owes[OF o1]) (simp add: call_int_def Let_def)
  have om: "owes w0 (H + {#R_dev#} + {#R_enabled#} + (if fst ?m = 0 then {#R_msi#} else {#})) (snd ?m)"
    by (rule int_owes[OF o2]) (simp add: call_int_def Let_def)
  have v: "vectors_ok (lro\<lparr>entry_vector := map (\<lambda>i. ucast (kptr (snd ?x) (io (snd ?x)) (C_misc ''vector'' i))) [0..<MAX_NUM_ENGINES + MAX_USER_IRQ] @
      drop (MAX_NUM_ENGINES + MAX_USER_IRQ) (entry_vector lro), msix_enabled := True\<rparr>)"
    using assms(2,4) k[OF ox] by (auto simp: vectors_ok_def nth_append msi_plain_def const_defs)
  show ?thesis
  proof (cases "fst (msi_msix_capable dev PCI_CAP_ID_MSIX w)")
    case True
    have "owes w0 (H + msix_held y + flagged y) (snd ?x)" if "msix_enabled y" "\<not> msi_enabled y" "\<not> regions_in_use y" "\<not> got_regions y" "fst ?x = 0" for y
      using ox that by (simp add: msix_held_def flagged_def add_mset_commute)
    with True v ox x(1) assms show ?thesis
      by (auto simp: probe_scan_for_msi_def Let_def split_def fresh_def w1_def[symmetric])
  next
    case False
    have "owes w0 (H + msix_held y + flagged y) (snd ?m)" if "\<not> msix_enabled y" "msi_enabled y" "\<not> regions_in_use y" "\<not> got_regions y" "fst ?m = 0" for y
      using om that by (simp add: msix_held_def flagged_def add_mset_commute)
    moreover have "owes w0 (H + msix_held lro + flagged lro) w2"
      using o2 assms(5-8) by (simp add: msix_held_def flagged_def add_mset_commute)
    ultimately show ?thesis using False om x(2) assms
      by (auto simp: probe_scan_for_msi_def Let_def split_def fresh_def vectors_ok_def w1_def[symmetric] w2_def[symmetric])
  qed
qed

text \<open>The stages of \<^verbatim>\<open>probe\<close>: a device with its bars, and one with its regions.\<close>

definition staged :: "world \<Rightarrow> xdma_dev \<Rightarrow> resource multiset \<Rightarrow> world \<Rightarrow> bool" where
  "staged w0 lro B w \<longleftrightarrow> owes w0 (msix_held lro + flagged lro + B) w \<and> vectors_ok lro \<and> length (bar lro) = XDMA_BAR_NUM \<and>
     engines_num lro = 0 \<and> (\<forall>c d. engine lro c d = None) \<and> \<not> (msix_enabled lro \<and> msi_enabled lro)"

lemma staged_mask:
  assumes "staged w0 lro (bars lro) w"
  shows "ensures (do { v \<leftarrow> err_mask lro w; Some (rc, None, drv, v) }) (ends w0 (msix_held lro))"
proof -
  have "bars_at w0 (msix_held lro + flagged lro) lro XDMA_BAR_NUM (lro, w)"
    using assms by (auto simp: staged_def bars_at_def bar_frame_def)
  from err_mask_owes[OF this] show ?thesis by (auto elim: ensures_mono)
qed

lemma probe_irq_owes:
  assumes "staged w0 lro (bars lro) w" and "irq \<noteq> -1"
  shows "ensures (do { (rc, lro, w) \<leftarrow> irq_setup irq lro w;
       if rc \<noteq> 0 then do { w \<leftarrow> err_mask lro w; Some (rc, None, drv, w) } else probe_tail lro drv w }) (ends w0 (msix_held lro))"
proof -
  let ?H = "msix_held lro + flagged lro + bars lro"
  have o: "owes w0 ?H w" and v: "vectors_ok lro" using assms by (auto simp: staged_def)
  have len: "MAX_USER_IRQ \<le> length (entry_vector lro)" using v by (simp add: vectors_ok_def const_defs)
  have line: "sint irq \<noteq> -1" using assms(2) by (metis signed_minus_1 signed_word_eqI)
  show ?thesis
    unfolding ensures_simps(3)
  proof (rule ensures_mono[OF irq_setup_owes[OF o len]], clarify)
    fix rc :: int and x :: xdma_dev and w' :: world assume a: "owes w0 (if rc = 0 then ?H + lines x else ?H) w'"
      and x: "if msix_enabled lro then x = lro else x = lro\<lparr>irq_line := sint irq\<rparr>"
    have f: "msix_held x = msix_held lro" "flagged x = flagged lro" "bars x = bars lro" "vectors_ok x" "length (bar x) = XDMA_BAR_NUM"
      "engines_num x = 0" "\<And>c d. engine x c d = None" "\<not> (msix_enabled x \<and> msi_enabled x)" "msix_enabled x \<or> irq_line x \<noteq> -1"
      using assms(1) x line by (auto simp: staged_def msix_held_def flagged_def bars_def bm.held_def vectors_ok_def split: if_splits)
    show "ensures (if rc \<noteq> 0 then do { w \<leftarrow> err_mask x w'; Some (rc, None, drv, w) } else probe_tail x drv w') (ends w0 (msix_held lro))"
    proof (cases "rc = 0")
      case True
      then show ?thesis using probe_tail_owes[of w0 x w' drv] a f by simp
    next
      case False
      then show ?thesis using staged_mask[of w0 x w' rc drv] a f by (simp add: staged_def)
    qed
  qed
qed

lemma probe_map_owes:
  assumes "staged w0 lro {#} w" and "bar lro = replicate XDMA_BAR_NUM 0" and "pdev_irq dev \<noteq> -1"
  shows "ensures (do { (rc, lro, w) \<leftarrow> map_bars dev lro w;
       if rc \<noteq> 0 then Some (rc, None, drv, err_map lro w)
       else do {
       let (rc, w) = set_dma_mask w;
       if rc \<noteq> 0 then do { w \<leftarrow> err_mask lro w; Some (rc, None, drv, w) }
       else do {
       (rc, lro, w) \<leftarrow> irq_setup (pdev_irq dev) lro w;
       if rc \<noteq> 0 then do { w \<leftarrow> err_mask lro w; Some (rc, None, drv, w) }
       else probe_tail lro drv w } } }) (ends w0 (msix_held lro))"
proof -
  let ?H = "msix_held lro + flagged lro"
  have o: "owes w0 ?H w" using assms by (simp add: staged_def)
  show ?thesis
    unfolding ensures_simps(3)[of "map_bars dev lro w"]
  proof (rule ensures_mono[OF map_bars_owes[OF o assms(2)]], clarify)
    fix rc :: int and x :: xdma_dev and w' :: world
    assume a: "if rc = 0 then bars_at w0 ?H lro XDMA_BAR_NUM (x, w') else owes w0 ?H w' \<and> bar_frame lro x"
    then have b: "bar_frame lro x" by (auto simp: bars_at_def split: if_splits)
    have f: "msix_held x = msix_held lro" "flagged x = flagged lro" "vectors_ok x"
      "engines_num x = 0" "\<And>c d. engine x c d = None" "\<not> (msix_enabled x \<and> msi_enabled x)"
      using assms(1) b by (auto simp: staged_def bar_frame_def msix_held_def flagged_def vectors_ok_def)
    have st: "staged w0 x (bars x) v" if "rc = 0" "hushed w' v" for v
      using a f that by (auto simp: staged_def bars_at_def intro: owes_hushed)
    define m where "m = set_dma_mask w'"
    have st': "staged w0 x (bars x) (snd m)" if "rc = 0" using st[OF that] by (simp add: m_def hush_set_dma_mask)
    show "ensures (if rc \<noteq> 0 then Some (rc, None, drv, err_map x w')
       else do {
       let (rc, w) = set_dma_mask w';
       if rc \<noteq> 0 then do { w \<leftarrow> err_mask x w; Some (rc, None, drv, w) }
       else do {
       (rc, lro, w) \<leftarrow> irq_setup (pdev_irq dev) x w;
       if rc \<noteq> 0 then do { w \<leftarrow> err_mask lro w; Some (rc, None, drv, w) }
       else probe_tail lro drv w } }) (ends w0 (msix_held lro))"
    proof (cases "rc = 0")
      case True
      then show ?thesis
        using staged_mask[OF st'[OF True], of "fst m" drv] probe_irq_owes[OF st'[OF True] assms(3), of drv] f(1)
        unfolding m_def[symmetric] Let_def split_def by (cases "fst m = 0") simp_all
    next
      case False
      then show ?thesis using a f by (simp add: err_map_owes)
    qed
  qed
qed

lemma request_regions_owes:
  assumes "staged w0 lro {#} w" and "\<not> regions_in_use lro" and "\<not> got_regions lro"
  shows "case request_regions lro w of (rc, x, w') \<Rightarrow> staged w0 x {#} w' \<and> msix_held x = msix_held lro \<and> bar x = bar lro \<and> (rc \<noteq> 0 \<longrightarrow> \<not> got_regions x)"
proof -
  let ?r = "call_int (C_pci ''pci_request_regions'') w"
  let ?x = "if fst ?r \<noteq> 0 then lro\<lparr>regions_in_use := True\<rparr> else lro\<lparr>got_regions := True\<rparr>"
  have "owes w0 (msix_held ?x + flagged ?x) (snd ?r)"
    by (rule int_owes[where H = "msix_held lro + flagged lro"])
      (use assms in \<open>auto simp: staged_def msix_held_def flagged_def call_int_def Let_def\<close>)
  with assms show ?thesis by (auto simp: request_regions_def split_def staged_def msix_held_def vectors_ok_def)
qed

definition probe_ends :: "world \<Rightarrow> int \<times> xdma_dev option \<times> xdma_drv \<times> world \<Rightarrow> bool" where
  "probe_ends w0 r \<longleftrightarrow> ends w0 {#} r \<or> ends w0 {#R_msix#} r"

lemma probe_ends_msix: "ends w0 (msix_held lro) r \<Longrightarrow> probe_ends w0 r"
  by (auto simp: probe_ends_def msix_held_def split: if_splits)

text \<open>The parts of \<^verbatim>\<open>probe\<close> up to the regions, with their error exits.\<close>

lemma probe_run:
  assumes "alloc_dev_instance w = (Some lro, w1)" and "call_int (C_pci ''pci_enable_device'') w1 = (re, w2)"
    and "probe_scan_for_msi dev lro (call_void (C_pci ''pci_set_master'') w2) = (rs, x, w3)" and "request_regions x w3 = (rr, y, w4)"
  shows "probe dev drv w = (if re \<noteq> 0 then Some (re, None, drv, err_enable lro w2)
       else if rs < 0 then Some (rs, None, drv, err_scan_msi x w3)
       else if rr \<noteq> 0 then Some (rr, None, drv, err_regions y w4)
       else do { (rc, lro, w) \<leftarrow> map_bars dev y w4;
       if rc \<noteq> 0 then Some (rc, None, drv, err_map lro w)
       else do {
       let (rc, w) = set_dma_mask w;
       if rc \<noteq> 0 then do { w \<leftarrow> err_mask lro w; Some (rc, None, drv, w) }
       else do {
       (rc, lro, w) \<leftarrow> irq_setup (pdev_irq dev) lro w;
       if rc \<noteq> 0 then do { w \<leftarrow> err_mask lro w; Some (rc, None, drv, w) }
       else probe_tail lro drv w } } })"
  unfolding probe_def assms(1) prod.case option.case assms(2) Let_def assms(3,4) by simp

lemma probe_staged_owes:
  assumes "staged w0 x {#} w3" and "\<not> regions_in_use x" "\<not> got_regions x" and "bar x = replicate XDMA_BAR_NUM 0"
    and "request_regions x w3 = (rr, y, w4)"
  shows "staged w0 y {#} w4 \<and> bar y = replicate XDMA_BAR_NUM 0 \<and> (rr \<noteq> 0 \<longrightarrow> owes w0 (msix_held y) (err_regions y w4))"
proof -
  have y: "staged w0 y {#} w4" "bar y = replicate XDMA_BAR_NUM 0" "rr \<noteq> 0 \<longrightarrow> \<not> got_regions y"
    using request_regions_owes[OF assms(1-3)] assms(4,5) by auto
  have "owes w0 (msix_held y) (err_regions y w4)" if "\<not> got_regions y"
    using err_map_owes[of w0 "msix_held y" y w4] y(1) that by (simp add: staged_def err_map_def)
  with y show ?thesis by blast
qed

lemma probe_owes:
  assumes "msi_plain w" and "pdev_irq dev \<noteq> -1"
  shows "ensures (probe dev drv w) (probe_ends w)"
proof -
  define p where "p = kptr w (io w) (C_kzalloc ''xdma_dev'')"
  define w1 where "w1 = emit (KP (C_kzalloc ''xdma_dev'') p) w"
  define lro where "lro = zero_dev\<lparr>dev_magic := MAGIC_DEVICE, config_bar_idx := -1, user_bar_idx := -1, bypass_bar_idx := -1, irq_line := -1\<rparr>"
  have o1: "owes w (if p = 0 then {#} else {#R_dev#}) w1" unfolding w1_def by (rule owes_emit[OF owes_refl]) simp
  have alloc: "alloc_dev_instance w = (if p = 0 then None else Some lro, w1)"
    by (simp add: alloc_dev_instance_def call_ptr_def Let_def p_def w1_def lro_def)
  obtain re w2 where e: "call_int (C_pci ''pci_enable_device'') w1 = (re, w2)" by (cases "call_int (C_pci ''pci_enable_device'') w1")
  obtain rs x w3 where sc: "probe_scan_for_msi dev lro (call_void (C_pci ''pci_set_master'') w2) = (rs, x, w3)" by (metis surj_pair)
  obtain rr y w4 where rg: "request_regions x w3 = (rr, y, w4)" by (metis surj_pair)
  have o2: "owes w ({#R_dev#} + (if re = 0 then {#R_enabled#} else {#})) w2" if "p \<noteq> 0"
    using int_owes[OF o1, of "C_pci ''pci_enable_device''"] e that by (auto simp: call_int_def Let_def)
  have o3: "owes w ({#} + {#R_dev#} + {#R_enabled#}) (call_void (C_pci ''pci_set_master'') w2)" if "p \<noteq> 0" "re = 0"
    using o2 that by (auto intro!: void_owes)
  have "fresh lro" "length (entry_vector lro) = 32" "\<not> msi_enabled lro" "\<not> msix_enabled lro" "\<not> regions_in_use lro" "\<not> got_regions lro"
    by (simp_all add: lro_def zero_dev_def fresh_def)
  note scan = probe_scan_owes[OF o3 assms(1) this, of dev, unfolded sc prod.case]
  consider "p = 0" | "p \<noteq> 0" "re \<noteq> 0" | "p \<noteq> 0" "re = 0" "rs < 0" | "p \<noteq> 0" "re = 0" "\<not> rs < 0" by blast
  then show ?thesis
  proof cases
    case 1
    with o1 show ?thesis by (simp add: probe_def alloc probe_ends_def)
  next
    case 2
    then show ?thesis using probe_run[OF _ e sc rg, of w drv] o2 by (auto simp: alloc probe_ends_def intro!: err_enable_owes)
  next
    case 3
    then show ?thesis using probe_run[OF _ e sc rg, of w drv] scan by (auto simp: alloc probe_ends_def intro!: err_scan_msi_owes)
  next
    case 4
    with scan have "staged w x {#} w3" "\<not> regions_in_use x" "\<not> got_regions x" "bar x = replicate XDMA_BAR_NUM 0"
      by (auto simp: staged_def fresh_def)
    from probe_staged_owes[OF this rg] have y: "staged w y {#} w4" "bar y = replicate XDMA_BAR_NUM 0"
      "rr \<noteq> 0 \<Longrightarrow> owes w (msix_held y) (err_regions y w4)" by auto
    with 4 probe_run[OF _ e sc rg, of w drv] probe_map_owes[OF y(1,2) assms(2), of drv] show ?thesis
      by (auto simp: alloc intro: probe_ends_msix ensures_mono)
  qed
qed

section \<open>Remove\<close>

definition one_msi :: "xdma_dev \<Rightarrow> bool" where
  "one_msi lro \<longleftrightarrow> \<not> (msix_enabled lro \<and> msi_enabled lro)"

text \<open>The part of \<^verbatim>\<open>remove\<close> after the BARs were unmapped.\<close>

lemma remove_end_owes:
  assumes "owes w0 (msix_held lro + flagged lro) w" and "one_msi lro"
  shows "ensures (do {
     let w = (if got_regions lro then call_void (C_pci ''pci_release_regions'') w else w);
     let (lro, w) = (if msix_enabled lro then (lro\<lparr>msix_enabled := False\<rparr>, call_void (C_pci ''pci_disable_msix'') w)
                     else if msi_enabled lro then (lro\<lparr>msi_enabled := False\<rparr>, call_void (C_pci ''pci_disable_msi'') w)
                     else (lro, w));
     let w = (if \<not> regions_in_use lro then call_void (C_pci ''pci_disable_device'') w else w);
     present \<leftarrow> (if instance_nr lro < 0 then None else arr_set (dev_present drv) (nat (instance_nr lro)) False);
     let w = call_void (C_misc ''device_remove_file'' 0) w;
     Some (drv\<lparr>dev_present := present\<rparr>, err_enable lro w) }) (\<lambda>(drv', w'). owes w0 {#} w')"
proof -
  define w1 where "w1 = (if got_regions lro then call_void (C_pci ''pci_release_regions'') w else w)"
  let ?e = "if regions_in_use lro then {#} else {#R_enabled#}"
  have 1: "owes w0 ({#R_dev#} + ?e + (if msix_enabled lro then {#R_msix#} else if msi_enabled lro then {#R_msi#} else {#})) w1"
    using assms unfolding w1_def flagged_def msix_held_def one_msi_def by (cases "got_regions lro") (auto intro!: void_owes simp: ac_simps add_mset_commute)
  have fin: "owes w0 {#} (err_enable x (call_void (C_misc ''device_remove_file'' 0) (if \<not> regions_in_use lro then call_void (C_pci ''pci_disable_device'') v else v)))"
    if "owes w0 ({#R_dev#} + ?e) v" for x v
    using that by (auto intro!: err_enable_owes void_owes simp: add_mset_commute)
  have "owes w0 ({#R_dev#} + ?e) (call_void (C_pci ''pci_disable_msix'') w1)" if "msix_enabled lro"
    using 1 that by (auto intro!: void_owes simp: ac_simps add_mset_commute)
  moreover have "owes w0 ({#R_dev#} + ?e) (call_void (C_pci ''pci_disable_msi'') w1)" if "\<not> msix_enabled lro" "msi_enabled lro"
    using 1 that by (auto intro!: void_owes simp: ac_simps add_mset_commute)
  moreover have "owes w0 ({#R_dev#} + ?e) w1" if "\<not> msix_enabled lro" "\<not> msi_enabled lro" using 1 that by simp
  ultimately show ?thesis
    unfolding Let_def w1_def[symmetric] using fin by (auto simp del: not_not)
qed

lemma remove_owes:
  assumes "kept w0 lro w"
  shows "ensures (remove lro drv w) (\<lambda>(drv', w'). owes w0 {#} w')"
proof -
  have k: "owes w0 (msix_held lro + flagged lro + bars lro + lines lro + engines_held (poll_mode w0) lro 0) w"
    "length (bar lro) = XDMA_BAR_NUM" "MAX_USER_IRQ \<le> length (entry_vector lro)" "msix_enabled lro \<or> irq_line lro \<noteq> -1"
    "one_msi lro"
    using assms by (auto simp: kept_def vectors_ok_def const_defs one_msi_def)
  let ?H = "msix_held lro + flagged lro"
  have eng: "ensures (remove_engines lro v) (\<lambda>(x, v'). owes w0 (?H + bars lro + lines lro) v' \<and> (\<exists>n. x = lro\<lparr>engines_num := n\<rparr>))" if "hushed w v" for v
    by (rule remove_engines_owes[OF owes_hushed[OF k(1) that]])
  have ln: "lines (lro\<lparr>engines_num := n\<rparr>) = lines lro" for n by (simp add: lines_def)
  have irq: "ensures (irq_teardown (lro\<lparr>engines_num := n\<rparr>) v) (owes w0 (?H + bars lro))" if "owes w0 (?H + bars lro + lines lro) v" for n v
    by (rule irq_teardown_owes) (use that k ln in simp_all)
  have unm: "ensures (unmap_bars (lro\<lparr>engines_num := n\<rparr>) v) (\<lambda>(x, v'). owes w0 (msix_held x + flagged x) v' \<and> one_msi x)"
    if "owes w0 (?H + bars lro) v" for n v
  proof -
    have "bars_at w0 ?H (lro\<lparr>engines_num := n\<rparr>) XDMA_BAR_NUM (lro\<lparr>engines_num := n\<rparr>, v)"
      using that k(2) by (auto simp: bars_at_def bars_def bm.held_def bar_frame_def)
    moreover have "msix_held x + flagged x = ?H \<and> one_msi x" if "bar_frame (lro\<lparr>engines_num := n\<rparr>) x" for x
      using that k(5) by (auto simp: bar_frame_def msix_held_def flagged_def one_msi_def)
    ultimately show ?thesis by (auto intro!: ensures_mono[OF unmap_bars_owes])
  qed
  show ?thesis
    unfolding remove_def ensures_simps(3)
    apply (rule ensures_mono[OF hush_interrupts(4)[OF hushed_refl]])
    apply (rule ensures_mono[OF hush_interrupts(2)], assumption)
    apply (rule ensures_mono[OF hush_interrupts(5)], assumption)
    apply (clarify, simp only: ensures_simps(3))
    apply (rule ensures_mono[OF hush_destroy_interfaces], simp)
    apply (clarify, simp only: ensures_simps(3) snd_conv)
    apply (rule ensures_mono[OF eng], assumption)
    apply (clarify, simp only: ensures_simps(3) snd_conv)
    apply (rule ensures_mono[OF irq], assumption)
    apply (rule ensures_mono[OF unm], assumption)
    apply (clarify, rule remove_end_owes; assumption)
    done
qed

section \<open>A machine to run it on\<close>

text \<open>A kernel that grants everything but the memory of the event nodes, and a device with its registers in one BAR and no engine.\<close>

definition tame_ptr :: "io list \<Rightarrow> kcall \<Rightarrow> u64" where
  "tame_ptr l c = (if c = C_kzalloc ''xdma_char'' \<and> (case rev l of Rd _ _ # _ \<Rightarrow> False | _ \<Rightarrow> True) then 0 else 0x100000)"

definition tame_hw :: "io list \<Rightarrow> u64 \<Rightarrow> u32" where
  "tame_hw l a = (if a = 0x102000 then IRQ_BLOCK_ID else if a = 0x103000 then CONFIG_BLOCK_ID else 0)"

definition tame_world :: world where
  "tame_world = quiet_world\<lparr>kptr := tame_ptr, hw := tame_hw\<rparr>"

definition tame :: "world \<Rightarrow> bool" where
  "tame w \<longleftrightarrow> kint w = (\<lambda>_ _. 0) \<and> kptr w = tame_ptr \<and> hw w = tame_hw \<and> \<not> poll_mode w \<and> \<not> enable_credit_mp w"

lemma tame_emit [simp]: "tame (emit e w) = tame w"
  by (simp add: tame_def)

lemma tame_prims:
  "tame w \<Longrightarrow> call_int c w = (0, emit (KI c 0) w)" "call_ptr c w = (kptr w (io w) c, emit (KP c (kptr w (io w) c)) w)"
  "tame w \<Longrightarrow> read_register a w = (tame_hw (io w) a, emit (Rd a (tame_hw (io w) a)) w)"
  by (simp_all add: tame_def io_prim_defs Let_def)

definition ready :: "world \<Rightarrow> bool" where
  "ready w \<longleftrightarrow> (\<exists>l a v. io w = l @ [Rd a v])"

lemma ready_emit [simp]: "ready (emit (Rd a v) w)" "\<not> ready (emit (KP c p) w)" "\<not> ready (emit (KI c r) w)"
  by (auto simp: ready_def)

lemma tame_not_engine: "drop_bit 16 (tame_hw l a) AND 65535 \<noteq> XDMA_ID_H2C" "drop_bit 16 (tame_hw l a) AND 65535 \<noteq> XDMA_ID_C2H"
  by (simp_all add: tame_hw_def const_defs)

lemma tame_probe_for_engine:
  assumes "tame w" and "config_bar lro = Some b"
  shows "\<exists>v. probe_for_engine to_dev ch lro w = Some (0, lro, v) \<and> tame v \<and> ready v"
  using assms by (auto simp: probe_for_engine_def get_engine_id_def get_engine_channel_id_def tame_prims tame_not_engine Let_def ready_def)

lemma tame_probe_dir:
  assumes "tame w" and "config_bar lro = Some b"
  shows "\<exists>v. probe_dir to_dev (lro, w) = Some (None, lro, v) \<and> tame v \<and> ready v"
proof -
  let ?P = "\<lambda>(k :: nat) (x, v). x = lro \<and> tame v \<and> (0 < k \<longrightarrow> ready v)"
  have "\<exists>r s. probe_dir to_dev (lro, w) = Some (r, s) \<and> (case r of None \<Rightarrow> ?P (0 + XDMA_CHANNEL_NUM_MAX) s | Some e \<Rightarrow> False)"
    unfolding probe_dir_def
  proof (rule for_try_total)
    show "?P 0 (lro, w)" using assms by simp
    fix k :: nat and s assume "?P k s"
    then obtain v where s: "s = (lro, v)" "tame v" by (cases s) auto
    from tame_probe_for_engine[OF s(2) assms(2), of to_dev k] obtain v' where
      v': "probe_for_engine to_dev k lro v = Some (0, lro, v')" "tame v'" "ready v'" by blast
    then show "\<exists>r s'. (case s of (lro, w) \<Rightarrow> do { (rc, lro, w) \<leftarrow> probe_for_engine to_dev k lro w; Some (if rc \<noteq> 0 then Some rc else None, lro, w) })
        = Some (r, s') \<and> (case r of None \<Rightarrow> ?P (Suc k) s' | Some e \<Rightarrow> False)" by (simp add: s)
  qed
  then obtain r s where "probe_dir to_dev (lro, w) = Some (r, s)" "case r of None \<Rightarrow> ?P (0 + XDMA_CHANNEL_NUM_MAX) s | Some e \<Rightarrow> False" by blast
  then show ?thesis by (cases r; cases s) (simp_all add: const_defs)
qed

lemma tame_probe_engines:
  assumes "tame w" and "config_bar lro = Some b"
  shows "\<exists>v. probe_engines lro w = Some (0, lro, v) \<and> tame v \<and> ready v"
proof -
  from tame_probe_dir[OF assms] obtain v where 1: "probe_dir True (lro, w) = Some (None, lro, v)" "tame v" by blast
  from tame_probe_dir[OF 1(2) assms(2), of False] 1(1) show ?thesis by (auto simp: probe_engines_def)
qed

lemma tame_channel_nodes: "(\<And>ch. engine (fst s) ch d = None) \<Longrightarrow> channel_nodes d wanted create s = Some (None, s)"
  by (simp add: channel_nodes_def const_defs numeral_eq_Suc)

text \<open>The control node is created after a register was read, the event nodes are not: their memory is refused.\<close>

lemma tame_event_node:
  assumes "tame w" and "\<not> ready w"
  shows "create_sg_char lro b eo type drv w = Some (0, lro, drv, emit (KP (C_kzalloc ''xdma_char'') 0) w)"
proof -
  have "tame_ptr (io w) (C_kzalloc ''xdma_char'') = 0"
    using assms(2) by (auto simp: tame_ptr_def ready_def rev_swap split: list.splits io.splits)
  with assms(1) show ?thesis by (simp add: create_sg_char_def tame_prims tame_def)
qed

lemma tame_event_nodes:
  assumes "tame w" and "\<not> ready w" and "events_char_dev lro = replicate 16 0"
  shows "\<exists>v. create_event_nodes (lro, drv, w) = Some (lro, drv, v) \<and> tame v"
proof -
  let ?P = "\<lambda>(k :: nat) (x :: xdma_dev, d :: xdma_drv, v). x = lro \<and> d = drv \<and> tame v \<and> \<not> ready v"
  have "\<exists>s. create_event_nodes (lro, drv, w) = Some s \<and> ?P (0 + MAX_USER_IRQ) s"
    unfolding create_event_nodes_def
  proof (rule for_range_total)
    show "?P 0 (lro, drv, w)" using assms by simp
    fix k s assume k: "k < 0 + MAX_USER_IRQ" and "?P k s"
    then obtain v where s: "s = (lro, drv, v)" "tame v" "\<not> ready v" by (cases s) auto
    have z: "(events_char_dev lro)[k := 0] = events_char_dev lro" using k assms(3) by (metis list_update_id nth_replicate add_0 MAX_USER_IRQ_def)
    have "lro\<lparr>events_char_dev := events_char_dev lro\<rparr> = lro" by simp
    moreover have "\<not> ready (emit (KP (C_kzalloc ''xdma_char'') 0) v)" by (auto simp: ready_def)
    ultimately show "\<exists>s'. (case s of (lro, drv, w) \<Rightarrow> do { (p, lro, drv, w) \<leftarrow> create_sg_char lro (int k) None CHAR_EVENTS drv w;
        ps \<leftarrow> arr_set (events_char_dev lro) k p; Some (lro\<lparr>events_char_dev := ps\<rparr>, drv, w) }) = Some s' \<and> ?P (Suc k) s'"
      using s k assms(3) z by (simp add: tame_event_node arr_set_def const_defs)
  qed
  then show ?thesis by auto
qed

definition tame_drv :: xdma_drv where
  "tame_drv = demo_drv\<lparr>drv_major := 60\<rparr>"

lemma tame_slot: "dev_slot (replicate 64 False) 0 = Some 0"
  by (subst dev_slot.simps) simp

lemma tame_ctrl_node:
  assumes "tame w" and "ready w" and "major lro = 0" and "config_bar_idx lro = 0"
  shows "\<exists>drv' v. create_ctrl_node (lro, tame_drv, w) = Some (True, lro\<lparr>instance_nr := 0, major := 60, ctrl_char_dev := 0x100000\<rparr>, drv', v) \<and>
    tame v \<and> \<not> ready v \<and> live_node drv' 0x100000 \<and> xdma_class drv' \<noteq> 0 \<and> length (dev_present drv') = 64"
proof -
  have p: "tame_ptr (io w) (C_kzalloc ''xdma_char'') = 0x100000" using assms(2) by (auto simp: ready_def tame_ptr_def)
  show ?thesis
    unfolding create_ctrl_node_def create_sg_char_def prod.case tame_prims(2)
    using assms p
    by (simp add: tame_def new_instance_def tame_slot tame_drv_def demo_drv_def MAX_XDMA_DEVICES_def arr_set_def gen_dev_major_def register_node_def
        gen_dev_minor_def config_kobject_def go_live_def create_dev_def tame_ptr_def call_int_def call_ptr_def call_void_def Let_def live_node_def)
qed

lemma tame_create_interfaces:
  assumes "tame w" and "ready w" and "major lro = 0" and "config_bar_idx lro = 0" and "user_bar_idx lro = -1" and "bypass_bar_idx lro = -1"
    and "events_char_dev lro = replicate 16 0" and "\<And>c d. engine lro c d = None"
  shows "\<exists>drv' v. create_interfaces (lro, tame_drv, w) =
      Some (0, lro\<lparr>user_char_dev := 0, instance_nr := 0, major := 60, ctrl_char_dev := 0x100000, bypass_char_dev_base := 0\<rparr>, drv', v) \<and>
    tame v \<and> live_node drv' 0x100000 \<and> xdma_class drv' \<noteq> 0 \<and> length (dev_present drv') = 64"
proof -
  from tame_ctrl_node[OF assms(1,2), of "lro\<lparr>user_char_dev := 0\<rparr>"] assms(3,4) obtain drv' v where
    1: "create_ctrl_node (lro\<lparr>user_char_dev := 0\<rparr>, tame_drv, w) =
        Some (True, lro\<lparr>user_char_dev := 0, instance_nr := 0, major := 60, ctrl_char_dev := 0x100000\<rparr>, drv', v)"
    "tame v" "\<not> ready v" "live_node drv' 0x100000" "xdma_class drv' \<noteq> 0" "length (dev_present drv') = 64" by auto
  let ?lro = "lro\<lparr>user_char_dev := 0, instance_nr := 0, major := 60, ctrl_char_dev := 0x100000\<rparr>"
  from tame_event_nodes[OF 1(2,3), of ?lro drv'] assms(7) obtain v' where
    "create_event_nodes (?lro, drv', v) = Some (?lro, drv', v')" "tame v'" by auto
  with 1 assms show ?thesis
    by (simp add: create_interfaces_def create_user_node_def tame_channel_nodes create_bypass_base_def)
qed

definition up_dev :: xdma_dev where
  "up_dev = zero_dev\<lparr>dev_magic := MAGIC_DEVICE, config_bar_idx := 0, user_bar_idx := -1, bypass_bar_idx := -1, irq_line := 11,
     got_regions := True, bar := [0x100000, 0, 0, 0, 0, 0]\<rparr>"

lemma tame_probe_tail:
  assumes "tame w"
  shows "\<exists>drv' v. probe_tail up_dev tame_drv w =
     Some (0, Some (up_dev\<lparr>user_char_dev := 0, instance_nr := 0, major := 60, ctrl_char_dev := 0x100000, bypass_char_dev_base := 0\<rparr>), drv', v) \<and>
    tame v \<and> live_node drv' 0x100000 \<and> xdma_class drv' \<noteq> 0 \<and> length (dev_present drv') = 64"
proof -
  have c: "config_bar up_dev = Some 0x100000" by (simp add: config_bar_def up_dev_def)
  from assms have t: "tame (emit (Rd 0x100000 0) w)" by simp
  from tame_probe_engines[OF t c] obtain v where v: "probe_engines up_dev (emit (Rd 0x100000 0) w) = Some (0, up_dev, v)" "tame v" "ready v" by blast
  from tame_create_interfaces[OF v(2,3), of up_dev] obtain drv' v' where
    i: "create_interfaces (up_dev, tame_drv, v) =
      Some (0, up_dev\<lparr>user_char_dev := 0, instance_nr := 0, major := 60, ctrl_char_dev := 0x100000, bypass_char_dev_base := 0\<rparr>, drv', v')"
    "tame v'" "live_node drv' 0x100000" "xdma_class drv' \<noteq> 0" "length (dev_present drv') = 64" by (auto simp: up_dev_def zero_dev_def)
  have r: "read_register 0x100000 w = (0, emit (Rd 0x100000 0) w)" using assms by (simp add: tame_prims tame_hw_def)
  have "\<exists>v''. probe_live (up_dev\<lparr>user_char_dev := 0, instance_nr := 0, major := 60, ctrl_char_dev := 0x100000, bypass_char_dev_base := 0\<rparr>) drv' v' =
      Some (0, Some (up_dev\<lparr>user_char_dev := 0, instance_nr := 0, major := 60, ctrl_char_dev := 0x100000, bypass_char_dev_base := 0\<rparr>), drv', v'') \<and> tame v''"
    using i(2) by (simp add: probe_live_def user_interrupts_enable_def channel_interrupts_enable_def read_interrupts_def int_ctrl_def config_bar_def
        up_dev_def tame_prims write_register_def Let_def tame_def)
  with i v(1) r assms c show ?thesis by (auto simp: probe_tail_def probe_nodes_def tame_def)
qed

lemma for_try_numeral:
  "for_try i (numeral n) f s = do { (r, s) \<leftarrow> f i s; (case r of None \<Rightarrow> for_try (Suc i) (pred_numeral n) f s | Some e \<Rightarrow> Some (Some e, s)) }"
  by (simp add: numeral_eq_Suc)

lemma tame_map_bars:
  assumes "tame w" and "bar lro = replicate 6 0" and "config_bar_idx lro = -1"
  shows "\<exists>v. map_bars demo_pci lro w = Some (0, lro\<lparr>bar := [0x100000, 0, 0, 0, 0, 0], config_bar_idx := 0\<rparr>, v) \<and> tame v"
proof -
  let ?w = "emit (KP (C_pci_iomap 0 65536) 0x100000) w"
  have b: "bar lro = [0, 0, 0, 0, 0, 0]" unfolding assms(2) by (simp add: numeral_eq_Suc)
  have s: "map_single_bar demo_pci 0 lro w = Some (65536, lro\<lparr>bar := [0x100000, 0, 0, 0, 0, 0]\<rparr>, ?w)"
    using assms(1) b by (simp add: map_single_bar_def demo_pci_def arr_set_def tame_prims tame_def tame_ptr_def INT_MAX_def)
  have t: "tame ?w" using assms by simp
  have c: "is_config_bar 0 (lro\<lparr>bar := [0x100000, 0, 0, 0, 0, 0]\<rparr>) ?w = Some (True, emit (Rd 0x103000 CONFIG_BLOCK_ID) (emit (Rd 0x102000 IRQ_BLOCK_ID) ?w))"
    using t by (simp add: is_config_bar_def tame_prims tame_hw_def const_defs ir_def interrupt_regs_def Let_def)
  have z: "map_single_bar demo_pci i x v = Some (0, x, v)" if "i < 6" "i \<noteq> 0" "bar x = [0x100000, 0, 0, 0, 0, 0]" for i x v
  proof -
    have "(bar x)[i := 0] = bar x" using that by (auto simp: less_Suc_eq numeral_eq_Suc)
    then show ?thesis using that by (simp add: map_single_bar_def demo_pci_def arr_set_def)
  qed
  show ?thesis
    using s c z t assms(1,3)
    by (simp add: map_bars_def map_bar_step_def identify_bars_def XDMA_BAR_NUM_def XDMA_BAR_SIZE_def for_try_numeral Let_def)
qed

lemma tame_irq_setup:
  assumes "tame w" and "\<not> msix_enabled lro"
  shows "\<exists>v. irq_setup 11 lro w = Some (0, lro\<lparr>irq_line := 11\<rparr>, v) \<and> tame v"
  using assms by (auto simp: irq_setup_def tame_prims Let_def split_def tame_def)

lemma tame_early:
  assumes "tame w"
  shows "\<exists>v. probe_scan_for_msi demo_pci lro w = (0, lro, v) \<and> tame v"
    "request_regions lro w = (0, lro\<lparr>got_regions := True\<rparr>, emit (KI (C_pci ''pci_request_regions'') 0) w)"
    "\<exists>v. set_dma_mask w = (0, v) \<and> tame v"
  using assms by (auto simp: probe_scan_for_msi_def msi_msix_capable_def demo_pci_def request_regions_def set_dma_mask_def tame_prims)

lemma tame_probe:
  "\<exists>drv' v. probe demo_pci tame_drv tame_world =
     Some (0, Some (up_dev\<lparr>user_char_dev := 0, instance_nr := 0, major := 60, ctrl_char_dev := 0x100000, bypass_char_dev_base := 0\<rparr>), drv', v) \<and>
    tame v \<and> live_node drv' 0x100000 \<and> xdma_class drv' \<noteq> 0 \<and> length (dev_present drv') = 64"
proof -
  define lro where "lro = zero_dev\<lparr>dev_magic := MAGIC_DEVICE, config_bar_idx := -1, user_bar_idx := -1, bypass_bar_idx := -1, irq_line := -1\<rparr>"
  define w1 where "w1 = emit (KP (C_kzalloc ''xdma_dev'') 0x100000) tame_world"
  have t: "tame tame_world" by (simp add: tame_def tame_world_def)
  have a: "alloc_dev_instance tame_world = (Some lro, w1)"
    by (simp add: alloc_dev_instance_def tame_prims tame_world_def tame_ptr_def lro_def w1_def)
  have t1: "tame w1" using t by (simp add: w1_def)
  define w2 where "w2 = call_void (C_pci ''pci_set_master'') (emit (KI (C_pci ''pci_enable_device'') 0) w1)"
  have t2: "tame w2" using t1 by (simp add: w2_def call_void_def)
  obtain w3 where s: "probe_scan_for_msi demo_pci lro w2 = (0, lro, w3)" "tame w3" using tame_early(1)[OF t2] by blast
  define w4 where "w4 = emit (KI (C_pci ''pci_request_regions'') 0) w3"
  have t4: "tame w4" using s(2) by (simp add: w4_def)
  obtain w5 where m: "map_bars demo_pci (lro\<lparr>got_regions := True\<rparr>) w4 =
      Some (0, lro\<lparr>got_regions := True, bar := [0x100000, 0, 0, 0, 0, 0], config_bar_idx := 0\<rparr>, w5)" "tame w5"
    using tame_map_bars[OF t4, of "lro\<lparr>got_regions := True\<rparr>"] by (auto simp: lro_def zero_dev_def XDMA_BAR_NUM_def)
  obtain w6 where k: "set_dma_mask w5 = (0, w6)" "tame w6" using tame_early(3)[OF m(2)] by blast
  have u: "up_dev = lro\<lparr>got_regions := True, bar := [0x100000, 0, 0, 0, 0, 0], config_bar_idx := 0, irq_line := 11\<rparr>"
    by (simp add: up_dev_def lro_def)
  obtain w7 where i: "irq_setup 11 (lro\<lparr>got_regions := True, bar := [0x100000, 0, 0, 0, 0, 0], config_bar_idx := 0\<rparr>) w6 = Some (0, up_dev, w7)" "tame w7"
    using tame_irq_setup[OF k(2), of "lro\<lparr>got_regions := True, bar := [0x100000, 0, 0, 0, 0, 0], config_bar_idx := 0\<rparr>"] unfolding u by (auto simp: lro_def zero_dev_def)
  have "probe demo_pci tame_drv tame_world = probe_tail up_dev tame_drv w7"
    unfolding probe_def a prod.case option.case tame_prims(1)[OF t1] Let_def w2_def[symmetric] s(1) tame_early(2)[OF s(2)] w4_def[symmetric]
    using m(1) k(1) i(1) by (simp add: demo_pci_def)
  with tame_probe_tail[OF i(2)] show ?thesis by simp
qed

definition live_dev :: xdma_dev where
  "live_dev = up_dev\<lparr>user_char_dev := 0, instance_nr := 0, major := 60, ctrl_char_dev := 0x100000, bypass_char_dev_base := 0\<rparr>"

lemma for_range_idle: "(\<And>k. i \<le> k \<Longrightarrow> k < i + n \<Longrightarrow> f k s = Some s) \<Longrightarrow> for_range i n f s = Some s"
  by (induction n arbitrary: i) simp_all

lemma tame_destroy:
  assumes "live_node drv 0x100000" and "xdma_class drv \<noteq> 0"
  shows "\<exists>drv' v. destroy_interfaces live_dev (drv, w) = Some (drv', v) \<and> dev_present drv' = dev_present drv"
proof -
  have z: "user_char_dev live_dev = 0" "sgdma_char_dev live_dev = (\<lambda>_ _. 0)" "bypass_char_dev live_dev = (\<lambda>_ _. 0)" "bypass_char_dev_base live_dev = 0"
    "events_char_dev live_dev = replicate 16 0" "ctrl_char_dev live_dev = 0x100000"
    by (simp_all add: live_dev_def up_dev_def zero_dev_def)
  show ?thesis
    using assms
    by (auto simp: destroy_interfaces_def z destroy_if_def for_range_idle arr_get_def const_defs destroy_sg_char_def live_node_def Let_def split: option.splits)
qed

lemma tame_remove:
  assumes "live_node drv 0x100000" and "xdma_class drv \<noteq> 0" and "length (dev_present drv) = 64"
  shows "\<exists>r. remove live_dev drv w = Some r"
proof -
  have c: "config_bar live_dev = Some 0x100000" by (simp add: config_bar_def live_dev_def up_dev_def)
  have e: "remove_engines live_dev v = Some (live_dev, v)" for v
    unfolding remove_engines_def by (rule for_range_idle) (simp add: live_dev_def up_dev_def zero_dev_def)
  have f: "\<not> msix_enabled live_dev" "irq_line live_dev = 11" "instance_nr live_dev = 0" "length (bar live_dev) = 6" "\<not> msi_enabled live_dev"
    by (simp_all add: live_dev_def up_dev_def zero_dev_def)
  have "\<exists>x v'. unmap_bars live_dev v = Some (x, v') \<and> instance_nr x = 0" for v
  proof -
    let ?P = "\<lambda>(k :: nat) (x :: xdma_dev, v :: world). length (bar x) = 6 \<and> instance_nr x = 0"
    have "\<exists>s. for_range 0 XDMA_BAR_NUM unmap_one (live_dev, v) = Some s \<and> ?P (0 + XDMA_BAR_NUM) s"
      by (rule for_range_total) (use f in \<open>auto simp: unmap_one_def XDMA_BAR_NUM_def arr_get_def arr_set_def Let_def\<close>)
    then show ?thesis by (auto simp: unmap_bars_def)
  qed
  then have u: "\<exists>x v'. unmap_bars live_dev v = Some (x, v') \<and> instance_nr x = 0" for v by blast
  obtain w1 where 1: "channel_interrupts_disable live_dev (- 1) w = Some w1" using c by (auto simp: channel_interrupts_disable_def int_ctrl_def)
  obtain w2 where 2: "user_interrupts_disable live_dev (- 1) w1 = Some w2" using c by (auto simp: user_interrupts_disable_def int_ctrl_def)
  obtain y w3 where 3: "read_interrupts live_dev w2 = Some (y, w3)" using c by (auto simp: read_interrupts_def int_ctrl_def Let_def split_def)
  obtain drv' w4 where 4: "destroy_interfaces live_dev (drv, w3) = Some (drv', w4)" "dev_present drv' = dev_present drv"
    using tame_destroy[OF assms(1,2)] by blast
  obtain w5 where 5: "irq_teardown live_dev w4 = Some w5" using f by (simp add: irq_teardown_def)
  obtain x w6 where 6: "unmap_bars live_dev w5 = Some (x, w6)" "instance_nr x = 0" using u by blast
  have "length (dev_present drv') = 64" using 4(2) assms(3) by simp
  with 1 2 3 4(1) e 5 6 show ?thesis by (simp add: remove_def arr_set_def Let_def split_def)
qed

section \<open>From probe to remove\<close>

text \<open>Using a device changes the state of its engines, but not their lines and buffers, nor what else the device holds.\<close>

definition in_use :: "xdma_dev \<Rightarrow> xdma_dev \<Rightarrow> bool" where
  "in_use lro lro' \<longleftrightarrow> eng_frame lro lro' \<and>
     (\<forall>c d. map_option (\<lambda>e. (msix_irq_line e, poll_mode_addr_virt e)) (engine lro' c d) =
            map_option (\<lambda>e. (msix_irq_line e, poll_mode_addr_virt e)) (engine lro c d))"

lemma kept_in_use:
  assumes "kept w0 lro w" and "in_use lro lro'" and "hushed w w'"
  shows "kept w0 lro' w'"
proof -
  have f: "eng_frame lro lro'" using assms(2) by (simp add: in_use_def)
  have "slot_held p (engine lro' c d) = slot_held p (engine lro c d)" for p c d
  proof -
    have "map_option (\<lambda>e. (msix_irq_line e, poll_mode_addr_virt e)) (engine lro' c d) =
        map_option (\<lambda>e. (msix_irq_line e, poll_mode_addr_virt e)) (engine lro c d)" using assms(2) by (simp add: in_use_def)
    then show ?thesis by (cases "engine lro' c d"; cases "engine lro c d") (auto simp: slot_held_def engine_held_def)
  qed
  then have "engines_held (poll_mode w0) lro' 0 = engines_held (poll_mode w0) lro 0" by (simp add: engines_held_def)
  with assms(1) show ?thesis by (auto simp: kept_def eng_frame_eqs[OF f] intro: owes_hushed[OF _ assms(3)])
qed

lemma acquired_msix: "R_msix \<in># acquired e \<Longrightarrow> e = KI (C_pci ''pci_enable_msix'') 0"
  by (cases e rule: acquired.cases) (auto split: if_splits)

lemma tally_event: "x \<in># tally f l \<Longrightarrow> \<exists>e \<in> set l. x \<in># f e"
  by (induction l) auto


definition refusing :: world where
  "refusing = tame_world\<lparr>kint := (\<lambda>_ c. if c = C_pci ''pci_request_regions'' then -16 else if c = C_misc ''pci_find_capability'' PCI_CAP_ID_MSIX then 1 else 0)\<rparr>"


text \<open>
  C13. From \<^verbatim>\<open>probe\<close> to \<^verbatim>\<open>remove\<close>. A device that was kept is used, and removed: when \<^verbatim>\<open>remove\<close> returns, everything that was taken
  since \<^verbatim>\<open>probe\<close> was called has been given back, exactly once: the device, its engines, their lines and buffers, the BARs, the
  regions and the message interrupts.
\<close>

theorem probe_remove_balanced:
  assumes "probe dev drv w = Some (rc, Some lro, drv1, w1)" and "msi_plain w" and "pdev_irq dev \<noteq> -1"
    and "in_use lro lro'" and "hushed w1 w2" and "remove lro' drv2 w2 = Some (drv3, w3)"
  shows "\<exists>l. io w3 = io w @ l \<and> tally acquired l = tally released l"
proof -
  have "probe_ends w (rc, Some lro, drv1, w1)" by (rule ensuresD[OF probe_owes[OF assms(2,3)] assms(1)])
  then have "kept w lro w1" by (auto simp: probe_ends_def)
  from ensuresD[OF remove_owes[OF kept_in_use[OF this assms(4,5)]] assms(6)] show ?thesis by (auto simp: owes_def)
qed

theorem probe_remove_balanced_witness:
  "\<exists>rc lro drv1 w1 drv2 w2. probe demo_pci tame_drv tame_world = Some (rc, Some lro, drv1, w1) \<and> remove lro drv1 w1 = Some (drv2, w2) \<and>
    tally acquired (io w2) = tally released (io w2)"
proof -
  obtain drv1 w1 where p: "probe demo_pci tame_drv tame_world = Some (0, Some live_dev, drv1, w1)"
    "live_node drv1 0x100000" "xdma_class drv1 \<noteq> 0" "length (dev_present drv1) = 64"
    using tame_probe by (auto simp: live_dev_def)
  from tame_remove[OF p(2-4)] obtain drv2 w2 where r: "remove live_dev drv1 w1 = Some (drv2, w2)" by fastforce
  have "\<exists>l. io w2 = io tame_world @ l \<and> tally acquired l = tally released l"
    by (rule probe_remove_balanced[OF p(1) _ _ _ hushed_refl r])
      (simp_all add: msi_plain_def tame_world_def tame_ptr_def demo_pci_def in_use_def eng_frame_def)
  then have "tally acquired (io w2) = tally released (io w2)" by (simp add: tame_world_def)
  with p(1) r show ?thesis by blast
qed

end
