(* ===== verification/Xdma_Clk.thy ===== *)
theory Xdma_Clk
  imports Xdma_Chardev
begin

text \<open>
  The clock and reset controls of \<^verbatim>\<open>xdma-ioctl.c\<close>, part of the SDAccel build of the driver: the AXI gate that isolates
  the OpenCL region, the clocking wizard, and the resets.

  The fields of \<^verbatim>\<open>struct xdma_dev\<close> only this build uses, and the PCI identifiers it reads, are a record of
  their own that is passed beside the device.
\<close>

record accel =
  axi_gate_frozen :: bool
  clear_bitstream :: "(u64 \<times> u8 list) option"
  clear_bitstream_length :: u32
  mcap_base :: nat
  feature_id :: u64
  vendor_id :: u16
  device_id :: u16
  subsystem_vendor :: u16
  subsystem_device :: u16

definition AXI_GATE_OFFSET :: u64 where [const_defs]: "AXI_GATE_OFFSET = 0x030000"
definition AXI_GATE_OFFSET_READ :: u64 where [const_defs]: "AXI_GATE_OFFSET_READ = 0x030008"
definition OCL_CTLR_OFFSET :: u64 where [const_defs]: "OCL_CTLR_OFFSET = 0"
definition OCL_CU_CTRL_RANGE :: u64 where [const_defs]: "OCL_CU_CTRL_RANGE = 0x1000"
definition OCL_CLKWIZ_STATUS :: u64 where [const_defs]: "OCL_CLKWIZ_STATUS = 0x050004"
definition OCL_CLKWIZ_CONFIG :: "nat \<Rightarrow> u64" where [const_defs]: "OCL_CLKWIZ_CONFIG n = 0x050200 + 4 * of_nat n"
definition XDMA_7V3_INPUT_FREQ :: u64 where [const_defs]: "XDMA_7V3_INPUT_FREQ = 100"
definition XDMA_KU3_INPUT_FREQ :: u64 where [const_defs]: "XDMA_KU3_INPUT_FREQ = 200"

definition user_bar :: "xdma_dev \<Rightarrow> u64 option" where
  "user_bar lro = (if user_bar_idx lro < 0 then None else arr_get (bar lro) (nat (user_bar_idx lro)))"

definition iowrite8 :: "u8 \<Rightarrow> u64 \<Rightarrow> world \<Rightarrow> world" where
  "iowrite8 v a w = emit (Wr a (ucast v)) w"

definition udelay :: "nat \<Rightarrow> world \<Rightarrow> world" where
  "udelay n w = call_void (C_delay n) w"

section \<open>The frequency table\<close>

record clockwiz =
  ocl :: u32
  divide :: u32
  divide_frac :: u32

definition clk :: "u32 \<Rightarrow> u32 \<Rightarrow> u32 \<Rightarrow> clockwiz" where
  "clk f d r = \<lparr>ocl = f, divide = d, divide_frac = r\<rparr>"

definition frequency_table :: "clockwiz list" where
  "frequency_table = [clk 25 0x28 0, clk 50 0x14 0, clk 75 0xd 0x14d, clk 100 0xa 0, clk 125 0x8 0, clk 150 0x6 0x29a,
     clk 175 0x5 0x2ca, clk 200 0x5 0, clk 225 0x4 0x1bc, clk 250 0x4 0, clk 275 0x3 0x27c, clk 300 0x3 0x14d,
     clk 325 0x3 0x4c, clk 350 0x2 0x359, clk 375 0x2 0x29a, clk 400 0x2 0x1f4]"

section \<open>Engines and interrupts after a reset\<close>

definition engine_reinit :: "xdma_engine \<Rightarrow> world \<Rightarrow> world" where
  "engine_reinit e w = write_register (XDMA_CTRL_IE_DESC_STOPPED OR XDMA_CTRL_IE_DESC_COMPLETED OR XDMA_CTRL_IE_DESC_ALIGN_MISMATCH OR
     XDMA_CTRL_IE_MAGIC_STOPPED OR XDMA_CTRL_IE_READ_ERROR OR XDMA_CTRL_IE_DESC_ERROR) (regs e + er R_interrupt_enable_mask) w"

text \<open>\<^verbatim>\<open>interrupts_enable\<close> is declared but defined nowhere in the repository: it is the parameter \<open>enable\<close>.\<close>

definition reinit :: "(xdma_dev \<Rightarrow> u64 \<Rightarrow> u32 \<Rightarrow> world \<Rightarrow> int \<times> world) \<Rightarrow> xdma_dev \<Rightarrow> world \<Rightarrow> (int \<times> world) option" where
  "reinit enable lro w = do {
     let (rc, w) = enable lro XDMA_OFS_INT_CTRL 0x00ffffff w;
     w \<leftarrow> for_range 0 2 (\<lambda>d w. for_range 0 XDMA_CHANNEL_NUM_MAX (\<lambda>c w.
            Some (case engine lro c d of Some e \<Rightarrow> engine_reinit e w | None \<Rightarrow> w)) w) w;
     Some (rc, w) }"

section \<open>The AXI gate\<close>

definition compute_unit_busy :: "xdma_dev \<Rightarrow> world \<Rightarrow> (u32 \<times> world) option" where
  "compute_unit_busy lro w = do {
     b \<leftarrow> user_bar lro;
     let (r, w) = read_register (b + AXI_GATE_OFFSET_READ) w;
     if r \<noteq> 3 then Some (0, w)
     else for_range 0 16 (\<lambda>i (result, w).
       let (r, w) = read_register (b + OCL_CTLR_OFFSET + of_nat i * OCL_CU_CTRL_RANGE) w
       in Some (if r = 1 then result OR push_bit i r else result, w)) (0, w) }"

definition gate_write :: "u64 \<Rightarrow> u8 \<Rightarrow> world \<Rightarrow> world" where
  "gate_write b v w = iowrite8 v (b + AXI_GATE_OFFSET) (snd (read_register (b + AXI_GATE_OFFSET_READ) w))"

definition freezeAXIGate :: "xdma_dev \<Rightarrow> accel \<times> world \<Rightarrow> (accel \<times> world) option" where
  "freezeAXIGate lro s = (case s of (a, w) \<Rightarrow> do {
     BUG_ON (axi_gate_frozen a);
     b \<leftarrow> user_bar lro;
     let w = gate_write b 0 w;
     let (_, w) = read_register (b + AXI_GATE_OFFSET_READ) w;
     Some (a\<lparr>axi_gate_frozen := True\<rparr>, w) })"

definition freeAXIGate :: "xdma_dev \<Rightarrow> accel \<times> world \<Rightarrow> (accel \<times> world) option" where
  "freeAXIGate lro s = (case s of (a, w) \<Rightarrow> do {
     BUG_ON (\<not> axi_gate_frozen a);
     b \<leftarrow> user_bar lro;
     let w = udelay 500 (gate_write b 2 w);
     let w = udelay 500 (gate_write b 0 w);
     let w = udelay 500 (gate_write b 2 w);
     let w = udelay 500 (gate_write b 3 w);
     let (_, w) = read_register (b + AXI_GATE_OFFSET_READ) w;
     Some (a\<lparr>axi_gate_frozen := False\<rparr>, w) })"

section \<open>The clocking wizard\<close>

text \<open>The frequency from the two configuration words, in the 32-bit arithmetic of the source.\<close>

definition clkwiz_freq :: "u64 \<Rightarrow> u32 \<Rightarrow> u32 \<Rightarrow> u64" where
  "clkwiz_freq input c0 c2 =
    (let mul_frac0 = (if bit c0 26 then drop_bit 16 c0 AND 0x3ff else 0);
         mul0 = drop_bit 8 (c0 AND 0xff00) * 1000 + mul_frac0;
         div0 = (c0 AND 0xff) * 1000;
         div_frac1 = (if bit c2 18 then drop_bit 8 c2 AND 0x3ff else 0);
         div1 = (c2 AND 0xff) * 1000 + div_frac1;
         div0 = div0 * div1;
         mul0 = mul0 * 1000
     in if div0 = 0 then 0 else (input * ucast mul0) div ucast div0)"

definition get_ocl_frequency :: "xdma_dev \<Rightarrow> accel \<Rightarrow> world \<Rightarrow> (u64 \<times> world) option" where
  "get_ocl_frequency lro a w = do {
     let input = (if device_id a = 0x8138 then XDMA_KU3_INPUT_FREQ else XDMA_7V3_INPUT_FREQ);
     b \<leftarrow> user_bar lro;
     let (val, w) = read_register (b + OCL_CLKWIZ_STATUS) w;
     if val AND 1 = 0 then Some (0, w)
     else do {
       let (c0, w) = read_register (b + OCL_CLKWIZ_CONFIG 0) w;
       let (c2, w) = read_register (b + OCL_CLKWIZ_CONFIG 2) w;
       Some (clkwiz_freq input c0 c2, w) } }"

text \<open>The ten words of \<^verbatim>\<open>struct xdma_ioc_info\<close>.\<close>

definition info_words :: "accel \<Rightarrow> u64 \<Rightarrow> u32 list" where
  "info_words a freq = [0, 0, push_bit 16 (ucast (device_id a)) OR ucast (vendor_id a),
     push_bit 16 (ucast (subsystem_device a)) OR ucast (subsystem_vendor a), 0, 0x10000,
     ucast (feature_id a), ucast (drop_bit 32 (feature_id a)), ucast freq, 0]"

definition version_ioctl :: "xdma_dev \<Rightarrow> accel \<Rightarrow> u64 \<Rightarrow> world \<Rightarrow> (int \<times> world) option" where
  "version_ioctl lro a arg w = do {
     let (r, w) = call_int (C_copy_from_user arg 40) w;
     if r \<noteq> 0 then Some (- EFAULT, w)
     else do {
       (freq, w) \<leftarrow> get_ocl_frequency lro a w;
       let (r, w) = call_int (C_copy_to_user arg (info_words a freq)) w;
       Some (if r \<noteq> 0 then - EFAULT else 0, w) } }"

section \<open>Resets\<close>

definition reset_ocl_ioctl :: "xdma_dev \<Rightarrow> accel \<times> world \<Rightarrow> (int \<times> accel \<times> world) option" where
  "reset_ocl_ioctl lro s = (case s of (a, w) \<Rightarrow> do {
     (busy, w) \<leftarrow> compute_unit_busy lro w;
     if busy = 0 then Some (0, a, w)
     else do {
       s \<leftarrow> freezeAXIGate lro (a, w);
       (a, w) \<leftarrow> freeAXIGate lro s;
       (busy, w) \<leftarrow> compute_unit_busy lro w;
       Some (if busy \<noteq> 0 then - EBUSY else 0, a, w) } })"

definition cfg_read :: "nat \<Rightarrow> world \<Rightarrow> u32 \<times> world" where
  "cfg_read i w = (case call_ptr (C_cfg_read i) w of (v, w) \<Rightarrow> (ucast v, w))"

fun cfg_save :: "nat \<Rightarrow> nat \<Rightarrow> world \<Rightarrow> u32 list \<times> world" where
  "cfg_save i 0 w = ([], w)"
| "cfg_save i (Suc n) w = (case cfg_read (4 * i) w of (v, w) \<Rightarrow> case cfg_save (Suc i) n w of (vs, w) \<Rightarrow> (v # vs, w))"

fun cfg_restore :: "nat \<Rightarrow> u32 list \<Rightarrow> world \<Rightarrow> world" where
  "cfg_restore i [] w = w"
| "cfg_restore i (v # vs) w = cfg_restore (Suc i) vs (call_void (C_cfg_write (4 * i) v) w)"

text \<open>The byte \<^verbatim>\<open>PCI_MIN_GNT\<close> of the root port above the device, whose bit 6 holds the hot reset.\<close>

definition reset_hot_ioctl ::
  "(xdma_dev \<Rightarrow> u64 \<Rightarrow> u32 \<Rightarrow> world \<Rightarrow> int \<times> world) \<Rightarrow> xdma_dev \<Rightarrow> world \<Rightarrow> (int \<times> world) option" where
  "reset_hot_ioctl enable lro w = do {
     let (p, w) = call_ptr (C_misc ''kmalloc'' 0x100) w;
     if p = 0 then Some (- ENOMEM, w)
     else do {
       let (saved, w) = cfg_save 0 64 w;
       let (hot, w) = call_ptr (C_misc ''root port read PCI_MIN_GNT'' 0) w;
       let w = call_void (C_misc ''root port write PCI_MIN_GNT'' (unat ((hot OR 0x40) AND 0xff))) w;
       let w = udelay 1000000000 w;
       let w = call_void (C_misc ''root port write PCI_MIN_GNT'' (unat (hot AND 0xff))) w;
       let w = udelay 1000000000 w;
       let w = cfg_restore 0 saved w;
       let w = udelay 1000000000 w;
       let (_, w) = cfg_save 0 64 w;
       (err, w) \<leftarrow> reinit enable lro w;
       Some (err, call_void (C_kfree p) (udelay 1000000000 w)) } }"

definition reset_device_if_running ::
  "(xdma_dev \<Rightarrow> u64 \<Rightarrow> u32 \<Rightarrow> world \<Rightarrow> int \<times> world) \<Rightarrow> xdma_dev \<Rightarrow> accel \<times> world \<Rightarrow> (int \<times> accel \<times> world) option" where
  "reset_device_if_running enable lro s = (case s of (a, w) \<Rightarrow> do {
     (busy, w) \<leftarrow> compute_unit_busy lro w;
     if busy = 0 then Some (0, a, w)
     else do {
       (r, a, w) \<leftarrow> reset_ocl_ioctl lro (a, w);
       if r = 0 then Some (0, a, w)
       else do { (r, w) \<leftarrow> reset_hot_ioctl enable lro w; Some (r, a, w) } } })"

section \<open>Frequency scaling\<close>

text \<open>The divider word the source computes for an entry of the table.\<close>

definition divider_word :: "clockwiz \<Rightarrow> u32" where
  "divider_word c =
    (let config = push_bit 8 (divide_frac c);
         config = (if config \<noteq> 0 then config AND push_bit 18 1 else config)
     in config OR divide c)"

text \<open>A thousand reads of the status; the loop has no way out once the clock is locked.\<close>

fun lock_loop :: "u64 \<Rightarrow> nat \<Rightarrow> u32 \<Rightarrow> world \<Rightarrow> u32 \<times> world" where
  "lock_loop b 0 val w = (val, w)"
| "lock_loop b (Suc n) val w =
    (let (val, w) = read_register (b + OCL_CLKWIZ_STATUS) w
     in lock_loop b n val (if val \<noteq> 1 then udelay 100000 w else w))"

definition clkwiz_program :: "u64 \<Rightarrow> accel \<Rightarrow> clockwiz \<Rightarrow> world \<Rightarrow> int \<times> world" where
  "clkwiz_program b a c w =
    (let w = write_register (if device_id a = 0x8138 then 0x04000501 else 0x04000a01) (b + OCL_CLKWIZ_CONFIG 0) w;
         w = udelay 10000 (write_register (divider_word c) (b + OCL_CLKWIZ_CONFIG 2) w);
         w = udelay 10000 (write_register 7 (b + OCL_CLKWIZ_CONFIG 23) w);
         w = udelay 100000 (write_register 2 (b + OCL_CLKWIZ_CONFIG 23) w);
         (val, w) = lock_loop b 1000 0 w
     in if val \<noteq> 1 then
          (- EINVAL, write_register 0 (b + OCL_CLKWIZ_CONFIG 23) (udelay 10000 (write_register 4 (b + OCL_CLKWIZ_CONFIG 23) w)))
        else (0, w))"

definition ocl_freqscaling_ioctl :: "xdma_dev \<Rightarrow> u64 \<Rightarrow> accel \<times> world \<Rightarrow> (int \<times> accel \<times> world) option" where
  "ocl_freqscaling_ioctl lro arg s = (case s of (a, w) \<Rightarrow> do {
     let (r, w) = call_int (C_copy_from_user arg 12) w;
     if r \<noteq> 0 then Some (- EFAULT, a, w)
     else do {
     let target = usr w (io w) (arg + 8);
     b \<leftarrow> user_bar lro;
     let (val, w) = read_register (b + OCL_CLKWIZ_STATUS) w;
     if val AND 1 = 0 then Some (- EBUSY, a, w)
     else do {
     (busy, w) \<leftarrow> compute_unit_busy lro w;
     if busy \<noteq> 0 then Some (- EBUSY, a, w)
     else if target > 250 \<or> target < ocl (frequency_table ! 0) then Some (- EINVAL, a, w)
     else do {
     (_, w) \<leftarrow> get_ocl_frequency lro a w;
     let idx = unat (target div ocl (frequency_table ! 0)) - 1;
     (a, w) \<leftarrow> freezeAXIGate lro (a, w);
     let (_, w) = read_register (b + OCL_CLKWIZ_CONFIG 0) w;
     let (_, w) = read_register (b + OCL_CLKWIZ_CONFIG 2) w;
     let (val, w) = read_register (b + OCL_CLKWIZ_STATUS) w;
     c \<leftarrow> arr_get frequency_table idx;
     let (err, w) = (if val \<noteq> 1 then (- EBUSY, w) else clkwiz_program b a c w);
     (_, w) \<leftarrow> get_ocl_frequency lro a w;
     (a, w) \<leftarrow> freeAXIGate lro (a, w);
     Some (err, a, w) } } } })"

end
