(* ===== verification/Xdma_Bit.thy ===== *)
theory Xdma_Bit
  imports Xdma_Clk
begin

text \<open>
  Loading a bitstream into the FPGA, from \<^verbatim>\<open>xdma-bit.c\<close>: the parser of the bitstream header, the transfer through
  the ICAP and through the MCAP, the container of the ioctl and of the boot firmware, and the ioctl of the
  user node that dispatches to them (\<^verbatim>\<open>xdma-ioctl.c\<close>).

  A buffer is the list of its bytes; an access past its end is a crash. Bytes of user memory are the low
  bytes of the words at their addresses.
\<close>

definition DMA_HWICAP_BITFILE_BUFFER_SIZE :: nat where [const_defs]: "DMA_HWICAP_BITFILE_BUFFER_SIZE = 1024"
definition XHI_EVEN_MAGIC_BYTE :: u8 where [const_defs]: "XHI_EVEN_MAGIC_BYTE = 0x0f"
definition XHI_ODD_MAGIC_BYTE :: u8 where [const_defs]: "XHI_ODD_MAGIC_BYTE = 0xf0"
definition XHI_BIT_HEADER_FAILURE :: u32 where [const_defs]: "XHI_BIT_HEADER_FAILURE = - 1"
definition XHWICAP_WF :: u64 where [const_defs]: "XHWICAP_WF = 0x020100"
definition XHWICAP_CR :: u64 where [const_defs]: "XHWICAP_CR = 0x02010c"
definition XHWICAP_SR :: u64 where [const_defs]: "XHWICAP_SR = 0x020110"
definition XHWICAP_WFV :: u64 where [const_defs]: "XHWICAP_WFV = 0x020114"
definition MCAP_STATUS :: nat where [const_defs]: "MCAP_STATUS = 0x10"
definition MCAP_CONTROL :: nat where [const_defs]: "MCAP_CONTROL = 0x14"
definition MCAP_DATA :: nat where [const_defs]: "MCAP_DATA = 0x18"
definition MCAP_CTRL_MODE_MASK :: u32 where [const_defs]: "MCAP_CTRL_MODE_MASK = 0x1"
definition MCAP_CTRL_REG_READ_MASK :: u32 where [const_defs]: "MCAP_CTRL_REG_READ_MASK = 0x2"
definition MCAP_CTRL_RESET_MASK :: u32 where [const_defs]: "MCAP_CTRL_RESET_MASK = 0x10"
definition MCAP_CTRL_MOD_RESET_MASK :: u32 where [const_defs]: "MCAP_CTRL_MOD_RESET_MASK = 0x20"
definition MCAP_CTRL_IN_USE_MASK :: u32 where [const_defs]: "MCAP_CTRL_IN_USE_MASK = 0x100"
definition MCAP_CTRL_DESIGN_SWITCH_MASK :: u32 where [const_defs]: "MCAP_CTRL_DESIGN_SWITCH_MASK = 0x1000"
definition MCAP_CTRL_DATA_REG_PROT_MASK :: u32 where [const_defs]: "MCAP_CTRL_DATA_REG_PROT_MASK = 0x10000"
definition MCAP_STS_ERR_MASK :: u32 where [const_defs]: "MCAP_STS_ERR_MASK = 0x1"
definition MCAP_STS_EOS_MASK :: u32 where [const_defs]: "MCAP_STS_EOS_MASK = 0x2"
definition MCAP_STS_REG_READ_CMP_MASK :: u32 where [const_defs]: "MCAP_STS_REG_READ_CMP_MASK = 0x10"
definition MCAP_STS_FIFO_OVERFLOW_MASK :: u32 where [const_defs]: "MCAP_STS_FIFO_OVERFLOW_MASK = 0x100"
definition MCAP_STS_CFG_MCAP_REQ_MASK :: u32 where [const_defs]: "MCAP_STS_CFG_MCAP_REQ_MASK = 0x1000000"
definition MCAP_LOOP_COUNT :: nat where "MCAP_LOOP_COUNT = 1000000"
definition EMCAP_EOS_RETRY_COUNT :: nat where [const_defs]: "EMCAP_EOS_RETRY_COUNT = 10"
definition EMCAP_EOS_LOOP_COUNT :: nat where [const_defs]: "EMCAP_EOS_LOOP_COUNT = 100"
definition EMCAP_NOOP_VAL :: u32 where [const_defs]: "EMCAP_NOOP_VAL = 0x2000000"

section \<open>The header of a bitstream\<close>

text \<open>A name is the block it was copied to and its bytes; \<open>None\<close> is the NULL of the zeroed structure.\<close>

record bit_header =
  HeaderLength :: u32
  BitstreamLength :: u32
  DesignName :: "(u64 \<times> u8 list) option"
  PartName :: "(u64 \<times> u8 list) option"
  Date :: "(u64 \<times> u8 list) option"
  Time :: "(u64 \<times> u8 list) option"
  MagicLength :: u32

definition zero_header :: bit_header where
  "zero_header = \<lparr>HeaderLength = 0, BitstreamLength = 0, DesignName = None, PartName = None, Date = None, Time = None, MagicLength = 0\<rparr>"

text \<open>The alternating magic bytes: \<open>n\<close> of them from index \<open>i\<close>, the first at an even position when \<open>even\<close>.\<close>

fun magic_bytes :: "u8 list \<Rightarrow> nat \<Rightarrow> bool \<Rightarrow> nat \<Rightarrow> bool option" where
  "magic_bytes data i ev 0 = Some True"
| "magic_bytes data i ev (Suc n) = do {
     t \<leftarrow> arr_get data i;
     if t \<noteq> (if ev then XHI_EVEN_MAGIC_BYTE else XHI_ODD_MAGIC_BYTE) then Some False
     else magic_bytes data (Suc i) (\<not> ev) n }"

definition be16 :: "u8 \<Rightarrow> u8 \<Rightarrow> nat" where
  "be16 hi lo = unat hi * 256 + unat lo"

text \<open>
  One tagged name: the tag, a length, the bytes, the last of which has to be NUL. The result is the index after
  it, or \<open>None\<close> for an invalid header. A length of 0 makes the source read before the block.
\<close>

definition name_field ::
  "u8 \<Rightarrow> ((u64 \<times> u8 list) \<Rightarrow> bit_header \<Rightarrow> bit_header) \<Rightarrow> u8 list \<Rightarrow> nat \<Rightarrow> bit_header \<Rightarrow> world \<Rightarrow>
     (nat option \<times> bit_header \<times> world) option" where
  "name_field tag upd data i h w = do {
     t \<leftarrow> arr_get data i;
     if t \<noteq> tag then Some (None, h, w)
     else do {
       hi \<leftarrow> arr_get data (i + 1);
       lo \<leftarrow> arr_get data (i + 2);
       let len = be16 hi lo;
       let (p, w) = call_ptr (C_misc ''kmalloc'' len) w;
       BUG_ON (p = 0 \<or> len = 0);
       BUG_ON (length data < i + 3 + len);
       let name = take len (drop (i + 3) data);
       let h = upd (p, name) h;
       Some (if name ! (len - 1) \<noteq> 0 then None else Some (i + 3 + len), h, w) } }"

definition be_word :: "u8 list \<Rightarrow> nat \<Rightarrow> u32 option" where
  "be_word data i = do {
     a \<leftarrow> arr_get data i; b \<leftarrow> arr_get data (i + 1); c \<leftarrow> arr_get data (i + 2); d \<leftarrow> arr_get data (i + 3);
     Some (push_bit 24 (ucast a) OR push_bit 16 (ucast b) OR push_bit 8 (ucast c) OR ucast d) }"

text \<open>The part after the names: the tag \<^verbatim>\<open>'e'\<close> and the length of the bitstream.\<close>

definition length_field :: "u8 list \<Rightarrow> nat \<Rightarrow> bit_header \<Rightarrow> world \<Rightarrow> (int \<times> bit_header \<times> world) option" where
  "length_field data i h w = do {
     t \<leftarrow> arr_get data i;
     if t \<noteq> 0x65 then Some (-1, h, w)
     else do {
       n \<leftarrow> be_word data (i + 1);
       Some (0, h\<lparr>BitstreamLength := n, HeaderLength := of_nat (i + 5)\<rparr>, w) } }"

definition header_names :: "u8 list \<Rightarrow> nat \<Rightarrow> bit_header \<Rightarrow> world \<Rightarrow> (int \<times> bit_header \<times> world) option" where
  "header_names data i h w = do {
     (r, h, w) \<leftarrow> name_field 0x61 (\<lambda>n h. h\<lparr>DesignName := Some n\<rparr>) data i h w;
     (case r of None \<Rightarrow> Some (-1, h, w) | Some i \<Rightarrow> do {
     (r, h, w) \<leftarrow> name_field 0x62 (\<lambda>n h. h\<lparr>PartName := Some n\<rparr>) data i h w;
     (case r of None \<Rightarrow> Some (-1, h, w) | Some i \<Rightarrow> do {
     (r, h, w) \<leftarrow> name_field 0x63 (\<lambda>n h. h\<lparr>Date := Some n\<rparr>) data i h w;
     (case r of None \<Rightarrow> Some (-1, h, w) | Some i \<Rightarrow> do {
     (r, h, w) \<leftarrow> name_field 0x64 (\<lambda>n h. h\<lparr>Time := Some n\<rparr>) data i h w;
     (case r of None \<Rightarrow> Some (-1, h, w) | Some i \<Rightarrow> length_field data i h w) }) }) }) }"

text \<open>The parameter \<^verbatim>\<open>Size\<close> of the source is not used by it. The loop over the magic runs to
  \<^verbatim>\<open>MagicLength - 1\<close> in unsigned arithmetic.\<close>

definition bitstream_parse_header :: "u8 list \<Rightarrow> nat \<Rightarrow> bit_header \<Rightarrow> world \<Rightarrow> (int \<times> bit_header \<times> world) option" where
  "bitstream_parse_header data Size h w = do {
     let h = h\<lparr>HeaderLength := XHI_BIT_HEADER_FAILURE\<rparr>;
     hi \<leftarrow> arr_get data 0;
     lo \<leftarrow> arr_get data 1;
     let ml = (of_nat (be16 hi lo) :: u32);
     let h = h\<lparr>MagicLength := ml\<rparr>;
     let n = unat (ml - 1);
     ok \<leftarrow> magic_bytes data 2 True n;
     if \<not> ok then Some (-1, h, w)
     else do {
       _ \<leftarrow> arr_get data (2 + n);
       hi \<leftarrow> arr_get data (3 + n);
       lo \<leftarrow> arr_get data (4 + n);
       if be16 hi lo \<noteq> 1 then Some (-1, h, w)
       else header_names data (5 + n) h w } }"

definition kfree_name :: "(u64 \<times> u8 list) option \<Rightarrow> world \<Rightarrow> world" where
  "kfree_name n w = (case n of Some (p, _) \<Rightarrow> call_void (C_kfree p) w | None \<Rightarrow> w)"

definition kfree_names :: "bit_header \<Rightarrow> world \<Rightarrow> world" where
  "kfree_names h w = kfree_name (Time h) (kfree_name (Date h) (kfree_name (PartName h) (kfree_name (DesignName h) w)))"

section \<open>ICAP\<close>

fun icap_poll :: "u64 \<Rightarrow> u32 \<Rightarrow> nat \<Rightarrow> nat \<Rightarrow> (u32 \<Rightarrow> bool) \<Rightarrow> bool \<Rightarrow> world \<Rightarrow> int \<times> world" where
  "icap_poll a m d 0 done first w = (- EIO, w)"
| "icap_poll a m d (Suc n) done first w =
    (let w = (if first then udelay d w else w);
         (v, w) = read_register a w in
     if done (v AND m) then (0, w) else icap_poll a m d n done first (if first then w else udelay d w))"

definition wait_for_done :: "xdma_dev \<Rightarrow> world \<Rightarrow> (int \<times> world) option" where
  "wait_for_done lro w = do {
     b \<leftarrow> user_bar lro;
     Some (icap_poll (b + XHWICAP_SR) 5 5 10 (\<lambda>v. v \<noteq> 0) True w) }"

definition hwicapWrite :: "xdma_dev \<Rightarrow> u8 list \<Rightarrow> nat \<Rightarrow> nat \<Rightarrow> world \<Rightarrow> (int \<times> world) option" where
  "hwicapWrite lro data off sz w = do {
     b \<leftarrow> user_bar lro;
     w \<leftarrow> for_range 0 sz (\<lambda>i w. do {
            v \<leftarrow> be_word data (off + 4 * i);
            Some (write_register v (b + XHWICAP_WF) w) }) w;
     let w = write_register 1 (b + XHWICAP_CR) w;
     Some (icap_poll (b + XHWICAP_CR) 1 50 10 (\<lambda>v. v = 0) False w) }"

text \<open>At least one word is written in every round, so the loop ends.\<close>

lemma vacancy_pos: "\<not> sint (v :: u32) \<le> 0 \<Longrightarrow> 0 < unat v"
  by (cases "v = 0") (auto simp: unat_gt_0)

function icap_loop :: "xdma_dev \<Rightarrow> u64 \<Rightarrow> u8 list \<Rightarrow> nat \<Rightarrow> nat \<Rightarrow> world \<Rightarrow> (int \<times> world) option" where
  "icap_loop lro b data off remain w =
    (if remain = 0 then Some (0, w)
     else case read_register (b + XHWICAP_WFV) w of (v, w) \<Rightarrow>
       if sint v \<le> 0 then Some (- EIO, w)
       else
         let n = min (unat v) remain in
         case hwicapWrite lro data off n w of
           None \<Rightarrow> None
         | Some (rc, w) \<Rightarrow> if rc \<noteq> 0 then Some (- EIO, w) else icap_loop lro b data (off + 4 * n) (remain - n) w)"
  by pat_completeness auto
termination
  by (relation "measure (\<lambda>(_, _, _, _, remain, _). remain)") (auto simp: min_def dest: vacancy_pos)

declare icap_loop.simps [simp del]

definition bitstream_icap_helper :: "xdma_dev \<Rightarrow> u8 list \<Rightarrow> nat \<Rightarrow> nat \<Rightarrow> world \<Rightarrow> (int \<times> world) option" where
  "bitstream_icap_helper lro data off word_count w = (if word_count = 0 then Some (0, w) else do {
     b \<leftarrow> user_bar lro;
     icap_loop lro b data off word_count w })"

text \<open>The chunks of 1024 bytes; \<open>True\<close> when all of them went through.\<close>

function icap_chunks :: "xdma_dev \<Rightarrow> u8 list \<Rightarrow> nat \<Rightarrow> nat \<Rightarrow> world \<Rightarrow> (bool \<times> world) option" where
  "icap_chunks lro data off left w =
    (if left = 0 then Some (True, w)
     else let n = min left DMA_HWICAP_BITFILE_BUFFER_SIZE in
       case bitstream_icap_helper lro data off (n div 4) w of
         None \<Rightarrow> None
       | Some (rc, w) \<Rightarrow> if rc \<noteq> 0 then Some (False, w) else icap_chunks lro data (off + n) (left - n) w)"
  by pat_completeness auto
termination by (relation "measure (\<lambda>(_, _, _, left, _). left)") (auto simp: const_defs)

declare icap_chunks.simps [simp del]

definition bitstream_icap :: "xdma_dev \<Rightarrow> u8 list \<Rightarrow> u32 \<Rightarrow> world \<Rightarrow> (int \<times> world) option" where
  "bitstream_icap lro data len w = do {
     BUG_ON (len = 0);
     (r, h, w) \<leftarrow> bitstream_parse_header data DMA_HWICAP_BITFILE_BUFFER_SIZE zero_header w;
     (err, w) \<leftarrow> (if r \<noteq> 0 then Some (- EINVAL, w)
       else if HeaderLength h + BitstreamLength h > len then Some (- EINVAL, w)
       else do {
         (ok, w) \<leftarrow> icap_chunks lro data (unat (HeaderLength h)) (unat (BitstreamLength h)) w;
         if \<not> ok then Some (0, w)
         else do {
           (rc, w) \<leftarrow> wait_for_done lro w;
           Some (if rc \<noteq> 0 then - EIO else 0, w) } });
     Some (err, kfree_names h w) }"

definition drop_stash :: "accel \<times> world \<Rightarrow> accel \<times> world" where
  "drop_stash s = (case s of (a, w) \<Rightarrow> (a\<lparr>clear_bitstream := None, clear_bitstream_length := 0\<rparr>,
     case clear_bitstream a of Some (p, _) \<Rightarrow> call_void (C_vfree p) w | None \<Rightarrow> w))"

definition bitstream_clear_icap :: "xdma_dev \<Rightarrow> accel \<times> world \<Rightarrow> (int \<times> accel \<times> world) option" where
  "bitstream_clear_icap lro s = (case s of (a, w) \<Rightarrow> case clear_bitstream a of
     None \<Rightarrow> Some (0, a, w)
   | Some (p, data) \<Rightarrow> do {
       (err, w) \<leftarrow> bitstream_icap lro data (clear_bitstream_length a) w;
       Some (err, drop_stash (a, w)) })"

definition user_bytes :: "world \<Rightarrow> u64 \<Rightarrow> nat \<Rightarrow> u8 list" where
  "user_bytes w p n = map (\<lambda>k. ucast (usr w (io w) (p + of_nat k))) [0..<n]"

text \<open>The chunks copied from the user one by one: the status of the copy or of the ICAP ends the loop.\<close>

function user_chunks ::
  "(u8 list \<Rightarrow> nat \<Rightarrow> world \<Rightarrow> (int \<times> world) option) \<Rightarrow> u64 \<Rightarrow> nat \<Rightarrow> world \<Rightarrow> (int option \<times> world) option" where
  "user_chunks helper p left w =
    (if left = 0 then Some (None, w)
     else let n = min left DMA_HWICAP_BITFILE_BUFFER_SIZE in
       case call_int (C_copy_from_user p n) w of (r, w) \<Rightarrow>
       if r \<noteq> 0 then Some (Some (- EFAULT), w)
       else case helper (user_bytes w p n) (n div 4) w of
         None \<Rightarrow> None
       | Some (rc, w) \<Rightarrow> if rc \<noteq> 0 then Some (Some 0, w) else user_chunks helper (p + of_nat n) (left - n) w)"
  by pat_completeness auto
termination by (relation "measure (\<lambda>(_, _, left, _). left)") (auto simp: const_defs)

declare user_chunks.simps [simp del]

text \<open>Everything between the copy of the header and the exit: the status and the parsed header.\<close>

definition icap_user_body :: "xdma_dev \<Rightarrow> u64 \<Rightarrow> u64 \<Rightarrow> world \<Rightarrow> (int \<times> bit_header \<times> world) option" where
  "icap_user_body lro bit_buf len w = do {
     let (r, w) = call_int (C_copy_from_user bit_buf DMA_HWICAP_BITFILE_BUFFER_SIZE) w;
     if r \<noteq> 0 then Some (- EFAULT, zero_header, w)
     else do {
     (r, h, w) \<leftarrow> bitstream_parse_header (user_bytes w bit_buf DMA_HWICAP_BITFILE_BUFFER_SIZE) DMA_HWICAP_BITFILE_BUFFER_SIZE zero_header w;
     if r \<noteq> 0 then Some (- EINVAL, h, w)
     else if ucast (HeaderLength h + BitstreamLength h) > len then Some (- EINVAL, h, w)
     else do {
     (e, w) \<leftarrow> user_chunks (\<lambda>data. bitstream_icap_helper lro data 0) (bit_buf + ucast (HeaderLength h)) (unat (BitstreamLength h)) w;
     (case e of
        Some err \<Rightarrow> Some (err, h, w)
      | None \<Rightarrow> do { (rc, w) \<leftarrow> wait_for_done lro w; Some (if rc \<noteq> 0 then - EIO else 0, h, w) }) } } }"

definition bitstream_ioctl_icap :: "xdma_dev \<Rightarrow> u64 \<Rightarrow> u64 \<Rightarrow> accel \<times> world \<Rightarrow> (int \<times> accel \<times> world) option" where
  "bitstream_ioctl_icap lro bit_buf len s = do {
     s \<leftarrow> freezeAXIGate lro s;
     (err, a, w) \<leftarrow> bitstream_clear_icap lro s;
     (err, h, p, w) \<leftarrow> (if err \<noteq> 0 then Some (err, zero_header, 0, w)
       else case call_ptr (C_misc ''kmalloc'' DMA_HWICAP_BITFILE_BUFFER_SIZE) w of (p, w) \<Rightarrow>
         if p = 0 then Some (- ENOMEM, zero_header, 0, w)
         else do { (err, h, w) \<leftarrow> icap_user_body lro bit_buf len w; Some (err, h, p, w) });
     (a, w) \<leftarrow> freeAXIGate lro (a, w);
     let w = (if p \<noteq> 0 then call_void (C_kfree p) w else w);
     Some (err, a, kfree_names h w) }"

section \<open>MCAP\<close>

definition MCapRegWrite :: "accel \<Rightarrow> nat \<Rightarrow> u32 \<Rightarrow> world \<Rightarrow> world" where
  "MCapRegWrite a off v w = call_void (C_cfg_write (mcap_base a + off) v) w"

definition MCapRegRead :: "accel \<Rightarrow> nat \<Rightarrow> world \<Rightarrow> u32 \<times> world" where
  "MCapRegRead a off w = cfg_read (mcap_base a + off) w"

definition mcap_bit :: "accel \<Rightarrow> nat \<Rightarrow> u32 \<Rightarrow> world \<Rightarrow> bool \<times> world" where
  "mcap_bit a off m w = (case MCapRegRead a off w of (v, w) \<Rightarrow> (v AND m \<noteq> 0, w))"

text \<open>
  \<^verbatim>\<open>do { if (!IsConfigureMCapReqSet) break; } while (loop--);\<close> from a loop counter \<open>n\<close>. The result is the counter
  after it, which is \<^verbatim>\<open>-1\<close> when the request never went away.
\<close>

fun mcap_wait :: "accel \<Rightarrow> nat \<Rightarrow> world \<Rightarrow> int \<times> world" where
  "mcap_wait a 0 w = (case mcap_bit a MCAP_STATUS MCAP_STS_CFG_MCAP_REQ_MASK w of (s, w) \<Rightarrow> (if s then -1 else 0, w))"
| "mcap_wait a (Suc n) w = (case mcap_bit a MCAP_STATUS MCAP_STS_CFG_MCAP_REQ_MASK w of (s, w) \<Rightarrow>
     if s then mcap_wait a n w else (int (Suc n), w))"

definition MCapClearRequestByConfigure :: "accel \<Rightarrow> world \<Rightarrow> int \<times> u32 \<times> world" where
  "MCapClearRequestByConfigure a w =
    (let (restore, w) = MCapRegRead a MCAP_CONTROL w;
         (s, w) = mcap_bit a MCAP_STATUS MCAP_STS_CFG_MCAP_REQ_MASK w in
     if s then
       let w = MCapRegWrite a MCAP_CONTROL (restore OR (MCAP_CTRL_MODE_MASK OR MCAP_CTRL_IN_USE_MASK)) w;
           (loop, w) = mcap_wait a MCAP_LOOP_COUNT w in
       if loop = 0 then (- EIO, restore, MCapRegWrite a MCAP_CONTROL restore w) else (0, restore, w)
     else (0, restore, w))"

definition noop_burst :: "accel \<Rightarrow> world \<Rightarrow> world" where
  "noop_burst a w = ((MCapRegWrite a MCAP_DATA EMCAP_NOOP_VAL) ^^ EMCAP_EOS_LOOP_COUNT) w"

text \<open>\<open>n\<close> is the number of retries that are left.\<close>

fun eos_loop :: "accel \<Rightarrow> nat \<Rightarrow> u32 \<Rightarrow> world \<Rightarrow> int \<times> world" where
  "eos_loop a n stat w =
    (if stat AND MCAP_STS_EOS_MASK \<noteq> 0 then (0, w)
     else case MCapRegRead a MCAP_STATUS (noop_burst a (udelay 2000000 w)) of (stat, w) \<Rightarrow>
       (case n of 0 \<Rightarrow> (- EIO, w) | Suc m \<Rightarrow> eos_loop a m stat w))"

declare eos_loop.simps [simp del]

definition Checkforcompletion :: "accel \<Rightarrow> world \<Rightarrow> int \<times> world" where
  "Checkforcompletion a w = (case MCapRegRead a MCAP_STATUS w of (stat, w) \<Rightarrow> eos_loop a EMCAP_EOS_RETRY_COUNT stat w)"

definition MCapFullReset :: "accel \<Rightarrow> world \<Rightarrow> int \<times> world" where
  "MCapFullReset a w =
    (let (err, restore, w) = MCapClearRequestByConfigure a w in
     if err \<noteq> 0 then (err, w)
     else
       let (s, w) = MCapRegRead a MCAP_CONTROL w;
           w = MCapRegWrite a MCAP_CONTROL (s OR (MCAP_CTRL_MODE_MASK OR MCAP_CTRL_IN_USE_MASK OR MCAP_CTRL_RESET_MASK OR
                 MCAP_CTRL_MOD_RESET_MASK)) w;
           (e, w) = mcap_bit a MCAP_STATUS MCAP_STS_ERR_MASK w;
           (m, w) = (if e then (True, w) else mcap_bit a MCAP_CONTROL MCAP_CTRL_MOD_RESET_MASK w);
           (r, w) = (if e \<or> \<not> m then (True, w) else mcap_bit a MCAP_CONTROL MCAP_CTRL_RESET_MASK w);
           w = MCapRegWrite a MCAP_CONTROL restore w
       in (if e \<or> \<not> m \<or> \<not> r then - EIO else 0, w))"

definition bitstream_mcap_setup :: "accel \<Rightarrow> bool \<Rightarrow> world \<Rightarrow> int \<times> u32 \<times> world" where
  "bitstream_mcap_setup a design_switch w =
    (let (err, restore, w) = MCapClearRequestByConfigure a w in
     if err \<noteq> 0 then (err, restore, w)
     else
       let (e, w) = mcap_bit a MCAP_STATUS MCAP_STS_ERR_MASK w;
           (e, w) = (if e then (True, w) else mcap_bit a MCAP_STATUS MCAP_STS_REG_READ_CMP_MASK w);
           (e, w) = (if e then (True, w) else mcap_bit a MCAP_STATUS MCAP_STS_FIFO_OVERFLOW_MASK w) in
       if e then (- EIO, restore, MCapRegWrite a MCAP_CONTROL restore w)
       else
         let (s, w) = MCapRegRead a MCAP_CONTROL w;
             s = s OR (MCAP_CTRL_MODE_MASK OR MCAP_CTRL_IN_USE_MASK OR MCAP_CTRL_DATA_REG_PROT_MASK);
             s = s AND NOT (MCAP_CTRL_RESET_MASK OR MCAP_CTRL_MOD_RESET_MASK OR MCAP_CTRL_REG_READ_MASK);
             s = (if design_switch then s AND NOT MCAP_CTRL_DESIGN_SWITCH_MASK else s)
         in (0, restore, MCapRegWrite a MCAP_CONTROL s w))"

definition bitstream_mcap_helper :: "accel \<Rightarrow> u8 list \<Rightarrow> nat \<Rightarrow> nat \<Rightarrow> world \<Rightarrow> (int \<times> world) option" where
  "bitstream_mcap_helper a data off word_count w = do {
     w \<leftarrow> for_range 0 word_count (\<lambda>i w. do {
            v \<leftarrow> be_word data (off + 4 * i);
            Some (udelay 1 (MCapRegWrite a MCAP_DATA v w)) }) w;
     Some (0, w) }"

definition bitstream_clear_mcap :: "accel \<times> world \<Rightarrow> (int \<times> accel \<times> world) option" where
  "bitstream_clear_mcap s = (case s of (a, w) \<Rightarrow> case clear_bitstream a of
     None \<Rightarrow> Some (0, a, w)
   | Some (p, data) \<Rightarrow> do {
       (r, h, w) \<leftarrow> bitstream_parse_header data DMA_HWICAP_BITFILE_BUFFER_SIZE zero_header w;
       if r \<noteq> 0 then Some (- EINVAL, a, kfree_names h w)
       else if HeaderLength h + BitstreamLength h > clear_bitstream_length a then Some (- EINVAL, a, kfree_names h w)
       else do {
         (_, w) \<leftarrow> bitstream_mcap_helper a data (unat (HeaderLength h)) (unat (BitstreamLength h div 4)) w;
         let (a, w) = drop_stash (a, w);
         Some (0, a, kfree_names h w) } })"

text \<open>After the data: completion, error and overflow. On an error the control register is restored and the
  module reset.\<close>

definition mcap_finish :: "accel \<Rightarrow> u32 \<Rightarrow> world \<Rightarrow> int \<times> world" where
  "mcap_finish a restore w =
    (let (err, w) = Checkforcompletion a w;
         (e, w) = (if err \<noteq> 0 then (True, w) else mcap_bit a MCAP_STATUS MCAP_STS_ERR_MASK w);
         (e, w) = (if e then (True, w) else mcap_bit a MCAP_STATUS MCAP_STS_FIFO_OVERFLOW_MASK w) in
     if e then (- EIO, snd (MCapFullReset a (MCapRegWrite a MCAP_CONTROL restore w))) else (0, w))"

text \<open>The part of the ioctl between \<^verbatim>\<open>bitstream_mcap_setup\<close> and the label \<^verbatim>\<open>design_switch\<close>.\<close>

definition mcap_load_user :: "u64 \<Rightarrow> bit_header \<Rightarrow> u32 \<Rightarrow> accel \<times> world \<Rightarrow> (int \<times> accel \<times> world) option" where
  "mcap_load_user bit_buf h restore s = do {
     (err, a, w) \<leftarrow> bitstream_clear_mcap s;
     if err \<noteq> 0 then Some (err, a, w)
     else do {
       (e, w) \<leftarrow> user_chunks (\<lambda>data. bitstream_mcap_helper a data 0) bit_buf (unat (BitstreamLength h)) w;
       (case e of
          Some err \<Rightarrow> Some (err, a, w)
        | None \<Rightarrow> (case mcap_finish a restore w of (err, w) \<Rightarrow> Some (err, a, w))) } }"

definition mcap_user_body :: "u64 \<Rightarrow> u64 \<Rightarrow> accel \<times> world \<Rightarrow> (int \<times> bit_header \<times> accel \<times> world) option" where
  "mcap_user_body bit_buf len s = (case s of (a, w) \<Rightarrow> do {
     let (r, w) = call_int (C_copy_from_user bit_buf DMA_HWICAP_BITFILE_BUFFER_SIZE) w;
     if r \<noteq> 0 then Some (- EFAULT, zero_header, a, w)
     else do {
     (r, h, w) \<leftarrow> bitstream_parse_header (user_bytes w bit_buf DMA_HWICAP_BITFILE_BUFFER_SIZE) DMA_HWICAP_BITFILE_BUFFER_SIZE zero_header w;
     if r \<noteq> 0 then Some (- EINVAL, h, a, w)
     else if ucast (HeaderLength h + BitstreamLength h) > len then Some (- EINVAL, h, a, w)
     else do {
     let (err, restore, w) = bitstream_mcap_setup a False w;
     (err, a, w) \<leftarrow> (if err \<noteq> 0 then Some (err, a, w)
                    else mcap_load_user (bit_buf + ucast (HeaderLength h)) h restore (a, w));
     Some (err, h, a, MCapRegWrite a MCAP_CONTROL restore w) } } })"

definition bitstream_ioctl_mcap :: "xdma_dev \<Rightarrow> u64 \<Rightarrow> u64 \<Rightarrow> accel \<times> world \<Rightarrow> (int \<times> accel \<times> world) option" where
  "bitstream_ioctl_mcap lro bit_buf len s = (case s of (a, w) \<Rightarrow>
     if bit_buf = 0 \<or> len = 0 then Some (- EINVAL, a, w)
     else do {
       (a, w) \<leftarrow> freezeAXIGate lro (a, w);
       (err, h, p, a, w) \<leftarrow> (case call_ptr (C_misc ''kmalloc'' DMA_HWICAP_BITFILE_BUFFER_SIZE) w of (p, w) \<Rightarrow>
         if p = 0 then Some (- ENOMEM, zero_header, 0, a, w)
         else do { (err, h, a, w) \<leftarrow> mcap_user_body bit_buf len (a, w); Some (err, h, p, a, w) });
       (a, w) \<leftarrow> freeAXIGate lro (a, w);
       let w = (if p \<noteq> 0 then call_void (C_kfree p) w else w);
       Some (err, a, kfree_names h w) })"

definition bitstream_mcap :: "accel \<Rightarrow> u8 list \<Rightarrow> u32 \<Rightarrow> world \<Rightarrow> (int \<times> world) option" where
  "bitstream_mcap a data len w = do {
     BUG_ON (len = 0);
     (r, h, w) \<leftarrow> bitstream_parse_header data DMA_HWICAP_BITFILE_BUFFER_SIZE zero_header w;
     (err, w) \<leftarrow> (if r \<noteq> 0 then Some (- EINVAL, w)
       else if HeaderLength h + BitstreamLength h > len then Some (- EINVAL, w)
       else do {
         let (err, restore, w) = bitstream_mcap_setup a True w;
         if err \<noteq> 0 then Some (err, w)
         else do {
           (_, w) \<leftarrow> bitstream_mcap_helper a data (unat (HeaderLength h)) (unat (BitstreamLength h div 4)) w;
           let (err, w) = mcap_finish a restore w;
           Some (if err \<noteq> 0 then (err, w)
                 else (0, MCapRegWrite a MCAP_CONTROL (restore OR MCAP_CTRL_DESIGN_SWITCH_MASK) w)) } });
     Some (err, kfree_names h w) }"

section \<open>The container\<close>

text \<open>The fields of \<^verbatim>\<open>struct xclBin\<close> the driver reads.\<close>

record xclBin =
  m_magic :: "u8 list"
  m_length :: u64
  m_primaryFirmwareOffset :: u64
  m_primaryFirmwareLength :: u64
  m_secondaryFirmwareOffset :: u64
  m_secondaryFirmwareLength :: u64

definition xclbin0 :: "u8 list" where
  "xclbin0 = [0x78, 0x63, 0x6c, 0x62, 0x69, 0x6e, 0x30, 0]"

definition le64 :: "u8 list \<Rightarrow> nat \<Rightarrow> u64" where
  "le64 bs i = fold (\<lambda>k v. v OR push_bit (8 * k) (ucast (bs ! (i + k)))) [0..<8] 0"

text \<open>The structure in memory: 128 bytes, with the offsets the compiler gives its fields.\<close>

definition xclBin_of :: "u8 list \<Rightarrow> xclBin" where
  "xclBin_of bs = \<lparr>m_magic = take 8 bs, m_length = le64 bs 8, m_primaryFirmwareOffset = le64 bs 80,
     m_primaryFirmwareLength = le64 bs 88, m_secondaryFirmwareOffset = le64 bs 96, m_secondaryFirmwareLength = le64 bs 104\<rparr>"

definition segments_ok :: "xclBin \<Rightarrow> bool" where
  "segments_ok b \<longleftrightarrow> \<not> m_primaryFirmwareOffset b + m_primaryFirmwareLength b > m_length b \<and>
     \<not> m_secondaryFirmwareOffset b + m_secondaryFirmwareLength b > m_length b"

definition XIOC :: "u32 \<Rightarrow> u32 \<Rightarrow> u32 \<Rightarrow> u32" where
  "XIOC dir nr sz = push_bit 30 dir OR push_bit 16 sz OR push_bit 8 0x78 OR nr"

definition XDMA_IOCINFO :: u32 where "XDMA_IOCINFO = XIOC 3 1 40"
definition XDMA_IOCICAPDOWNLOAD :: u32 where "XDMA_IOCICAPDOWNLOAD = XIOC 1 2 16"
definition XDMA_IOCMCAPDOWNLOAD :: u32 where "XDMA_IOCMCAPDOWNLOAD = XIOC 1 3 16"
definition XDMA_IOCHOTRESET :: u32 where "XDMA_IOCHOTRESET = XIOC 1 4 8"
definition XDMA_IOCOCLRESET :: u32 where "XDMA_IOCOCLRESET = XIOC 1 5 8"
definition XDMA_IOCFREQSCALING :: u32 where "XDMA_IOCFREQSCALING = XIOC 3 6 12"
definition XDMA_XCL_MAGIC :: u32 where "XDMA_XCL_MAGIC = 0x586C0C6C"

text \<open>Keeping the clearing bitstream that goes with the one just loaded.\<close>

definition stash_secondary :: "u64 \<Rightarrow> u64 \<Rightarrow> int \<Rightarrow> accel \<times> world \<Rightarrow> int \<times> accel \<times> world" where
  "stash_secondary p len err s =
    (if len = 0 then (err, s)
     else
       let (a, w) = drop_stash s;
           (q, w) = call_ptr (C_vmalloc (unat len)) w in
       if q = 0 then (- ENOMEM, a, w)
       else
         let (r, w) = call_int (C_copy_from_user p (unat len)) w in
         if r \<noteq> 0 then (- EFAULT, a, call_void (C_vfree q) w)
         else (0, a\<lparr>clear_bitstream := Some (q, user_bytes w p (unat len)), clear_bitstream_length := ucast len\<rparr>, w))"

definition bitstream_ioctl :: "xdma_dev \<Rightarrow> u32 \<Rightarrow> u64 \<Rightarrow> accel \<times> world \<Rightarrow> (int \<times> accel \<times> world) option" where
  "bitstream_ioctl lro cmd arg s = (case s of (a, w) \<Rightarrow> do {
     let (r, w) = call_int (C_copy_from_user arg 16) w;
     if r \<noteq> 0 then Some (- EFAULT, a, w)
     else do {
     let p = addr_of (usr w (io w) (arg + 12)) (usr w (io w) (arg + 8));
     let (r, w) = call_int (C_copy_from_user p 128) w;
     if r \<noteq> 0 then Some (- EFAULT, a, w)
     else do {
     let b = xclBin_of (user_bytes w p 128);
     if m_magic b \<noteq> xclbin0 then Some (- EINVAL, a, w)
     else if \<not> segments_ok b then Some (- EINVAL, a, w)
     else do {
     let (ok, w) = call_int (C_misc ''access_ok'' (unat (m_length b))) w;
     if ok = 0 then Some (- EFAULT, a, w)
     else do {
     r \<leftarrow> (if cmd = XDMA_IOCICAPDOWNLOAD then
             map_option Some (bitstream_ioctl_icap lro (p + m_primaryFirmwareOffset b) (m_primaryFirmwareLength b) (a, w))
           else if cmd = XDMA_IOCMCAPDOWNLOAD then
             map_option Some (bitstream_ioctl_mcap lro (p + m_primaryFirmwareOffset b) (m_primaryFirmwareLength b) (a, w))
           else Some None);
     (case r of
        None \<Rightarrow> Some (- EINVAL, a, w)
      | Some (err, s) \<Rightarrow> Some (stash_secondary (p + m_secondaryFirmwareOffset b) (m_secondaryFirmwareLength b) err s)) } } } } })"

section \<open>The ioctl of the user node\<close>

definition ctrl_dispatch ::
  "(xdma_dev \<Rightarrow> u64 \<Rightarrow> u32 \<Rightarrow> world \<Rightarrow> int \<times> world) \<Rightarrow> xdma_dev \<Rightarrow> u32 \<Rightarrow> u64 \<Rightarrow> accel \<times> world \<Rightarrow> (int \<times> accel \<times> world) option" where
  "ctrl_dispatch enable lro cmd arg s = (case s of (a, w) \<Rightarrow>
     if cmd = XDMA_IOCINFO then do { (r, w) \<leftarrow> version_ioctl lro a arg w; Some (r, a, w) }
     else if cmd = XDMA_IOCICAPDOWNLOAD \<or> cmd = XDMA_IOCMCAPDOWNLOAD then bitstream_ioctl lro cmd arg (a, w)
     else if cmd = XDMA_IOCOCLRESET then reset_ocl_ioctl lro (a, w)
     else if cmd = XDMA_IOCHOTRESET then do { (r, w) \<leftarrow> reset_hot_ioctl enable lro w; Some (r, a, w) }
     else if cmd = XDMA_IOCFREQSCALING then ocl_freqscaling_ioctl lro arg (a, w)
     else Some (- ENOTTY, a, w))"

definition char_ctrl_ioctl ::
  "(xdma_dev \<Rightarrow> u64 \<Rightarrow> u32 \<Rightarrow> world \<Rightarrow> int \<times> world) \<Rightarrow> u64 \<Rightarrow> xdma_char \<Rightarrow> xdma_dev \<Rightarrow> u32 \<Rightarrow> u64 \<Rightarrow> accel \<times> world \<Rightarrow>
     (int \<times> accel \<times> world) option" where
  "char_ctrl_ioctl enable cptr c lro cmd arg s = (case s of (a, w) \<Rightarrow> do {
     char_check c lro;
     if cptr \<noteq> user_char_dev lro then Some (- ENOTTY, a, w)
     else if drop_bit 8 cmd AND 0xff \<noteq> 0x78 then Some (- ENOTTY, a, w)
     else do {
     let (ok, w) = (if drop_bit 30 cmd \<noteq> 0 then call_int (C_misc ''access_ok'' (unat (drop_bit 16 cmd AND 0x3fff))) w else (1, w));
     if ok = 0 then Some (- EFAULT, a, w)
     else do {
     let (r, w) = call_int (C_copy_from_user arg 8) w;
     if r \<noteq> 0 then Some (- EFAULT, a, w)
     else if usr w (io w) arg \<noteq> XDMA_XCL_MAGIC then Some (- ENOTTY, a, w)
     else ctrl_dispatch enable lro cmd arg (a, w) } } })"

section \<open>The boot firmware\<close>

text \<open>The three names that are tried in turn; \<open>fw\<close> gives the bytes of the file the kernel found.\<close>

definition request_fw :: "world \<Rightarrow> bool \<times> world" where
  "request_fw w =
    (let (r, w) = call_int (C_firmware ''by id'') w in
     if r = 0 then (True, w)
     else let (r, w) = call_int (C_firmware ''legacy'') w in
     if r = 0 then (True, w)
     else let (r, w) = call_int (C_firmware ''default'') w in (r = 0, w))"

definition fw_primary :: "u8 list \<Rightarrow> xclBin \<Rightarrow> accel \<times> world \<Rightarrow> (int \<times> accel \<times> world) option" where
  "fw_primary fw b s = (case s of (a, w) \<Rightarrow>
     if m_primaryFirmwareLength b = 0 then Some (0, a, w)
     else do {
       (err, w) \<leftarrow> bitstream_mcap a (drop (unat (m_primaryFirmwareOffset b)) fw) (ucast (m_primaryFirmwareLength b)) w;
       Some (err, drop_stash (a, w)) })"

definition fw_secondary :: "u8 list \<Rightarrow> xclBin \<Rightarrow> accel \<times> world \<Rightarrow> (int \<times> accel \<times> world) option" where
  "fw_secondary fw b s = (case s of (a, w) \<Rightarrow>
     if m_secondaryFirmwareLength b \<noteq> 0 \<and> (m_primaryFirmwareLength b \<noteq> 0 \<or> clear_bitstream a = None) then do {
       let (a, w) = drop_stash (a, w);
       let (q, w) = call_ptr (C_vmalloc (unat (m_secondaryFirmwareLength b))) w;
       if q = 0 then Some (- ENOMEM, a, w)
       else do {
         let n = unat (ucast (m_secondaryFirmwareLength b) :: u32);
         BUG_ON (length fw < unat (m_secondaryFirmwareOffset b) + n);
         Some (0, a\<lparr>clear_bitstream := Some (q, take n (drop (unat (m_secondaryFirmwareOffset b)) fw)),
                   clear_bitstream_length := ucast (m_secondaryFirmwareLength b)\<rparr>, w) }
     } else Some (0, a, w))"

definition fw_check_stash :: "accel \<times> world \<Rightarrow> (int \<times> bit_header \<times> accel \<times> world) option" where
  "fw_check_stash s = (case s of (a, w) \<Rightarrow> case clear_bitstream a of
     None \<Rightarrow> Some (0, zero_header, a, w)
   | Some (p, data) \<Rightarrow> do {
       (r, h, w) \<leftarrow> bitstream_parse_header data DMA_HWICAP_BITFILE_BUFFER_SIZE zero_header w;
       if r \<noteq> 0 then Some (- EINVAL, h, drop_stash (a, w)) else Some (0, h, a, w) })"

definition load_boot_firmware :: "u8 list \<Rightarrow> accel \<times> world \<Rightarrow> (int \<times> accel \<times> world) option" where
  "load_boot_firmware fw s = (case s of (a, w) \<Rightarrow> case request_fw w of (found, w) \<Rightarrow>
     if \<not> found then Some (0, a, w)
     else do {
       BUG_ON (length fw < 128);
       let b = xclBin_of fw;
       (err, h, a, w) \<leftarrow> (if m_length b > of_nat (length fw) then Some (- EINVAL, zero_header, a, w)
         else if \<not> segments_ok b then Some (- EINVAL, zero_header, a, w)
         else do {
           (err, a, w) \<leftarrow> fw_primary fw b (a, w);
           if err \<noteq> 0 then Some (err, zero_header, a, w)
           else do {
             (err, a, w) \<leftarrow> fw_secondary fw b (a, w);
             if err \<noteq> 0 then Some (err, zero_header, a, w)
             else fw_check_stash (a, w) } });
       Some (err, a, kfree_names h (call_void (C_firmware ''release'') w)) })"

section \<open>The gate is open again after every ioctl\<close>

lemma freezeAXIGate_run:
  assumes "user_bar lro = Some b" and "\<not> axi_gate_frozen a"
  shows "\<exists>w'. freezeAXIGate lro (a, w) = Some (a\<lparr>axi_gate_frozen := True\<rparr>, w')"
  using assms by (simp add: freezeAXIGate_def Let_def split_def)

lemma freeAXIGate_run:
  assumes "user_bar lro = Some b" and "axi_gate_frozen a"
  shows "\<exists>w'. freeAXIGate lro (a, w) = Some (a\<lparr>axi_gate_frozen := False\<rparr>, w')"
  using assms by (simp add: freeAXIGate_def Let_def split_def)

lemma freeAXIGate_opens: "freeAXIGate lro s = Some (a', w') \<Longrightarrow> \<not> axi_gate_frozen a'"
  by (cases s) (auto simp: freeAXIGate_def Let_def split_def bind_eq_Some_conv)

lemma compute_unit_busy_total:
  assumes "user_bar lro = Some b"
  shows "\<exists>r w'. compute_unit_busy lro w = Some (r, w')"
proof -
  define step where "step = (\<lambda>i (result :: u32, w).
       let (r, w) = read_register (b + OCL_CTLR_OFFSET + of_nat i * OCL_CU_CTRL_RANGE) w
       in Some (if r = 1 then result OR push_bit i r else result, w))"
  have "\<exists>s'. for_range 0 16 step s = Some s' \<and> True" for s
    by (rule for_range_total[where P = "\<lambda>_ _. True"]) (auto simp: step_def split_def Let_def)
  then have "\<exists>r w'. for_range 0 16 step s = Some (r, w')" for s by (metis surj_pair)
  then show ?thesis using assms by (simp add: compute_unit_busy_def Let_def split_def step_def)
qed

lemma get_ocl_frequency_total: "user_bar lro = Some b \<Longrightarrow> \<exists>r w'. get_ocl_frequency lro a w = Some (r, w')"
  by (simp add: get_ocl_frequency_def Let_def split_def)

lemma reset_ocl_total:
  assumes "user_bar lro = Some b" and "\<not> axi_gate_frozen a"
  shows "\<exists>rc a' w'. reset_ocl_ioctl lro (a, w) = Some (rc, a', w') \<and> \<not> axi_gate_frozen a'"
proof -
  obtain r w1 where c: "compute_unit_busy lro w = Some (r, w1)" using compute_unit_busy_total[OF assms(1)] by blast
  obtain w2 where z: "freezeAXIGate lro (a, w1) = Some (a\<lparr>axi_gate_frozen := True\<rparr>, w2)" using freezeAXIGate_run[OF assms] by blast
  obtain w3 where f: "freeAXIGate lro (a\<lparr>axi_gate_frozen := True\<rparr>, w2) = Some (a\<lparr>axi_gate_frozen := True, axi_gate_frozen := False\<rparr>, w3)"
    using freeAXIGate_run[OF assms(1), of "a\<lparr>axi_gate_frozen := True\<rparr>" w2] by auto
  obtain r4 w4 where d: "compute_unit_busy lro w3 = Some (r4, w4)" using compute_unit_busy_total[OF assms(1)] by blast
  show ?thesis using c z f d assms(2) by (simp add: reset_ocl_ioctl_def)
qed

lemma ocl_freqscaling_total:
  assumes "user_bar lro = Some b" and "\<not> axi_gate_frozen a"
  shows "\<exists>rc a' w'. ocl_freqscaling_ioctl lro arg (a, w) = Some (rc, a', w') \<and> \<not> axi_gate_frozen a'"
proof -
  define w1 where "w1 = snd (call_int (C_copy_from_user arg 12) w)"
  define w2 where "w2 = snd (read_register (b + OCL_CLKWIZ_STATUS) w1)"
  define t where "t = usr w1 (io w1) (arg + 8)"
  obtain r w3 where c: "compute_unit_busy lro w2 = Some (r, w3)" using compute_unit_busy_total[OF assms(1)] by blast
  obtain q w4 where g: "get_ocl_frequency lro a w3 = Some (q, w4)" using get_ocl_frequency_total[OF assms(1)] by blast
  obtain w5 where z: "freezeAXIGate lro (a, w4) = Some (a\<lparr>axi_gate_frozen := True\<rparr>, w5)" using freezeAXIGate_run[OF assms] by blast
  let ?a = "a\<lparr>axi_gate_frozen := True\<rparr>"
  have rest: "\<exists>rc a' w'. do { (_, w) \<leftarrow> get_ocl_frequency lro ?a v; (a, w) \<leftarrow> freeAXIGate lro (?a, w); Some (err, a, w) } = Some (rc, a', w') \<and>
      \<not> axi_gate_frozen a'" for v and err :: int
  proof -
    obtain q' v1 where "get_ocl_frequency lro ?a v = Some (q', v1)" using get_ocl_frequency_total[OF assms(1)] by blast
    moreover obtain v2 where "freeAXIGate lro (?a, v1) = Some (?a\<lparr>axi_gate_frozen := False\<rparr>, v2)"
      using freeAXIGate_run[OF assms(1), of ?a v1] by auto
    ultimately show ?thesis by simp
  qed
  have idx: "unat (t div 25) - 1 < length frequency_table" if "t \<le> 250"
  proof -
    have "unat t \<le> 250" using that by (simp add: word_le_nat_alt)
    then have "unat (t div 25) \<le> 10" by (simp add: unat_div)
    then show ?thesis by (simp add: frequency_table_def)
  qed
  show ?thesis
  proof (cases "fst (call_int (C_copy_from_user arg 12) w) \<noteq> 0 \<or> fst (read_register (b + OCL_CLKWIZ_STATUS) w1) AND 1 = 0 \<or> r \<noteq> 0 \<or>
      t > 250 \<or> t < ocl (frequency_table ! 0)")
    case True
    then show ?thesis
      using assms c unfolding ocl_freqscaling_ioctl_def Let_def split_def
      by (auto simp: t_def simp flip: w1_def w2_def)
  next
    case False
    have f0: "ocl (frequency_table ! 0) = 25" by (simp add: frequency_table_def clk_def)
    from False f0 idx have i: "unat (t div 25) - 1 < length frequency_table" by auto
    show ?thesis
      using False assms(1) c g z i rest unfolding ocl_freqscaling_ioctl_def Let_def split_def
      by (simp add: f0 t_def flip: w1_def w2_def)
  qed
qed

lemma reset_hot_total: "\<exists>rc w'. reset_hot_ioctl enable lro w = Some (rc, w')"
proof -
  define step where "step = (\<lambda>d. for_range 0 XDMA_CHANNEL_NUM_MAX (\<lambda>c w :: world.
      Some (case engine lro c d of Some e \<Rightarrow> engine_reinit e w | None \<Rightarrow> w)))"
  have inner: "\<exists>v. step d w = Some v" for d w
    using for_range_total[where P = "\<lambda>_ _. True" and f = "\<lambda>c w. Some (case engine lro c d of Some e \<Rightarrow> engine_reinit e w | None \<Rightarrow> w)"]
    unfolding step_def by blast
  have "\<exists>v. for_range 0 2 step w = Some v \<and> True" for w
    by (rule for_range_total[where P = "\<lambda>_ _. True"]) (use inner in auto)
  then have loop: "\<exists>v. for_range 0 2 step w = Some v" for w by simp
  have re: "\<exists>r v. reinit enable lro w = Some (r, v)" for w
    unfolding reinit_def step_def[symmetric] using loop[of "snd (enable lro XDMA_OFS_INT_CTRL 0x00ffffff w)"]
    by (auto simp: split_def Let_def)
  have "\<exists>v r x. reset_hot_ioctl enable lro w = (if fst (call_ptr (C_misc ''kmalloc'' 0x100) w) = 0 then Some (- ENOMEM, x) else
      do { (err, w) \<leftarrow> reinit enable lro v; Some (err, call_void (C_kfree r) (udelay 1000000000 w)) })"
    unfolding reset_hot_ioctl_def Let_def split_def by (rule exI)+ (rule refl)
  then show ?thesis using re by (auto split: if_splits) (metis (no_types, lifting) Option.bind.simps(2) split_conv)
qed

lemma stash_secondary_gate: "stash_secondary p len err (a, w) = (err', a', w') \<Longrightarrow> axi_gate_frozen a' = axi_gate_frozen a"
  by (auto simp: stash_secondary_def drop_stash_def Let_def split_def split: if_splits)

lemma bitstream_ioctl_icap_gate:
  assumes "bitstream_ioctl_icap lro p len s = Some (err, a', w')"
  shows "\<not> axi_gate_frozen a'"
  using assms freeAXIGate_opens unfolding bitstream_ioctl_icap_def
  by (auto simp: bind_eq_Some_conv Let_def split_def)

lemma bitstream_ioctl_mcap_gate:
  assumes "bitstream_ioctl_mcap lro p len (a, w) = Some (err, a', w')" and "\<not> axi_gate_frozen a"
  shows "\<not> axi_gate_frozen a'"
proof (cases "p = 0 \<or> len = 0")
  case True
  with assms show ?thesis by (auto simp: bitstream_ioctl_mcap_def)
next
  case False
  with assms(1) freeAXIGate_opens show ?thesis unfolding bitstream_ioctl_mcap_def
    by (auto simp: bind_eq_Some_conv Let_def split_def)
qed

lemma bitstream_ioctl_gate:
  assumes "bitstream_ioctl lro cmd arg (a, w) = Some (err, a', w')" and "\<not> axi_gate_frozen a"
  shows "\<not> axi_gate_frozen a'"
proof -
  have st: "\<not> axi_gate_frozen a'" if "stash_secondary q n e s = (err, a', w')" "\<not> axi_gate_frozen (fst s)" for q n e s
    using stash_secondary_gate[of q n e "fst s" "snd s"] that by auto
  show ?thesis
    using assms st bitstream_ioctl_icap_gate bitstream_ioctl_mcap_gate unfolding bitstream_ioctl_def Let_def split_def
    by (fastforce simp: bind_eq_Some_conv split: if_splits option.splits)
qed

lemma ctrl_dispatch_gate:
  assumes "user_bar lro = Some b" and "\<not> axi_gate_frozen a"
  shows "(\<exists>err a' w'. ctrl_dispatch enable lro cmd arg (a, w) = Some (err, a', w') \<and> \<not> axi_gate_frozen a') \<or>
    (cmd \<in> {XDMA_IOCICAPDOWNLOAD, XDMA_IOCMCAPDOWNLOAD} \<and> ctrl_dispatch enable lro cmd arg (a, w) = None)"
proof -
  obtain r v where g: "get_ocl_frequency lro a (snd (call_int (C_copy_from_user arg 40) w)) = Some (r, v)"
    using get_ocl_frequency_total[OF assms(1)] by blast
  have ver: "\<exists>r w'. version_ioctl lro a arg w = Some (r, w')"
    using g by (simp add: version_ioctl_def Let_def split_def)
  have d: "(\<exists>err a' w'. bitstream_ioctl lro cmd arg (a, w) = Some (err, a', w') \<and> \<not> axi_gate_frozen a') \<or> bitstream_ioctl lro cmd arg (a, w) = None"
    using bitstream_ioctl_gate[OF _ assms(2)] by (cases "bitstream_ioctl lro cmd arg (a, w)") auto
  consider "cmd = XDMA_IOCINFO" | "cmd \<noteq> XDMA_IOCINFO" "cmd \<in> {XDMA_IOCICAPDOWNLOAD, XDMA_IOCMCAPDOWNLOAD}"
    | "cmd \<noteq> XDMA_IOCINFO" "cmd \<notin> {XDMA_IOCICAPDOWNLOAD, XDMA_IOCMCAPDOWNLOAD}" by blast
  then show ?thesis
  proof cases
    case 1
    with ver assms(2) show ?thesis by (auto simp: ctrl_dispatch_def)
  next
    case 2
    with d show ?thesis by (auto simp: ctrl_dispatch_def)
  next
    case 3
    obtain q v where h: "reset_hot_ioctl enable lro w = Some (q, v)" using reset_hot_total by blast
    show ?thesis
      using 3 h assms(2) reset_ocl_total[OF assms, of w] ocl_freqscaling_total[OF assms, of arg w] by (simp add: ctrl_dispatch_def)
  qed
qed

lemma char_ctrl_ioctl_cases:
  assumes "char_check c lro = Some ()"
  shows "(\<exists>err w'. char_ctrl_ioctl enable cptr c lro cmd arg (a, w) = Some (err, a, w')) \<or>
    (\<exists>v. char_ctrl_ioctl enable cptr c lro cmd arg (a, w) = ctrl_dispatch enable lro cmd arg (a, v))"
  using assms unfolding char_ctrl_ioctl_def Let_def split_def by auto


definition demo_accel :: accel where
  "demo_accel = \<lparr>axi_gate_frozen = False, clear_bitstream = None, clear_bitstream_length = 0, mcap_base = 0x340, feature_id = 0,
     vendor_id = 0x10ee, device_id = 0x8138, subsystem_vendor = 0, subsystem_device = 0\<rparr>"


section \<open>The words of a bitstream reach the ICAP in order\<close>

text \<open>The words written to the data register of the ICAP at \<open>a\<close>.\<close>

fun wf_word :: "u64 \<Rightarrow> io \<Rightarrow> u32 list" where
  "wf_word a (Wr p v) = (if p = a then [v] else [])"
| "wf_word a _ = []"

definition wf_words :: "u64 \<Rightarrow> io list \<Rightarrow> u32 list" where
  "wf_words a l = concat (map (wf_word a) l)"

lemma wf_words_simps [simp]: "wf_words a [] = []" "wf_words a (l @ l') = wf_words a l @ wf_words a l'" "wf_words a (x # l) = wf_word a x @ wf_words a l"
  by (simp_all add: wf_words_def)

definition words_at :: "u8 list \<Rightarrow> nat \<Rightarrow> nat \<Rightarrow> u32 list" where
  "words_at data off n = map (\<lambda>i. the (be_word data (off + 4 * i))) [0..<n]"

lemma words_at_add: "words_at data off (m + n) = words_at data off m @ words_at data (off + 4 * m) n"
  by (induction n) (simp_all add: words_at_def algebra_simps)

definition silent :: "u64 \<Rightarrow> world \<Rightarrow> world \<Rightarrow> bool" where
  "silent p w w' \<longleftrightarrow> (\<exists>l. io w' = io w @ l \<and> wf_words p l = [])"

lemma silent_trans: "silent p w v \<Longrightarrow> silent p v w' \<Longrightarrow> silent p w w'"
  by (auto simp: silent_def)

lemma silent_prims [simp]: "silent p w w" "silent p w (udelay d w)" "silent p w (snd (read_register a w))"
  by (auto simp: silent_def udelay_def call_void_def read_register_def Let_def)

lemma icap_poll_silent: "silent p w (snd (icap_poll a m d n stop first w))"
proof (induction n arbitrary: w)
  case 0
  then show ?case by simp
next
  case (Suc n)
  let ?w = "if first then udelay d w else w"
  let ?v = "fst (read_register a ?w)" and ?w1 = "snd (read_register a ?w)"
  let ?w2 = "if first then ?w1 else udelay d ?w1"
  have 1: "silent p w ?w" by simp
  have 2: "silent p w ?w1" by (rule silent_trans[OF 1]) simp
  have 3: "silent p w ?w2" by (cases first) (use 2 silent_trans[OF 2] in simp_all)
  show ?case
    using 2 silent_trans[OF 3 Suc.IH] by (simp add: Let_def split_def)
qed

lemma be_word_in: "i + 4 \<le> length data \<Longrightarrow> be_word data i = Some (the (be_word data i))"
  by (simp add: be_word_def)

lemma wf_loop:
  assumes "off + 4 * n \<le> length data"
  shows "\<exists>w' l. for_range 0 n (\<lambda>i w. do { v \<leftarrow> be_word data (off + 4 * i); Some (write_register v p w) }) w = Some w' \<and>
    io w' = io w @ l \<and> wf_words p l = words_at data off n"
proof -
  let ?P = "\<lambda>k (v :: world). \<exists>l. io v = io w @ l \<and> wf_words p l = words_at data off k"
  have "\<exists>w'. for_range 0 n (\<lambda>i w. do { v \<leftarrow> be_word data (off + 4 * i); Some (write_register v p w) }) w = Some w' \<and> ?P (0 + n) w'"
  proof (rule for_range_total)
    show "?P 0 w" by (simp add: words_at_def)
  next
    fix k v assume k: "k < 0 + n" and "?P k v"
    then obtain l where l: "io v = io w @ l" "wf_words p l = words_at data off k" by blast
    have b: "be_word data (off + 4 * k) = Some (the (be_word data (off + 4 * k)))" using k assms by (intro be_word_in) auto
    have "words_at data off (Suc k) = words_at data off k @ [the (be_word data (off + 4 * k))]" by (simp add: words_at_def)
    then show "\<exists>s'. do { u \<leftarrow> be_word data (off + 4 * k); Some (write_register u p v) } = Some s' \<and> ?P (Suc k) s'"
      using l by (subst b) (simp add: write_register_def)
  qed
  then show ?thesis by auto
qed

lemma hwicapWrite_words:
  assumes "user_bar lro = Some b" and "off + 4 * n \<le> length data"
  shows "\<exists>rc w' l. hwicapWrite lro data off n w = Some (rc, w') \<and> io w' = io w @ l \<and> wf_words (b + XHWICAP_WF) l = words_at data off n"
proof -
  obtain w1 l1 where 1: "for_range 0 n (\<lambda>i w. do { v \<leftarrow> be_word data (off + 4 * i); Some (write_register v (b + XHWICAP_WF) w) }) w = Some w1"
    "io w1 = io w @ l1" "wf_words (b + XHWICAP_WF) l1 = words_at data off n" using wf_loop[OF assms(2)] by blast
  let ?w2 = "write_register 1 (b + XHWICAP_CR) w1"
  let ?r = "icap_poll (b + XHWICAP_CR) 1 50 10 (\<lambda>v. v = 0) False ?w2"
  have ne: "b + XHWICAP_CR \<noteq> b + XHWICAP_WF" by (simp add: const_defs)
  obtain l2 where "io (snd ?r) = io ?w2 @ l2" "wf_words (b + XHWICAP_WF) l2 = []"
    using icap_poll_silent[of "b + XHWICAP_WF" ?w2] unfolding silent_def by blast
  moreover have "hwicapWrite lro data off n w = Some ?r" using assms(1) 1(1) by (simp add: hwicapWrite_def Let_def)
  ultimately show ?thesis using 1 ne by (cases ?r) (simp add: write_register_def)
qed

lemma icap_loop_words:
  assumes "user_bar lro = Some b" and "off + 4 * remain \<le> length data"
  shows "\<exists>rc w' l k. icap_loop lro b data off remain w = Some (rc, w') \<and> io w' = io w @ l \<and> k \<le> remain \<and>
    wf_words (b + XHWICAP_WF) l = words_at data off k \<and> rc \<in> {0, - EIO} \<and> (rc = 0 \<longrightarrow> k = remain)"
  using assms(2)
proof (induction remain arbitrary: off w rule: less_induct)
  case (less remain)
  let ?v = "fst (read_register (b + XHWICAP_WFV) w)" and ?w1 = "snd (read_register (b + XHWICAP_WFV) w)"
  let ?n = "min (unat ?v) remain"
  have w1: "io ?w1 = io w @ [Rd (b + XHWICAP_WFV) ?v]" by (simp add: read_register_def Let_def)
  show ?case
  proof (cases "remain = 0 \<or> sint ?v \<le> 0")
    case True
    then show ?thesis using w1 by (subst icap_loop.simps) (auto simp: split_def words_at_def intro!: exI[of _ 0])
  next
    case False
    have "?n \<le> remain" by simp
    with less.prems have "off + 4 * ?n \<le> length data" by linarith
    from hwicapWrite_words[OF assms(1) this] obtain rc w2 l2 where h: "hwicapWrite lro data off ?n ?w1 = Some (rc, w2)"
      "io w2 = io ?w1 @ l2" "wf_words (b + XHWICAP_WF) l2 = words_at data off ?n" by blast
    have step: "icap_loop lro b data off remain w =
        (if rc \<noteq> 0 then Some (- EIO, w2) else icap_loop lro b data (off + 4 * ?n) (remain - ?n) w2)"
      using False h(1) by (subst icap_loop.simps) (simp add: split_def Let_def)
    show ?thesis
    proof (cases "rc = 0")
      case rc: False
      then show ?thesis using step h w1 by (auto intro!: exI[of _ ?n])
    next
      case True
      have "?n > 0" using False vacancy_pos by auto
      then have "remain - ?n < remain" using False by auto
      moreover have "off + 4 * ?n + 4 * (remain - ?n) \<le> length data" using less.prems \<open>?n \<le> remain\<close> by linarith
      ultimately obtain rc' w' l k where
        ih: "icap_loop lro b data (off + 4 * ?n) (remain - ?n) w2 = Some (rc', w')" "io w' = io w2 @ l" "k \<le> remain - ?n"
        "wf_words (b + XHWICAP_WF) l = words_at data (off + 4 * ?n) k" "rc' \<in> {0, - EIO}" "rc' = 0 \<longrightarrow> k = remain - ?n"
        using less.IH[of "remain - ?n" "off + 4 * ?n" w2] by blast
      show ?thesis
        using step True ih h w1 words_at_add[of data off ?n k]
        by (intro exI[of _ rc'] exI[of _ w'] exI[of _ "[Rd (b + XHWICAP_WFV) ?v] @ l2 @ l"] exI[of _ "?n + k"]) auto
    qed
  qed
qed

text \<open>
  C25. Writing a stretch of a bitstream through the ICAP always ends. The words it writes to the data
  register are the first ones of the stretch, big-endian, in order and each once, however the device
  sizes its FIFO; it reports success exactly when it wrote them all and each burst was accepted.
\<close>

theorem bitstream_icap_helper_in_order:
  assumes "user_bar lro = Some b" and "off + 4 * n \<le> length data"
  shows "\<exists>rc w' l k. bitstream_icap_helper lro data off n w = Some (rc, w') \<and> io w' = io w @ l \<and> k \<le> n \<and>
    wf_words (b + XHWICAP_WF) l = words_at data off k \<and> rc \<in> {0, - EIO} \<and> (rc = 0 \<longrightarrow> k = n)"
  using icap_loop_words[OF assms, of w] assms(1) by (cases "n = 0") (auto simp: bitstream_icap_helper_def words_at_def)

theorem bitstream_icap_helper_in_order_witness:
  "\<exists>rc w' l k. bitstream_icap_helper (zero_dev\<lparr>user_bar_idx := 0\<rparr>) [0xaa, 0x99, 0x55, 0x66] 0 1 quiet_world = Some (rc, w') \<and>
    io w' = io quiet_world @ l \<and> k \<le> 1 \<and>
    wf_words (0 + XHWICAP_WF) l = words_at [0xaa, 0x99, 0x55, 0x66] 0 k \<and> rc \<in> {0, - EIO} \<and> (rc = 0 \<longrightarrow> k = 1)"
  by (rule bitstream_icap_helper_in_order) (simp_all add: user_bar_def zero_dev_def const_defs)

section \<open>Parsing what a bitstream tool wrote\<close>

definition name_enc :: "u8 \<Rightarrow> u8 list \<Rightarrow> u8 list" where
  "name_enc tag n = [tag, of_nat (length n div 256), of_nat (length n mod 256)] @ n"

fun magic_enc :: "bool \<Rightarrow> nat \<Rightarrow> u8 list" where
  "magic_enc ev 0 = []"
| "magic_enc ev (Suc n) = (if ev then XHI_EVEN_MAGIC_BYTE else XHI_ODD_MAGIC_BYTE) # magic_enc (\<not> ev) n"

definition word_enc :: "u32 \<Rightarrow> u8 list" where
  "word_enc n = [ucast (drop_bit 24 n), ucast (drop_bit 16 n), ucast (drop_bit 8 n), ucast n]"

definition header_enc :: "nat \<Rightarrow> u8 list \<Rightarrow> u8 list \<Rightarrow> u8 list \<Rightarrow> u8 list \<Rightarrow> u32 \<Rightarrow> u8 list" where
  "header_enc m design part dt tm n =
    [of_nat (Suc m div 256), of_nat (Suc m mod 256)] @ magic_enc True m @ [0, 0, 1] @
    name_enc 0x61 design @ name_enc 0x62 part @ name_enc 0x63 dt @ name_enc 0x64 tm @ [0x65] @ word_enc n"

definition name_ok :: "u8 list \<Rightarrow> bool" where
  "name_ok n \<longleftrightarrow> n \<noteq> [] \<and> length n < 65536 \<and> last n = 0"

lemma arr_get_append [simp]: "arr_get (xs @ ys) (length xs + k) = arr_get ys k"
  by (simp add: arr_get_def)

lemma arr_get_append0 [simp]: "arr_get (xs @ ys) (length xs) = arr_get ys 0"
  by (simp add: arr_get_def nth_append)

lemma be16_enc: "n < 65536 \<Longrightarrow> be16 (of_nat (n div 256)) (of_nat (n mod 256)) = n"
  by (simp add: be16_def unsigned_of_nat take_bit_eq_mod)

lemma be_word_enc: "be_word (pre @ word_enc n @ post) (length pre) = Some n"
proof -
  have "push_bit 24 (ucast (ucast (drop_bit 24 n) :: u8)) OR push_bit 16 (ucast (ucast (drop_bit 16 n) :: u8)) OR
      push_bit 8 (ucast (ucast (drop_bit 8 n) :: u8)) OR ucast (ucast n :: u8) = (n :: u32)"
  proof (rule bit_word_eqI)
    fix k assume "k < LENGTH(32)"
    consider "k < 8" | "8 \<le> k" "k < 16" | "16 \<le> k" "k < 24" | "24 \<le> k" by linarith
    then show "bit (push_bit 24 (ucast (ucast (drop_bit 24 n) :: u8) :: u32) OR push_bit 16 (ucast (ucast (drop_bit 16 n) :: u8)) OR
      push_bit 8 (ucast (ucast (drop_bit 8 n) :: u8)) OR ucast (ucast n :: u8)) k \<longleftrightarrow> bit n k"
      using \<open>k < LENGTH(32)\<close> by cases (auto simp: bit_simps)
  qed
  then show ?thesis by (simp add: be_word_def word_enc_def arr_get_def nth_append)
qed

lemma length_magic_enc [simp]: "length (magic_enc ev n) = n"
  by (induction n arbitrary: ev) simp_all

lemma magic_bytes_enc: "magic_bytes (pre @ magic_enc ev n @ post) (length pre) ev n = Some True"
proof (induction n arbitrary: pre ev)
  case 0
  then show ?case by simp
next
  case (Suc n)
  let ?x = "if ev then XHI_EVEN_MAGIC_BYTE else XHI_ODD_MAGIC_BYTE"
  have "magic_bytes ((pre @ [?x]) @ magic_enc (\<not> ev) n @ post) (length (pre @ [?x])) (\<not> ev) n = Some True" by (rule Suc.IH)
  then show ?case by (simp add: arr_get_def nth_append)
qed

definition kmalloc_ok :: "world \<Rightarrow> bool" where
  "kmalloc_ok w \<longleftrightarrow> (\<forall>l n. kptr w l (C_misc ''kmalloc'' n) \<noteq> 0)"

lemma name_field_enc:
  assumes "name_ok n" and "kmalloc_ok w"
  shows "\<exists>p w'. name_field tag upd (pre @ name_enc tag n @ post) (length pre) h w =
      Some (Some (length (pre @ name_enc tag n)), upd (p, n) h, w') \<and> kmalloc_ok w'"
proof -
  let ?d = "pre @ name_enc tag n @ post"
  have len: "be16 (of_nat (length n div 256)) (of_nat (length n mod 256)) = length n" using assms(1) by (intro be16_enc) (simp add: name_ok_def)
  have rd: "arr_get ?d (length pre) = Some tag" "arr_get ?d (length pre + 1) = Some (of_nat (length n div 256))"
    "arr_get ?d (length pre + 2) = Some (of_nat (length n mod 256))" by (simp_all add: name_enc_def arr_get_def nth_append)
  have body: "take (length n) (drop (length pre + 3) ?d) = n" by (simp add: name_enc_def)
  have nz: "n ! (length n - 1) = 0" using assms(1) by (metis name_ok_def last_conv_nth)
  have ne: "length n \<noteq> 0" using assms(1) by (simp add: name_ok_def)
  define p where "p = kptr w (io w) (C_misc ''kmalloc'' (length n))"
  have p: "p \<noteq> 0" using assms(2) by (simp add: p_def kmalloc_ok_def)
  have "name_field tag upd ?d (length pre) h w = Some (Some (length pre + 3 + length n), upd (p, n) h, emit (KP (C_misc ''kmalloc'' (length n)) p) w)"
    unfolding name_field_def rd len Option.bind.simps(2) Let_def call_ptr_def
    using p ne nz body by (simp add: p_def name_enc_def flip: p_def)
  moreover have "kmalloc_ok (emit e w)" for e using assms(2) by (simp add: kmalloc_ok_def)
  ultimately show ?thesis by (intro exI[of _ p]) (simp add: name_enc_def)
qed

lemma header_names_enc:
  assumes "name_ok d" "name_ok p" "name_ok t" "name_ok u" and "kmalloc_ok w"
  shows "\<exists>h' w'. header_names (pre @ name_enc 0x61 d @ name_enc 0x62 p @ name_enc 0x63 t @ name_enc 0x64 u @ [0x65] @ word_enc n @ post)
      (length pre) h w = Some (0, h', w') \<and> map_option snd (DesignName h') = Some d \<and> map_option snd (PartName h') = Some p \<and>
      map_option snd (Date h') = Some t \<and> map_option snd (Time h') = Some u \<and> BitstreamLength h' = n \<and> MagicLength h' = MagicLength h \<and>
      HeaderLength h' = of_nat (length (pre @ name_enc 0x61 d @ name_enc 0x62 p @ name_enc 0x63 t @ name_enc 0x64 u @ [0x65] @ word_enc n))"
proof -
  let ?data = "pre @ name_enc 0x61 d @ name_enc 0x62 p @ name_enc 0x63 t @ name_enc 0x64 u @ [0x65] @ word_enc n @ post"
  let ?p1 = "pre @ name_enc 0x61 d" let ?p2 = "?p1 @ name_enc 0x62 p" let ?p3 = "?p2 @ name_enc 0x63 t" let ?p4 = "?p3 @ name_enc 0x64 u"
  obtain q1 w1 where 1: "name_field 0x61 (\<lambda>n h. h\<lparr>DesignName := Some n\<rparr>) ?data (length pre) h w =
      Some (Some (length ?p1), h\<lparr>DesignName := Some (q1, d)\<rparr>, w1)" "kmalloc_ok w1"
    using name_field_enc[OF assms(1,5), where pre = pre] by blast
  let ?h1 = "h\<lparr>DesignName := Some (q1, d)\<rparr>"
  obtain q2 w2 where 2: "name_field 0x62 (\<lambda>n h. h\<lparr>PartName := Some n\<rparr>) ?data (length ?p1) ?h1 w1 =
      Some (Some (length ?p2), ?h1\<lparr>PartName := Some (q2, p)\<rparr>, w2)" "kmalloc_ok w2"
    using name_field_enc[OF assms(2) 1(2), where pre = ?p1 and upd = "\<lambda>n h. h\<lparr>PartName := Some n\<rparr>" and h = ?h1] by fastforce
  let ?h2 = "?h1\<lparr>PartName := Some (q2, p)\<rparr>"
  obtain q3 w3 where 3: "name_field 0x63 (\<lambda>n h. h\<lparr>Date := Some n\<rparr>) ?data (length ?p2) ?h2 w2 =
      Some (Some (length ?p3), ?h2\<lparr>Date := Some (q3, t)\<rparr>, w3)" "kmalloc_ok w3"
    using name_field_enc[OF assms(3) 2(2), where pre = ?p2 and upd = "\<lambda>n h. h\<lparr>Date := Some n\<rparr>" and h = ?h2] by fastforce
  let ?h3 = "?h2\<lparr>Date := Some (q3, t)\<rparr>"
  obtain q4 w4 where 4: "name_field 0x64 (\<lambda>n h. h\<lparr>Time := Some n\<rparr>) ?data (length ?p3) ?h3 w3 =
      Some (Some (length ?p4), ?h3\<lparr>Time := Some (q4, u)\<rparr>, w4)" "kmalloc_ok w4"
    using name_field_enc[OF assms(4) 3(2), where pre = ?p3 and upd = "\<lambda>n h. h\<lparr>Time := Some n\<rparr>" and h = ?h3] by fastforce
  let ?h4 = "?h3\<lparr>Time := Some (q4, u)\<rparr>"
  have data: "?data = ?p4 @ [0x65] @ word_enc n @ post" by simp
  have e: "arr_get ?data (length ?p4) = Some 0x65" unfolding data by (simp add: arr_get_def nth_append)
  have l: "be_word ?data (length ?p4 + 1) = Some n"
    using be_word_enc[of "?p4 @ [0x65]" n post] by simp
  have "length_field ?data (length ?p4) ?h4 w4 = Some (0, ?h4\<lparr>BitstreamLength := n, HeaderLength := of_nat (length ?p4 + 5)\<rparr>, w4)"
    unfolding length_field_def e l by simp
  then have "header_names ?data (length pre) h w = Some (0, ?h4\<lparr>BitstreamLength := n, HeaderLength := of_nat (length ?p4 + 5)\<rparr>, w4)"
    unfolding header_names_def 1(1) 2(1) 3(1) 4(1) by (simp only: Option.bind.simps(2) prod.case option.case 1(1) 2(1) 3(1) 4(1))
  then show ?thesis by (simp add: word_enc_def)
qed

text \<open>
  C24. The header parser inverts the header format: for any names the format allows, any length of
  the magic sequence and any bitstream length, it recovers all fields and ends exactly at the first
  byte of the bitstream.
\<close>

theorem bitstream_parse_header_roundtrip:
  assumes "name_ok d" "name_ok p" "name_ok t" "name_ok u" and "kmalloc_ok w" and "Suc m < 65536"
  shows "\<exists>h' w'. bitstream_parse_header (header_enc m d p t u n @ body) Size h w = Some (0, h', w') \<and>
    map_option snd (DesignName h') = Some d \<and> map_option snd (PartName h') = Some p \<and>
    map_option snd (Date h') = Some t \<and> map_option snd (Time h') = Some u \<and> BitstreamLength h' = n \<and>
    HeaderLength h' = of_nat (length (header_enc m d p t u n))"
proof -
  let ?b = "[of_nat (Suc m div 256), of_nat (Suc m mod 256)] :: u8 list"
  let ?pre = "?b @ magic_enc True m @ [0, 0, 1]"
  let ?names = "name_enc 0x61 d @ name_enc 0x62 p @ name_enc 0x63 t @ name_enc 0x64 u @ [0x65] @ word_enc n"
  let ?data = "header_enc m d p t u n @ body"
  have data: "?data = ?pre @ ?names @ body" by (simp add: header_enc_def)
  have len: "be16 (of_nat (Suc m div 256)) (of_nat (Suc m mod 256)) = Suc m" using be16_enc[OF assms(6)] .
  have n1: "unat ((of_nat (Suc m) :: u32) - 1) = m" using assms(6) by simp
  have rd: "arr_get ?data 0 = Some (of_nat (Suc m div 256))" "arr_get ?data 1 = Some (of_nat (Suc m mod 256))"
    by (simp_all add: header_enc_def arr_get_def)
  have mg: "magic_bytes ?data 2 True m = Some True"
    using magic_bytes_enc[of ?b True m "[0, 0, 1] @ ?names @ body"] by (simp add: header_enc_def numeral_2_eq_2)
  have tl: "arr_get ?data (2 + m) = Some 0" "arr_get ?data (3 + m) = Some 0" "arr_get ?data (4 + m) = Some 1"
    by (simp_all add: header_enc_def arr_get_def nth_append nth_Cons')
  let ?h = "h\<lparr>HeaderLength := XHI_BIT_HEADER_FAILURE, MagicLength := of_nat (Suc m)\<rparr>"
  have lp: "5 + m = length ?pre" by simp
  have one: "be16 0 1 = 1" by (simp add: be16_def)
  have "bitstream_parse_header ?data Size h w = header_names ?data (5 + m) ?h w"
    unfolding bitstream_parse_header_def rd len Option.bind.simps(2) Let_def n1 mg tl by (simp add: one)
  also have "\<dots> = header_names (?pre @ ?names @ body) (length ?pre) ?h w" unfolding data lp ..
  finally have run: "bitstream_parse_header ?data Size h w = header_names (?pre @ ?names @ body) (length ?pre) ?h w" .
  have "header_enc m d p t u n = ?pre @ ?names" by (simp add: header_enc_def)
  then show ?thesis
    using header_names_enc[OF assms(1-5), of ?pre n body ?h] unfolding run by auto
qed

theorem bitstream_parse_header_roundtrip_witness:
  "\<exists>h' w'. bitstream_parse_header (header_enc 8 [0x74, 0] [0x6b, 0] [0x64, 0] [0x68, 0] 4 @ [0xaa, 0x99, 0x55, 0x66]) 1024 zero_header (quiet_world\<lparr>kptr := \<lambda>_ _. 0x1000\<rparr>) = Some (0, h', w') \<and>
    map_option snd (DesignName h') = Some [0x74, 0] \<and> map_option snd (PartName h') = Some [0x6b, 0] \<and>
    map_option snd (Date h') = Some [0x64, 0] \<and> map_option snd (Time h') = Some [0x68, 0] \<and> BitstreamLength h' = 4 \<and>
    HeaderLength h' = of_nat (length (header_enc 8 [0x74, 0] [0x6b, 0] [0x64, 0] [0x68, 0] 4))"
  by (rule bitstream_parse_header_roundtrip) (simp_all add: name_ok_def kmalloc_ok_def)

section \<open>Where the loader goes wrong\<close>

text \<open>The parser ignores the size of its buffer: a magic length past the end makes it read on.\<close>

lemma bitstream_parse_header_overruns:
  "bitstream_parse_header ([0xff, 0xff] @ magic_enc True 1022) DMA_HWICAP_BITFILE_BUFFER_SIZE h w = None"
proof -
  have m: "magic_bytes (pre @ magic_enc ev k) (length pre) ev n = None" if "k < n" for pre ev k n
    using that
  proof (induction k arbitrary: pre ev n)
    case 0
    then show ?case by (cases n) simp_all
  next
    case (Suc k)
    let ?x = "if ev then XHI_EVEN_MAGIC_BYTE else XHI_ODD_MAGIC_BYTE"
    from Suc.prems obtain j where j: "n = Suc j" "k < j" by (cases n) auto
    have "magic_bytes ((pre @ [?x]) @ magic_enc (\<not> ev) k) (length (pre @ [?x])) (\<not> ev) j = None" by (rule Suc.IH[OF j(2)])
    then show ?case by (simp add: j(1) arr_get_def nth_append)
  qed
  let ?d = "[0xff, 0xff] @ magic_enc True 1022 :: u8 list"
  have "arr_get ?d 0 = Some 0xff" "arr_get ?d 1 = Some 0xff" by (simp_all add: arr_get_def)
  moreover have "be16 0xff 0xff = 65535" by (simp add: be16_def)
  moreover have "magic_bytes ?d 2 True 65534 = None" using m[of 1022 65534 "[0xff, 0xff]" True] by (simp add: numeral_2_eq_2)
  ultimately show ?thesis unfolding bitstream_parse_header_def Let_def by simp
qed

text \<open>An MCAP request that never goes away is reported as cleared: the loop ends with \<^verbatim>\<open>-1\<close>, and 0 is tested.\<close>

lemma mcap_wait_timeout:
  assumes "\<And>l. ucast (kptr w l (C_cfg_read (mcap_base a + MCAP_STATUS))) AND MCAP_STS_CFG_MCAP_REQ_MASK \<noteq> 0"
  shows "fst (mcap_wait a n w) = -1"
  using assms
proof (induction n arbitrary: w)
  case 0
  then show ?case by (simp add: mcap_bit_def MCapRegRead_def cfg_read_def call_ptr_def Let_def split_def)
next
  case (Suc n)
  let ?w = "snd (call_ptr (C_cfg_read (mcap_base a + MCAP_STATUS)) w)"
  have "fst (mcap_wait a n ?w) = -1" by (rule Suc.IH) (use Suc.prems in \<open>simp add: call_ptr_def Let_def\<close>)
  then show ?case using Suc.prems by (simp add: mcap_bit_def MCapRegRead_def cfg_read_def call_ptr_def Let_def split_def)
qed

lemma mcap_request_timeout_unnoticed:
  assumes "\<And>l. ucast (kptr w l (C_cfg_read (mcap_base a + MCAP_STATUS))) AND MCAP_STS_CFG_MCAP_REQ_MASK \<noteq> 0"
  shows "fst (MCapClearRequestByConfigure a w) = 0"
proof -
  have env: "kptr (emit e v) = kptr v" for e v by simp
  have "fst (mcap_wait a MCAP_LOOP_COUNT v) = -1" if "kptr v = kptr w" for v
    by (rule mcap_wait_timeout) (use assms that in simp)
  then show ?thesis
    by (simp add: MCapClearRequestByConfigure_def mcap_bit_def MCapRegRead_def MCapRegWrite_def cfg_read_def call_ptr_def call_void_def Let_def split_def)
qed

text \<open>The fractional part of a divider never reaches the clocking wizard: bit 18 is masked where it should be set.\<close>

lemma divider_drops_fraction: "\<forall>c \<in> set frequency_table. divider_word c = divide c"
  by (simp add: frequency_table_def divider_word_def clk_def Let_def)

lemma freqscaling_75_gives_76: "clkwiz_freq XDMA_7V3_INPUT_FREQ 0x04000a01 (divider_word (frequency_table ! 2)) = 76"
  by (simp add: frequency_table_def divider_word_def clk_def clkwiz_freq_def XDMA_7V3_INPUT_FREQ_def Let_def bit_simps)

end
