(* ===== verification/Xdma_Options.thy ===== *)
theory Xdma_Options
  imports Xdma_Clk
begin

text \<open>
  The functions of \<^verbatim>\<open>xdma-core.c\<close> that exist in two variants, chosen by an option of \<^verbatim>\<open>xdma-core.h\<close>, in the variant of the
  option that is off by default: chaining the descriptor lists of queued transfers
  (\<^verbatim>\<open>CHAIN_MULTIPLE_TRANSFERS\<close>), forced completion (\<^verbatim>\<open>FORCE_IR_DESC_COMPLETED\<close>), the register dumps
  (\<^verbatim>\<open>XDMA_STATUS_DUMPS\<close>), the identification of engines, features and configuration of the SDAccel build, and the dumps. A dump is the
  list of values it prints.
\<close>

section \<open>Chaining queued transfers\<close>

text \<open>A last transfer without descriptors would make the code write before its list: a crash here.\<close>

definition chain_transfers :: "xdma_engine \<Rightarrow> u64 \<Rightarrow> world \<Rightarrow> world option" where
  "chain_transfers e p w = do {
     BUG_ON (p = 0);
     if transfer_list e \<noteq> [] then do {
       l \<leftarrow> xfers w (last (transfer_list e));
       t \<leftarrow> xfers w p;
       BUG_ON (desc_num l = 0);
       let d = desc_ptr (desc_virt l) (desc_num l - 1);
       w \<leftarrow> xdma_desc_link d (desc_virt t) (desc_bus t) w;
       xdma_desc_control_clear d XDMA_DESC_STOPPED w
     } else Some w }"

text \<open>\<^verbatim>\<open>transfer_queue\<close> with chaining: the call stands before the transfer is marked and appended.\<close>

definition transfer_queue_chained :: "xdma_engine \<Rightarrow> u64 \<Rightarrow> world \<Rightarrow> (int \<times> xdma_engine \<times> world) option" where
  "transfer_queue_chained e p w = do {
     BUG_ON (p = 0);
     t \<leftarrow> xfers w p;
     BUG_ON (desc_num t = 0);
     if shutdown e AND ENGINE_SHUTDOWN_REQUEST \<noteq> 0 then Some (-1, e, w)
     else do {
       w \<leftarrow> chain_transfers e p w;
       w \<leftarrow> xfer_upd p (\<lambda>t. t\<lparr>state := TRANSFER_STATE_SUBMITTED\<rparr>) w;
       let e = e\<lparr>transfer_list := transfer_list e @ [p]\<rparr>;
       if \<not> running e then do {
         (_, e, w) \<leftarrow> engine_start e w;
         Some (0, e, w)
       } else Some (0, e, w) } }"

definition xdma_desc_force_complete :: "u64 \<Rightarrow> world \<Rightarrow> world option" where
  "xdma_desc_force_complete p w = xdma_desc_control p XDMA_DESC_COMPLETED w"

section \<open>Identification\<close>

definition CAP_64BIT_DMA :: u32 where [const_defs]: "CAP_64BIT_DMA = 2"
definition CAP_64BIT_DESC :: u32 where [const_defs]: "CAP_64BIT_DESC = 4"
definition CAP_ENGINE_WRITE :: u32 where [const_defs]: "CAP_ENGINE_WRITE = 8"
definition CAP_ENGINE_READ :: u32 where [const_defs]: "CAP_ENGINE_READ = 16"

definition is_engine_id :: "u32 \<Rightarrow> bool" where
  "is_engine_id w \<longleftrightarrow> w AND 0x00ffff00 = 0x00c10000 \<or> w AND 0x00ffff00 = 0x00c20000"

text \<open>The result carries the new value of \<^verbatim>\<open>lro->capabilities\<close>.\<close>

definition engine_initialize :: "xdma_dev \<Rightarrow> u64 \<Rightarrow> u32 \<Rightarrow> world \<Rightarrow> (int \<times> u32 \<times> world) option" where
  "engine_initialize lro offset caps w = do {
     b \<leftarrow> config_bar lro;
     let (v, w) = read_register (b + offset) w;
     if \<not> is_engine_id v then Some (-1, caps, w)
     else do {
       let caps = (if v AND 0xff < 2 then caps AND NOT (CAP_64BIT_DMA OR CAP_64BIT_DESC) else caps);
       Some (0, caps, write_register 0 (b + offset + 4) w) } }"

definition engine_version :: "xdma_dev \<Rightarrow> u64 \<Rightarrow> world \<Rightarrow> (int \<times> world) option" where
  "engine_version lro offset w = do {
     b \<leftarrow> config_bar lro;
     let (v, w) = read_register (b + offset) w;
     Some (if \<not> is_engine_id v then -1 else uint (v AND 0xff), w) }"

definition FEATURE_ID :: u64 where [const_defs]: "FEATURE_ID = 0x031000"

definition find_feature_id :: "xdma_dev \<Rightarrow> world \<Rightarrow> (u64 \<times> world) option" where
  "find_feature_id lro w = do {
     b \<leftarrow> user_bar lro;
     let (low, w) = read_register (b + FEATURE_ID) w;
     let (high, w) = read_register (b + FEATURE_ID + 8) w;
     Some (ucast low OR push_bit 32 (ucast high), w) }"

section \<open>The configuration inspector\<close>

text \<open>The flags of the write engine; those of the read engine have the same values.\<close>

definition CONFIG_WDMA_256 :: u32 where [const_defs]: "CONFIG_WDMA_256 = 16"
definition CONFIG_WDMA_128 :: u32 where [const_defs]: "CONFIG_WDMA_128 = 8"
definition CONFIG_WDMA_32 :: u32 where [const_defs]: "CONFIG_WDMA_32 = 2"
definition CONFIG_WDMA_EN :: u32 where [const_defs]: "CONFIG_WDMA_EN = 1"

definition dma_align :: "u32 \<Rightarrow> int" where
  "dma_align v = (if v AND CONFIG_WDMA_32 \<noteq> 0 then 4 else if v AND CONFIG_WDMA_128 \<noteq> 0 then 16
     else if v AND CONFIG_WDMA_256 \<noteq> 0 then 32 else 8)"

text \<open>The function is switched off in every build, and the member \<^verbatim>\<open>align\<close> it sets is not in the structure any more:
  the capabilities and the two alignments are passed along.\<close>

definition xdma_config :: "xdma_dev \<Rightarrow> u64 \<Rightarrow> u32 \<Rightarrow> int \<times> int \<Rightarrow> world \<Rightarrow> (int \<times> u32 \<times> (int \<times> int) \<times> world) option" where
  "xdma_config lro offset caps align w = do {
     b \<leftarrow> config_bar lro;
     let r = b + offset;
     let (v, w) = read_register r w;
     let version = v AND 0xff;
     if v AND 0xffffff00 \<noteq> 0x00b20000 then Some (-1, caps, align, w)
     else do {
       let (_, w) = read_register (r + 0x08) w;
       let (_, w) = read_register (r + 0x0c) w;
       let (v, w) = read_register (r + 0x10) w;
       let (caps, align, w) =
         (if v AND 0xffff \<noteq> 0xFF02 then (caps, align, w)
          else if version < 2 then (caps OR CAP_ENGINE_WRITE OR CAP_ENGINE_READ, (8, 8), w)
          else let (v, w) = read_register (r + 0x1c) w;
                   (caps, align) = (if v AND CONFIG_WDMA_EN \<noteq> 0 then (caps OR CAP_ENGINE_WRITE, (dma_align v, snd align)) else (caps, align));
                   (v, w) = read_register (r + 0x20) w;
                   (caps, align) = (if v AND CONFIG_WDMA_EN \<noteq> 0 then (caps OR CAP_ENGINE_READ, (fst align, dma_align v)) else (caps, align))
               in (caps, align, w));
       let (_, w) = read_register (r + 0x04) w;
       Some (0, caps, align, w) } }"

lemma dma_align_values: "dma_align v \<in> {4, 8, 16, 32}"
  by (simp add: dma_align_def)

lemma cap_bits:
  "(c OR CAP_ENGINE_WRITE) AND CAP_ENGINE_READ = c AND CAP_ENGINE_READ" "(c OR CAP_ENGINE_READ) AND CAP_ENGINE_WRITE = c AND CAP_ENGINE_WRITE"
  by (simp_all add: const_defs bit.conj_disj_distrib2)

text \<open>An engine the inspector announces has an alignment: 4, 8, 16 or 32 bytes.\<close>

lemma xdma_config_alignment:
  assumes "xdma_config lro offset caps align w = Some (0, caps', align', w')"
    and "caps AND CAP_ENGINE_WRITE = 0" "caps AND CAP_ENGINE_READ = 0"
  shows "caps' AND CAP_ENGINE_WRITE \<noteq> 0 \<Longrightarrow> fst align' \<in> {4, 8, 16, 32}" and "caps' AND CAP_ENGINE_READ \<noteq> 0 \<Longrightarrow> snd align' \<in> {4, 8, 16, 32}"
proof -
  define S :: "int set" where "S = {4, 8, 16, 32}"
  have S: "dma_align v \<in> S" "8 \<in> S" for v using dma_align_values by (simp_all add: S_def)
  show "fst align' \<in> {4, 8, 16, 32}" if "caps' AND CAP_ENGINE_WRITE \<noteq> 0"
    using assms that S unfolding S_def[symmetric]
    by (auto simp: xdma_config_def read_register_def Let_def bind_eq_Some_conv cap_bits split: if_splits)
  show "snd align' \<in> {4, 8, 16, 32}" if "caps' AND CAP_ENGINE_READ \<noteq> 0"
    using assms that S unfolding S_def[symmetric]
    by (auto simp: xdma_config_def read_register_def Let_def bind_eq_Some_conv cap_bits split: if_splits)
qed

section \<open>Dumps\<close>

definition BLOCK_ID_MASK :: u32 where [const_defs]: "BLOCK_ID_MASK = 0xFFF00000"
definition BLOCK_ID_HEAD :: u32 where [const_defs]: "BLOCK_ID_HEAD = 0x1FC00000"

fun read_all :: "u64 list \<Rightarrow> world \<Rightarrow> u32 list \<times> world" where
  "read_all [] w = ([], w)"
| "read_all (a # as) w = (case read_register a w of (v, w) \<Rightarrow> (case read_all as w of (vs, w) \<Rightarrow> (v # vs, w)))"

definition interrupt_status :: "xdma_dev \<Rightarrow> world \<Rightarrow> (u32 list \<times> world) option" where
  "interrupt_status lro w = do {
     b \<leftarrow> config_bar lro;
     Some (read_all (map (\<lambda>r. b + XDMA_OFS_INT_CTRL + ir r) [I_user_int_enable, I_channel_int_enable, I_user_int_request,
       I_channel_int_request, I_user_int_pending, I_channel_int_pending]) w) }"

definition engine_reg_dump :: "xdma_engine \<Rightarrow> world \<Rightarrow> u32 list \<times> world" where
  "engine_reg_dump e w = (case read_register (regs e + er R_identifier) w of (v, w) \<Rightarrow>
     if v AND BLOCK_ID_MASK \<noteq> BLOCK_ID_HEAD then ([v], w)
     else (case read_all [regs e + er R_status, regs e + er R_control, sgdma_regs e + sr S_first_desc_lo,
             sgdma_regs e + sr S_first_desc_hi, sgdma_regs e + sr S_first_desc_adjacent, regs e + er R_completed_desc_count,
             regs e + er R_interrupt_enable_mask] w of (vs, w) \<Rightarrow> (v # vs, w)))"

definition dump_desc :: "u64 \<Rightarrow> world \<Rightarrow> u32 list option" where
  "dump_desc p w = do {
     d \<leftarrow> dmem w p;
     Some [control d, bytes d, src_addr_lo d, src_addr_hi d, dst_addr_lo d, dst_addr_hi d, next_lo d, next_hi d] }"

definition transfer_dump :: "u64 \<Rightarrow> world \<Rightarrow> u32 list list option" where
  "transfer_dump p w = do {
     t \<leftarrow> xfers w p;
     for_range 0 (desc_num t) (\<lambda>i out. do { d \<leftarrow> dump_desc (desc_ptr (desc_virt t) i) w; Some (out @ [d]) }) [] }"

definition show_device_numbers :: "xdma_dev \<Rightarrow> int list" where
  "show_device_numbers lro = [major lro, instance_nr lro]"

section \<open>The queue is one descriptor list\<close>

text \<open>The last descriptor of a queued transfer, and the links between consecutive transfers of the queue.\<close>

definition last_desc_ptr :: "world \<Rightarrow> u64 \<Rightarrow> u64" where
  "last_desc_ptr w p = (case xfers w p of None \<Rightarrow> 0 | Some t \<Rightarrow> desc_ptr (desc_virt t) (desc_num t - 1))"

fun queue_linked :: "world \<Rightarrow> u64 list \<Rightarrow> bool" where
  "queue_linked w (p # q # ps) \<longleftrightarrow>
    (\<exists>d t. dmem w (last_desc_ptr w p) = Some d \<and> xfers w q = Some t \<and> next_addr d = desc_bus t \<and>
       control d AND XDMA_DESC_STOPPED = 0) \<and> queue_linked w (q # ps)"
| "queue_linked w _ \<longleftrightarrow> True"

lemma queue_linked_cong:
  assumes "queue_linked w xs"
    and "\<And>p. p \<in> set xs \<Longrightarrow> last_desc_ptr w' p = last_desc_ptr w p"
    and "\<And>p t. p \<in> set xs \<Longrightarrow> xfers w p = Some t \<Longrightarrow> \<exists>t'. xfers w' p = Some t' \<and> desc_bus t' = desc_bus t"
    and "\<And>p. p \<in> set (butlast xs) \<Longrightarrow> dmem w' (last_desc_ptr w p) = dmem w (last_desc_ptr w p)"
  shows "queue_linked w' xs"
  using assms
proof (induction w xs rule: queue_linked.induct)
  case (1 w p q ps)
  from 1(2) obtain d t where d: "dmem w (last_desc_ptr w p) = Some d" "xfers w q = Some t" "next_addr d = desc_bus t"
    "control d AND XDMA_DESC_STOPPED = 0" "queue_linked w (q # ps)" by auto
  obtain t' where t': "xfers w' q = Some t'" "desc_bus t' = desc_bus t" using 1(4)[of q t] d(2) by auto
  have "dmem w' (last_desc_ptr w' p) = Some d" using 1(3)[of p] 1(5)[of p] d(1) by auto
  moreover have "queue_linked w' (q # ps)" by (rule 1(1)[OF d(5)]) (use 1(3-5) in \<open>auto simp del: queue_linked.simps\<close>)
  ultimately show ?case using d(3,4) t' by auto
qed auto

lemma queue_linked_snoc:
  "queue_linked w (ps @ [l, p]) \<longleftrightarrow> queue_linked w (ps @ [l]) \<and> queue_linked w [l, p]"
proof (induction ps)
  case (Cons x ps)
  then show ?case by (cases ps) auto
qed simp

text \<open>The descriptor \<open>d\<close> of the last queued transfer after chaining.\<close>

lemma chain_transfers_run:
  assumes "transfer_list e = ps @ [l]" and "p \<noteq> 0" and "xfers w l = Some tl0" "desc_num tl0 \<noteq> 0" and "xfers w p = Some t" "desc_virt t \<noteq> 0"
    and "dmem w (last_desc_ptr w l) = Some d"
  shows "\<exists>d'. chain_transfers e p w = Some (w\<lparr>dmem := (dmem w)(last_desc_ptr w l \<mapsto> d')\<rparr>) \<and> next_addr d' = desc_bus t \<and>
    control d' AND XDMA_DESC_STOPPED = 0"
proof -
  let ?d = "(link_eff (desc_virt t, desc_bus t) d)\<lparr>control := control (link_eff (desc_virt t, desc_bus t) d) AND NOT XDMA_DESC_STOPPED\<rparr>"
  have "chain_transfers e p w = Some (w\<lparr>dmem := (dmem w)(last_desc_ptr w l \<mapsto> ?d)\<rparr>)"
    using assms by (simp add: chain_transfers_def last_desc_ptr_def desc_simps in_ls_byte_def const_defs)
  moreover have "next_addr ?d = desc_bus t" using assms(6) by (simp add: link_eff_def next_addr_def)
  moreover have "control ?d AND XDMA_DESC_STOPPED = 0" by (simp add: and.assoc)
  ultimately show ?thesis by blast
qed

text \<open>C33. With chaining, the queued transfers are one list for the device: when the transfers of the queue are linked,
  each last descriptor to the first descriptor of the next transfer and without its stop flag, queueing
  another transfer on the running engine succeeds and links it in as well.\<close>

theorem transfer_queue_chained_links:
  assumes run: "running e" "shutdown e AND ENGINE_SHUTDOWN_REQUEST = 0"
    and q: "queue_linked w (transfer_list e)" "distinct (map (last_desc_ptr w) (transfer_list e))" "p \<notin> set (transfer_list e)"
    and live: "\<And>l. l \<in> set (transfer_list e) \<Longrightarrow> \<exists>t. xfers w l = Some t \<and> desc_num t \<noteq> 0 \<and> dmem w (last_desc_ptr w l) \<noteq> None"
    and p: "p \<noteq> 0" "xfers w p = Some t" "desc_num t \<noteq> 0" "desc_virt t \<noteq> 0"
  shows "\<exists>e' w'. transfer_queue_chained e p w = Some (0, e', w') \<and> transfer_list e' = transfer_list e @ [p] \<and>
    queue_linked w' (transfer_list e @ [p])"
proof (cases "transfer_list e" rule: rev_cases)
  case Nil
  then show ?thesis using run p by (simp add: transfer_queue_chained_def chain_transfers_def xfer_upd_def)
next
  case (snoc ps l)
  from live[of l] snoc obtain tl0 d where l: "xfers w l = Some tl0" "desc_num tl0 \<noteq> 0" "dmem w (last_desc_ptr w l) = Some d" by auto
  from chain_transfers_run[OF snoc p(1) l(1,2) p(2,4) l(3)] obtain d' where
    c: "chain_transfers e p w = Some (w\<lparr>dmem := (dmem w)(last_desc_ptr w l \<mapsto> d')\<rparr>)" "next_addr d' = desc_bus t"
      "control d' AND XDMA_DESC_STOPPED = 0" by blast
  let ?w = "w\<lparr>dmem := (dmem w)(last_desc_ptr w l \<mapsto> d'), xfers := (xfers w)(p \<mapsto> t\<lparr>state := TRANSFER_STATE_SUBMITTED\<rparr>)\<rparr>"
  have step: "transfer_queue_chained e p w = Some (0, e\<lparr>transfer_list := transfer_list e @ [p]\<rparr>, ?w)"
    using run p c(1) by (simp add: transfer_queue_chained_def xfer_upd_def)
  have lp: "last_desc_ptr ?w i = last_desc_ptr w i" for i using p(2) by (simp add: last_desc_ptr_def)
  have "queue_linked ?w (ps @ [l])"
  proof (rule queue_linked_cong[OF q(1)[unfolded snoc]])
    fix i assume "i \<in> set (butlast (ps @ [l]))"
    then have "last_desc_ptr w i \<noteq> last_desc_ptr w l" using q(2) snoc by (auto simp: image_iff)
    then show "dmem ?w (last_desc_ptr w i) = dmem w (last_desc_ptr w i)" by simp
  qed (use lp q(3) p(2) in auto)
  moreover have "queue_linked ?w [l, p]" using lp c(2,3) by simp
  ultimately have "queue_linked ?w (ps @ [l, p])" by (simp add: queue_linked_snoc)
  with step snoc show ?thesis by simp
qed

theorem transfer_queue_chained_links_witness:
  "\<exists>e' w'. transfer_queue_chained (zero_engine\<lparr>running := True, transfer_list := [64]\<rparr>) 128
      (quiet_world\<lparr>xfers := [64 \<mapsto> zero_transfer\<lparr>desc_virt := 0x1000, desc_num := 2\<rparr>, 128 \<mapsto> zero_transfer\<lparr>desc_virt := 0x2000, desc_bus := 0x9000, desc_num := 1\<rparr>],
         dmem := [0x1020 \<mapsto> zero_desc]\<rparr>) = Some (0, e', w') \<and> queue_linked w' [64, 128]"
proof -
  let ?w = "quiet_world\<lparr>xfers := [64 \<mapsto> zero_transfer\<lparr>desc_virt := 0x1000, desc_num := 2\<rparr>, 128 \<mapsto> zero_transfer\<lparr>desc_virt := 0x2000, desc_bus := 0x9000, desc_num := 1\<rparr>],
         dmem := [0x1020 \<mapsto> zero_desc]\<rparr>"
  have l: "last_desc_ptr ?w 64 = 0x1020" by (simp add: last_desc_ptr_def desc_ptr_def)
  show ?thesis
    using transfer_queue_chained_links[where e = "zero_engine\<lparr>running := True, transfer_list := [64]\<rparr>" and w = ?w and p = 128
        and t = "zero_transfer\<lparr>desc_virt := 0x2000, desc_bus := 0x9000, desc_num := 1\<rparr>"] l
    by (auto simp: zero_engine_def simp del: queue_linked.simps(1))
qed

end
