(* ===== verification/Xdma_Stash.thy ===== *)
theory Xdma_Stash
  imports Xdma_Bit Xdma_Options
begin

text \<open>
  The clearing bitstream of an UltraScale board over a reload of the SDAccel driver. \<^verbatim>\<open>remove\<close> leaves it with the
  device, in a container of its own (\<^verbatim>\<open>struct xdma_bitstream_container\<close>), and the next \<^verbatim>\<open>probe\<close> takes it over. These are the
  parts of \<^verbatim>\<open>probe\<close> and \<^verbatim>\<open>remove\<close> of \<^verbatim>\<open>xdma-core.c\<close> that only the SDAccel build has; the rest of both is in
  \<^verbatim>\<open>Xdma_Probe\<close>. The state is the magic number of the stash of the device, its SDAccel fields and the world; a container is
  the address it was allocated at and its contents.
\<close>

section \<open>Probe and remove of the SDAccel build\<close>

definition MAGIC_BITSTREAM :: u64 where "MAGIC_BITSTREAM = 0xBBBBBBBB"
definition ULTRASCALE_MCAP_CONFIG_BASE :: nat where "ULTRASCALE_MCAP_CONFIG_BASE = 0x340"

record bitstream_container =
  con_magic :: u64
  con_bitstream :: "(u64 \<times> u8 list) option"
  con_length :: u32

definition take_stash ::
  "(u64 \<times> bitstream_container) option \<Rightarrow> u64 \<times> accel \<times> world \<Rightarrow> (u64 \<times> bitstream_container) option \<times> u64 \<times> accel \<times> world" where
  "take_stash clear_contr s = (case s of (m, a, w) \<Rightarrow> case clear_contr of
     Some (p, c) \<Rightarrow> if con_magic c = MAGIC_BITSTREAM
       then (None, con_magic c, a\<lparr>clear_bitstream := con_bitstream c, clear_bitstream_length := con_length c\<rparr>, call_void (C_kfree p) w)
       else (clear_contr, MAGIC_BITSTREAM, a, w)
   | None \<Rightarrow> (None, MAGIC_BITSTREAM, a, w))"

text \<open>After the device was allocated; \<open>fw\<close> is the firmware file.\<close>

definition probe_accel_early ::
  "bool \<Rightarrow> u8 list \<Rightarrow> (u64 \<times> bitstream_container) option \<Rightarrow> u64 \<times> accel \<times> world \<Rightarrow>
    ((u64 \<times> bitstream_container) option \<times> u64 \<times> accel \<times> world) option" where
  "probe_accel_early load_firmware fw clear_contr s = (case s of (m, a, w) \<Rightarrow>
     let a = (if device_id a = 0x8138 then a\<lparr>mcap_base := ULTRASCALE_MCAP_CONFIG_BASE\<rparr> else a) in
     if load_firmware \<and> device_id a = 0x8138 then do {
       let (clear_contr, m, a, w) = take_stash clear_contr (m, a, w);
       (_, a, w) \<leftarrow> load_boot_firmware fw (a, w);
       Some (clear_contr, m, a, w) }
     else Some (clear_contr, m, a, w))"

text \<open>After the interrupts were enabled.\<close>

definition probe_accel_late ::
  "xdma_dev \<Rightarrow> (u64 \<times> bitstream_container) option \<Rightarrow> u64 \<times> accel \<times> world \<Rightarrow>
    ((u64 \<times> bitstream_container) option \<times> u64 \<times> accel \<times> world) option" where
  "probe_accel_late lro clear_contr s = do {
     let (clear_contr, m, a, w) = take_stash clear_contr s;
     (f, w) \<leftarrow> find_feature_id lro w;
     Some (clear_contr, m, a\<lparr>feature_id := f\<rparr>, w) }"

text \<open>After the device was disabled; the result becomes the driver data of the device once its structure is freed.\<close>

definition remove_accel :: "u64 \<times> accel \<times> world \<Rightarrow> (u64 \<times> bitstream_container) option \<times> world" where
  "remove_accel s = (case s of (m, a, w) \<Rightarrow>
     if device_id a = 0x8138 then
       let (p, w) = call_ptr (C_misc ''kmalloc'' 24) w in
       (if p \<noteq> 0 then Some (p, \<lparr>con_magic = m, con_bitstream = clear_bitstream a, con_length = clear_bitstream_length a\<rparr>) else None, w)
     else (None, w))"

section \<open>The stash survives a reload\<close>

lemma take_stash_container:
  "con_magic c = MAGIC_BITSTREAM \<Longrightarrow> take_stash (Some (p, c)) (m, a, w) =
    (None, MAGIC_BITSTREAM, a\<lparr>clear_bitstream := con_bitstream c, clear_bitstream_length := con_length c\<rparr>, call_void (C_kfree p) w)"
  "take_stash None (m, a, w) = (None, MAGIC_BITSTREAM, a, w)"
  by (simp_all add: take_stash_def)

definition no_firmware :: "world \<Rightarrow> bool" where
  "no_firmware w \<longleftrightarrow> (\<forall>l c. kint w l (C_firmware c) \<noteq> 0)"

lemma load_boot_firmware_none:
  assumes "no_firmware w"
  shows "\<exists>w' l. load_boot_firmware fw (a, w) = Some (0, a, w') \<and> io w' = io w @ l \<and> (\<forall>p. KV (C_kfree p) \<notin> set l)"
  using assms by (simp add: load_boot_firmware_def request_fw_def call_int_def Let_def no_firmware_def)

lemma find_feature_id_run:
  assumes "user_bar lro = Some b"
  shows "\<exists>f w' l. find_feature_id lro w = Some (f, w') \<and> io w' = io w @ l \<and> (\<forall>p. KV (C_kfree p) \<notin> set l)"
  using assms by (simp add: find_feature_id_def read_register_def Let_def)

text \<open>
  C23. The stash over a reload. When \<^verbatim>\<open>remove\<close> gets the memory for its container, the next \<^verbatim>\<open>probe\<close> of the board, whether it looks for a firmware
  file that is not there or does not look for one, ends with exactly the bitstream and length that were left, marked as valid, and
  with no container: it was freed once.
\<close>

theorem stash_survives_reload:
  assumes "remove_accel (MAGIC_BITSTREAM, a, w) = (Some (p, c), w')" and "device_id a0 = 0x8138" and "user_bar lro = Some b" and "no_firmware v"
  shows "\<exists>cc m1 a1 v1 l1. probe_accel_early load_firmware fw (Some (p, c)) (0, a0, v) = Some (cc, m1, a1, v1) \<and> io v1 = io v @ l1 \<and>
    (\<exists>a3 v3 l2. probe_accel_late lro cc (m1, a1, v2) = Some (None, MAGIC_BITSTREAM, a3, v3) \<and> io v3 = io v2 @ l2 \<and>
       clear_bitstream a3 = clear_bitstream a \<and> clear_bitstream_length a3 = clear_bitstream_length a \<and>
       count_list (l1 @ l2) (KV (C_kfree p)) = 1)"
proof -
  have c: "con_magic c = MAGIC_BITSTREAM" "con_bitstream c = clear_bitstream a" "con_length c = clear_bitstream_length a"
    using assms(1) by (auto simp: remove_accel_def Let_def split: if_splits prod.splits)
  let ?a = "a0\<lparr>mcap_base := ULTRASCALE_MCAP_CONFIG_BASE\<rparr>"
  let ?s = "?a\<lparr>clear_bitstream := con_bitstream c, clear_bitstream_length := con_length c\<rparr>"
  show ?thesis
  proof (cases load_firmware)
    case True
    have "no_firmware (call_void (C_kfree p) v)" using assms(4) by (simp add: no_firmware_def call_void_def)
    from load_boot_firmware_none[OF this, of fw ?s] obtain v1 l1 where
      1: "load_boot_firmware fw (?s, call_void (C_kfree p) v) = Some (0, ?s, v1)" "io v1 = io v @ KV (C_kfree p) # l1" "KV (C_kfree p) \<notin> set l1"
      by (auto simp: call_void_def)
    obtain f v3 l2 where 2: "find_feature_id lro v2 = Some (f, v3)" "io v3 = io v2 @ l2" "KV (C_kfree p) \<notin> set l2"
      using find_feature_id_run[OF assms(3)] by blast
    have "count_list ((KV (C_kfree p) # l1) @ l2) (KV (C_kfree p)) = 1" using 1(3) 2(3) by (simp add: count_list_0_iff)
    with True 1 2 c assms(2) show ?thesis
      by (simp add: probe_accel_early_def probe_accel_late_def take_stash_container)
  next
    case False
    obtain f v3 l2 where 2: "find_feature_id lro (call_void (C_kfree p) v2) = Some (f, v3)" "io v3 = io v2 @ KV (C_kfree p) # l2" "KV (C_kfree p) \<notin> set l2"
      using find_feature_id_run[OF assms(3), of "call_void (C_kfree p) v2"] by (auto simp: call_void_def)
    have "count_list ([] @ KV (C_kfree p) # l2) (KV (C_kfree p)) = 1" using 2(3) by (simp add: count_list_0_iff)
    with False 2 c assms(2) show ?thesis
      by (simp add: probe_accel_early_def probe_accel_late_def take_stash_container)
  qed
qed

theorem stash_survives_reload_witness:
  "\<exists>p c w' cc m1 a1 v1 l1 a3 v3 l2.
    remove_accel (MAGIC_BITSTREAM, demo_accel\<lparr>device_id := 0x8138, clear_bitstream := Some (7, [1, 2, 3]), clear_bitstream_length := 3\<rparr>, quiet_world) = (Some (p, c), w') \<and>
    probe_accel_early True [] (Some (p, c)) (0, demo_accel\<lparr>device_id := 0x8138\<rparr>, quiet_world\<lparr>kint := \<lambda>_ _. -2\<rparr>) = Some (cc, m1, a1, v1) \<and> io v1 = l1 \<and>
    probe_accel_late (zero_dev\<lparr>user_bar_idx := 0\<rparr>) cc (m1, a1, quiet_world) = Some (None, MAGIC_BITSTREAM, a3, v3) \<and> io v3 = l2 \<and>
    clear_bitstream a3 = Some (7, [1, 2, 3]) \<and> count_list (l1 @ l2) (KV (C_kfree p)) = 1"
proof -
  let ?a = "demo_accel\<lparr>device_id := 0x8138, clear_bitstream := Some (7, [1, 2, 3]), clear_bitstream_length := 3\<rparr>"
  obtain p c w' where r: "remove_accel (MAGIC_BITSTREAM, ?a, quiet_world) = (Some (p, c), w')"
    by (simp add: remove_accel_def call_ptr_def)
  have "user_bar (zero_dev\<lparr>user_bar_idx := 0\<rparr>) = Some 0" by (simp add: user_bar_def zero_dev_def XDMA_BAR_NUM_def)
  moreover have "no_firmware (quiet_world\<lparr>kint := \<lambda>_ _. -2\<rparr>)" by (simp add: no_firmware_def)
  moreover have "device_id (demo_accel\<lparr>device_id := 0x8138\<rparr>) = 0x8138" by simp
  ultimately obtain cc m1 a1 v1 l1 a3 v3 l2 where
    "probe_accel_early True [] (Some (p, c)) (0, demo_accel\<lparr>device_id := 0x8138\<rparr>, quiet_world\<lparr>kint := \<lambda>_ _. -2\<rparr>) = Some (cc, m1, a1, v1)" "io v1 = l1"
    "probe_accel_late (zero_dev\<lparr>user_bar_idx := 0\<rparr>) cc (m1, a1, quiet_world) = Some (None, MAGIC_BITSTREAM, a3, v3)" "io v3 = l2"
    "clear_bitstream a3 = Some (7, [1, 2, 3])" "count_list (l1 @ l2) (KV (C_kfree p)) = 1"
    using stash_survives_reload[OF r, where ?a0.0 = "demo_accel\<lparr>device_id := 0x8138\<rparr>" and lro = "zero_dev\<lparr>user_bar_idx := 0\<rparr>" and b = 0 and
        v = "quiet_world\<lparr>kint := \<lambda>_ _. -2\<rparr>" and load_firmware = True and fw = "[]" and ?v2.0 = quiet_world] by (simp del: count_list_append) blast
  with r show ?thesis by blast
qed

end
