(* ===== verification/V1_Dmov.thy ===== *)
theory V1_Dmov
  imports Kworld Refinement
begin

text \<open>
  The driver of the first version of the design, \<^verbatim>\<open>v1_dmover/software/driver/axi4s2dmov.c\<close>: an AXI DataMover that fills a ring of
  coherent buffers, commanded and answered through an AXI FIFO.

  The header that gives the number and the size of the buffers and the ioctl codes is not in the
  repository: the number and the size are arguments of the operations, the codes a datatype. The GPIO
  module the driver calls is not there either; its calls appear in the history.
\<close>

definition AF_ISR :: u64 where "AF_ISR = 0x00"
definition AF_IER :: u64 where "AF_IER = 0x04"
definition AF_TX_RESET :: u64 where "AF_TX_RESET = 0x08"
definition AF_TDFD :: u64 where "AF_TDFD = 0x10"
definition AF_TLR :: u64 where "AF_TLR = 0x14"
definition AF_RX_RESET :: u64 where "AF_RX_RESET = 0x18"
definition AF_RDFO :: u64 where "AF_RDFO = 0x1c"
definition AF_RDFD :: u64 where "AF_RDFD = 0x20"
definition AF_RLR :: u64 where "AF_RLR = 0x24"
definition AF_STR_RESET :: u64 where "AF_STR_RESET = 0x28"

lemmas af_defs = AF_ISR_def AF_IER_def AF_TX_RESET_def AF_TDFD_def AF_TLR_def AF_RX_RESET_def AF_RDFO_def AF_RDFD_def
  AF_RLR_def AF_STR_RESET_def

text \<open>The global variables of the driver.\<close>

record dmov =
  fmem :: u64
  virt_buf :: "u64 list"
  phys_buf :: "u64 list"
  blen :: "int list"
  bready :: "bool list"
  received_buf :: nat
  exp_buf :: nat
  is_started :: bool
  irq :: int
  irq_set :: int
  my_pdev :: u64
  my_dev :: u32
  my_cdev :: u64
  class_my_tst :: u64

definition zero_dmov :: "nat \<Rightarrow> dmov" where
  "zero_dmov N = \<lparr>fmem = 0, virt_buf = replicate N 0, phys_buf = replicate N 0, blen = replicate N 0, bready = replicate N False,
     received_buf = 0, exp_buf = 0, is_started = False, irq = -1, irq_set = -1, my_pdev = 0, my_dev = 0, my_cdev = 0, class_my_tst = 0\<rparr>"

section \<open>Interrupt\<close>

text \<open>\<^verbatim>\<open>i += 1; if (i == BUF_NUM) i = 0;\<close>\<close>

definition buf_next :: "nat \<Rightarrow> nat \<Rightarrow> nat" where
  "buf_next N i = (if i + 1 = N then 0 else i + 1)"

text \<open>What the handler does with an accepted status word: the tag selects the buffer, unchecked.\<close>

definition status_word :: "nat \<Rightarrow> u32 \<Rightarrow> dmov \<Rightarrow> dmov option" where
  "status_word N res d = do {
     let nbuf = unat (res AND 0xf);
     ls \<leftarrow> arr_set (blen d) nbuf (uint (drop_bit 8 (res AND 0x3fffff00)));
     rs \<leftarrow> arr_set (bready d) nbuf True;
     Some (d\<lparr>blen := ls, bready := rs, exp_buf := buf_next N (exp_buf d)\<rparr>) }"

partial_function (option) irq_loop :: "nat \<Rightarrow> dmov \<Rightarrow> world \<Rightarrow> (dmov \<times> world) option option" where
  "irq_loop N d w =
    (case read_register (fmem d + AF_RDFO) w of (res, w) \<Rightarrow>
     if res = 0 then Some (Some (d, w))
     else case read_register (fmem d + AF_RLR) w of (res, w) \<Rightarrow>
     if res \<noteq> 4 then Some (Some (d, w))
     else case read_register (fmem d + AF_RDFD) w of (res, w) \<Rightarrow>
     if \<not> bit res 7 then Some (Some (d, w))
     else case status_word N res d of
       None \<Rightarrow> Some None
     | Some d \<Rightarrow> irq_loop N d w)"

text \<open>The result tells whether the interrupt was handled.\<close>

definition tst1_irq :: "nat \<Rightarrow> dmov \<Rightarrow> world \<Rightarrow> (bool \<times> dmov \<times> world) option option" where
  "tst1_irq N d w =
    (case read_register (fmem d + AF_ISR) w of (v, w) \<Rightarrow>
     if v AND 0x04000000 \<noteq> 0 then
       (case irq_loop N d (write_register 0xffffffff (fmem d + AF_ISR) w) of
          None \<Rightarrow> None
        | Some None \<Rightarrow> Some None
        | Some (Some (d, w)) \<Rightarrow> Some (Some (True, d, call_void (C_wake_up ''readqueue'') w)))
     else Some (Some (False, d, w)))"

section \<open>Requesting a transfer\<close>

definition transfer_buf :: "nat \<Rightarrow> dmov \<Rightarrow> world \<Rightarrow> world option" where
  "transfer_buf i d w = do {
     p \<leftarrow> arr_get (phys_buf d) i;
     let w = write_register ((2 ^ 22 - 1) OR 2 ^ 23 OR 2 ^ 30) (fmem d + AF_TDFD) w;
     let w = write_register (ucast p) (fmem d + AF_TDFD) w;
     let w = write_register (of_nat i) (fmem d + AF_TDFD) w;
     Some (write_register 9 (fmem d + AF_TLR) w) }"

section \<open>ioctl\<close>

datatype adm_cmd = ADM_RESET | ADM_START | ADM_STOP | ADM_GET | ADM_CONFIRM | ADM_OTHER

definition ksgpio :: "string \<Rightarrow> nat \<Rightarrow> world \<Rightarrow> world" where
  "ksgpio f v w = snd (call_int (C_misc f v) w)"

definition mdelay :: "nat \<Rightarrow> world \<Rightarrow> world" where
  "mdelay n w = call_void (C_delay n) w"

definition adm_reset :: "dmov \<Rightarrow> world \<Rightarrow> world" where
  "adm_reset d w =
    (let w = ksgpio ''ksgpio_set_start'' 0 (ksgpio ''ksgpio_set_reset'' 0 w);
         w = mdelay 100 (ksgpio ''ksgpio_set_reset'' 1 (mdelay 100 w));
         w = write_register 0xa5 (fmem d + AF_STR_RESET) w;
         w = write_register 0xa5 (fmem d + AF_TX_RESET) w;
         w = write_register 0xa5 (fmem d + AF_RX_RESET) w
     in mdelay 100 w)"

definition adm_start :: "nat \<Rightarrow> dmov \<Rightarrow> world \<Rightarrow> (int \<times> dmov \<times> world) option" where
  "adm_start N d w =
    (if is_started d then Some (- EINVAL, d, w)
     else do {
       let d = d\<lparr>exp_buf := 0, received_buf := 0\<rparr>;
       rs \<leftarrow> for_range 0 N (\<lambda>i rs. arr_set rs i False) (bready d);
       let d = d\<lparr>bready := rs\<rparr>;
       w \<leftarrow> for_range 0 N (\<lambda>i w. transfer_buf i d w) w;
       let w = write_register 0x04000000 (fmem d + AF_IER) w;
       let w = ksgpio ''ksgpio_set_start'' 1 w;
       Some (0, d\<lparr>is_started := True\<rparr>, w) })"

text \<open>\<open>sleep\<close> is what happens while the reader waits for its buffer.\<close>

definition adm_get :: "(dmov \<times> world \<Rightarrow> dmov \<times> world) \<Rightarrow> dmov \<Rightarrow> world \<Rightarrow> (int \<times> dmov \<times> world) option" where
  "adm_get sleep d w = do {
     r \<leftarrow> arr_get (bready d) (received_buf d);
     let (res, d, w) = (if r then (0, d, w) else (case sleep (d, w) of (d, w) \<Rightarrow>
           (case call_int (C_wait_event ''readqueue'') w of (res, w) \<Rightarrow> (res, d, w))));
     if res \<noteq> 0 then Some (res, d, w)
     else do {
       n \<leftarrow> arr_get (blen d) (received_buf d);
       Some (sint (push_bit 24 (of_nat (received_buf d)) OR of_int n :: u32), d, w) } }"

definition adm_confirm :: "nat \<Rightarrow> dmov \<Rightarrow> world \<Rightarrow> (int \<times> dmov \<times> world) option" where
  "adm_confirm N d w = do {
     r \<leftarrow> arr_get (bready d) (received_buf d);
     if \<not> r then Some (- EINVAL, d, w)
     else do {
       ls \<leftarrow> arr_set (blen d) (received_buf d) 0;
       rs \<leftarrow> arr_set (bready d) (received_buf d) False;
       let d = d\<lparr>blen := ls, bready := rs\<rparr>;
       w \<leftarrow> transfer_buf (received_buf d) d w;
       Some (0, d\<lparr>received_buf := buf_next N (received_buf d)\<rparr>, w) } }"

definition tst1_ioctl ::
  "nat \<Rightarrow> (dmov \<times> world \<Rightarrow> dmov \<times> world) \<Rightarrow> adm_cmd \<Rightarrow> dmov \<Rightarrow> world \<Rightarrow> (int \<times> dmov \<times> world) option" where
  "tst1_ioctl N sleep cmd d w = (case cmd of
     ADM_RESET \<Rightarrow> Some (0, d, adm_reset d w)
   | ADM_START \<Rightarrow> adm_start N d w
   | ADM_STOP \<Rightarrow> Some (0, d\<lparr>is_started := False\<rparr>, write_register 0 (fmem d + AF_IER) w)
   | ADM_GET \<Rightarrow> adm_get sleep d w
   | ADM_CONFIRM \<Rightarrow> adm_confirm N d w
   | ADM_OTHER \<Rightarrow> Some (- EINVAL, d, w))"

section \<open>Open, release and mmap\<close>

definition tst1_open :: "dmov \<Rightarrow> world \<Rightarrow> int \<times> dmov \<times> world" where
  "tst1_open d w = (case call_int (C_request_irq (of_int (irq d))) w of (res, w) \<Rightarrow>
     (0, d\<lparr>irq_set := if res \<noteq> 0 then -1 else 1\<rparr>, w))"

definition tst1_release :: "dmov \<Rightarrow> world \<Rightarrow> int \<times> dmov \<times> world" where
  "tst1_release d w =
    (let (d, w) = (if is_started d then (d\<lparr>is_started := False\<rparr>, write_register 0 (fmem d + AF_IER) w) else (d, w));
         (d, w) = (if irq_set d \<ge> 0 then (d\<lparr>irq_set := -1\<rparr>, call_void (C_free_irq (of_int (irq d))) w) else (d, w))
     in (0, d, w))"

definition tst1_mmap :: "nat \<Rightarrow> u64 \<Rightarrow> vm_area \<Rightarrow> dmov \<Rightarrow> world \<Rightarrow> (int \<times> vm_area \<times> world) option" where
  "tst1_mmap N BUF_SIZE vma d w = do {
     let off = unat (vm_pgoff vma);
     if off \<ge> N then Some (- EINVAL, vma, w)
     else if vm_end vma - vm_start vma > BUF_SIZE then Some (- EINVAL, vma, w)
     else do {
       p \<leftarrow> arr_get (phys_buf d) off;
       let (res, w) = call_int (C_remap_pfn p BUF_SIZE) w;
       Some (res, vma\<lparr>vm_pgoff := 0\<rparr>, w) } }"

section \<open>Probe and remove\<close>

definition IS_ERR_v1 :: "u64 \<Rightarrow> bool" where "IS_ERR_v1 p \<longleftrightarrow> p \<ge> - 4095"
definition PTR_ERR :: "u64 \<Rightarrow> int" where "PTR_ERR p = sint p"

definition dmov_err1 :: "int \<Rightarrow> dmov \<Rightarrow> world \<Rightarrow> int \<times> dmov \<times> world" where
  "dmov_err1 res d w = (if fmem d \<noteq> 0 then (res, d\<lparr>fmem := 0\<rparr>, call_void (C_pci_iounmap (fmem d)) w) else (res, d, w))"

text \<open>Allocating the buffers; a failure ends the loop with what was allocated still recorded.\<close>

definition dmov_alloc_one :: "nat \<Rightarrow> nat \<Rightarrow> dmov \<times> world \<Rightarrow> (unit option \<times> dmov \<times> world) option" where
  "dmov_alloc_one sz i s = (case s of (d, w) \<Rightarrow> do {
     let (v, w) = call_ptr (C_pci_alloc_consistent sz) w;
     vs \<leftarrow> arr_set (virt_buf d) i v;
     ps \<leftarrow> arr_set (phys_buf d) i (if v = 0 then phys_buf d ! i else kptr w (io w) (C_misc ''phys_buf'' i));
     Some (if v = 0 then Some () else None, d\<lparr>virt_buf := vs, phys_buf := ps\<rparr>, w) })"

text \<open>The part of the probe from the class on.\<close>

definition dmov_register :: "nat \<Rightarrow> nat \<Rightarrow> u64 \<Rightarrow> dmov \<Rightarrow> world \<Rightarrow> (int \<times> dmov \<times> world) option" where
  "dmov_register N sz pdev d w = do {
     let (c, w) = call_ptr (C_misc ''class_create'' 0) w;
     let d = d\<lparr>class_my_tst := c\<rparr>;
     if IS_ERR_v1 c then Some (dmov_err1 (PTR_ERR c) d w)
     else do {
     let (res, w) = call_int (C_cdev ''alloc_chrdev_region'' 0) w;
     let d = (if res = 0 then d\<lparr>my_dev := ucast (kptr w (io w) (C_misc ''my_dev'' 0))\<rparr> else d);
     if res \<noteq> 0 then Some (dmov_err1 res d w)
     else do {
     let (p, w) = call_ptr (C_kzalloc ''cdev'') w;
     let d = d\<lparr>my_cdev := p\<rparr>;
     if p = 0 then Some (dmov_err1 0 d w)
     else do {
     let (res, w) = call_int (C_cdev ''cdev_add'' (ucast (my_dev d))) w;
     if res \<noteq> 0 then Some (dmov_err1 res d w)
     else do {
     let (_, w) = call_ptr (C_cdev ''device_create'' (ucast (my_dev d))) w;
     let d = d\<lparr>my_pdev := pdev\<rparr>;
     (r, d, w) \<leftarrow> for_try 0 N (dmov_alloc_one sz) (d, w);
     Some (if r \<noteq> None then dmov_err1 0 d w else (0, d, w)) } } } } }"

definition tst1_probe :: "nat \<Rightarrow> nat \<Rightarrow> u64 \<Rightarrow> dmov \<Rightarrow> world \<Rightarrow> (int \<times> dmov \<times> world) option" where
  "tst1_probe N sz pdev d w =
    (if my_pdev d \<noteq> 0 then Some (- EINVAL, d, w)
     else do {
     let (res, w) = call_int (C_misc ''ksgpio_check_status'' 0) w;
     if res \<noteq> 0 then Some (dmov_err1 res d w)
     else do {
     let (r, w) = call_ptr (C_misc ''platform_get_resource'' 0) w;
     if r = 0 then Some (dmov_err1 (- EINVAL) d w)
     else do {
     let (f, w) = call_ptr (C_misc ''devm_ioremap_resource'' 0) w;
     let d = d\<lparr>fmem := f\<rparr>;
     if IS_ERR_v1 f then Some (dmov_err1 (PTR_ERR f) d w)
     else do {
     let (n, w) = call_int (C_misc ''platform_get_irq'' 0) w;
     let d = d\<lparr>irq := n\<rparr>;
     if n < 0 then Some (dmov_err1 n d w)
     else dmov_register N sz pdev d w } } } })"

definition dmov_free_one :: "nat \<Rightarrow> nat \<Rightarrow> dmov \<times> world \<Rightarrow> (dmov \<times> world) option" where
  "dmov_free_one sz i s = (case s of (d, w) \<Rightarrow> do {
     v \<leftarrow> arr_get (virt_buf d) i;
     p \<leftarrow> arr_get (phys_buf d) i;
     let w = (if v \<noteq> 0 then call_void (C_pci_free_consistent sz p) w else w);
     Some (d\<lparr>virt_buf := (virt_buf d)[i := 0], phys_buf := (phys_buf d)[i := 0]\<rparr>, w) })"

definition tst1_remove :: "nat \<Rightarrow> nat \<Rightarrow> u64 \<Rightarrow> dmov \<Rightarrow> world \<Rightarrow> (int \<times> dmov \<times> world) option" where
  "tst1_remove N sz pdev d w = do {
     let w = (if my_dev d \<noteq> 0 \<and> class_my_tst d \<noteq> 0 then call_void (C_cdev ''device_destroy'' (ucast (my_dev d))) w else w);
     let (d, w) = (if fmem d \<noteq> 0 then (d\<lparr>fmem := 0\<rparr>, call_void (C_pci_iounmap (fmem d)) w) else (d, w));
     let w = (if my_cdev d \<noteq> 0 then call_void (C_cdev ''cdev_del'' (my_cdev d)) w else w);
     let d = d\<lparr>my_cdev := 0\<rparr>;
     let w = call_void (C_cdev ''unregister_chrdev_region'' (ucast (my_dev d))) w;
     let (d, w) = (if class_my_tst d \<noteq> 0 then (d\<lparr>class_my_tst := 0\<rparr>, call_void (C_misc ''class_destroy'' 0) w) else (d, w));
     let d = (if my_pdev d = pdev then d\<lparr>my_pdev := 0\<rparr> else d);
     (d, w) \<leftarrow> for_range 0 N (dmov_free_one sz) (d, w);
     Some (0, d, w) }"

section \<open>The module\<close>

text \<open>The platform devices the driver is for. \<open>probes\<close> is what the probes of those already present do when the driver
  is registered.\<close>

definition axi4s2dmov_driver_ids :: "string list" where
  "axi4s2dmov_driver_ids = [''xlnx,axi-fifo-mm-s-4.1'']"

definition tst1_init_module :: "(dmov \<times> world \<Rightarrow> dmov \<times> world) \<Rightarrow> dmov \<Rightarrow> world \<Rightarrow> int \<times> dmov \<times> world" where
  "tst1_init_module probes d w = (case call_int (C_misc ''platform_driver_register'' 0) w of (rc, w) \<Rightarrow>
     case (if rc = 0 then probes (d, w) else (d, w)) of (d, w) \<Rightarrow> (rc, d, w))"

definition tst1_cleanup_module :: "(dmov \<times> world \<Rightarrow> dmov \<times> world) \<Rightarrow> dmov \<Rightarrow> world \<Rightarrow> dmov \<times> world" where
  "tst1_cleanup_module removes d w = removes (d, call_void (C_misc ''platform_driver_unregister'' 0) w)"

section \<open>The ring of buffers\<close>

interpretation v1r: ring_index "Suc k" "buf_next (Suc k)" for k
  by unfold_locales (auto simp: buf_next_def mod_if)

lemma buf_next_mod: "0 < N \<Longrightarrow> buf_next N (k mod N) = (k + 1) mod N"
  using v1r.nxt_of_mod[of "N - 1" k] by simp

lemma buf_next_less: "0 < N \<Longrightarrow> i < N \<Longrightarrow> buf_next N i = (i + 1) mod N"
  using v1r.nxt_mod[of i "N - 1"] by simp

text \<open>
  The specification: a FIFO of completed buffers that starts at buffer \<open>r\<close>. The DataMover completes the requested
  buffers in ring order, the reader is told the oldest one, and confirming it requests it again.
\<close>

datatype dm_op = Complete u32 | Get nat int | Confirm

definition word_len :: "u32 \<Rightarrow> int" where
  "word_len v = uint (drop_bit 8 (v AND 0x3fffff00))"

fun dm_spec :: "nat \<Rightarrow> dm_op \<Rightarrow> nat \<times> int list \<Rightarrow> (nat \<times> int list) option" where
  "dm_spec N (Complete v) (r, q) =
     (if length q < N \<and> bit v 7 \<and> unat (v AND 0xf) = (r + length q) mod N then Some (r, q @ [word_len v]) else None)"
| "dm_spec N (Get i n) (r, q) = (if q \<noteq> [] \<and> i = r \<and> n = hd q then Some (r, q) else None)"
| "dm_spec N Confirm (r, q) = (if q \<noteq> [] then Some ((r + 1) mod N, tl q) else None)"

text \<open>A device that raises its interrupt and then presents the status word \<open>v\<close>, once; \<open>k\<close> is the length of the history.\<close>

definition one_status :: "u64 \<Rightarrow> u32 \<Rightarrow> nat \<Rightarrow> io list \<Rightarrow> u64 \<Rightarrow> u32" where
  "one_status f v k l a = (if a = f + AF_ISR then 0x04000000 else if a = f + AF_RDFO then (if length l \<le> k + 2 then 1 else 0)
     else if a = f + AF_RLR then 4 else v)"

fun dm_step :: "nat \<Rightarrow> (dmov \<times> world \<Rightarrow> dmov \<times> world) \<Rightarrow> dm_op \<Rightarrow> dmov \<times> world \<Rightarrow> (dmov \<times> world) option" where
  "dm_step N sleep (Complete v) (d, w) =
     (case tst1_irq N d (w\<lparr>hw := one_status (fmem d) v (length (io w))\<rparr>) of
        Some (Some (True, d, w)) \<Rightarrow> Some (d, w) | _ \<Rightarrow> None)"
| "dm_step N sleep (Get i n) (d, w) = do {
     (res, d, w) \<leftarrow> tst1_ioctl N sleep ADM_GET d w;
     if res = sint (push_bit 24 (of_nat i) OR of_int n :: u32) then Some (d, w) else None }"
| "dm_step N sleep Confirm (d, w) = do {
     (res, d, w) \<leftarrow> tst1_ioctl N sleep ADM_CONFIRM d w;
     if res = 0 then Some (d, w) else None }"

definition dm_rel :: "nat \<Rightarrow> dmov \<times> world \<Rightarrow> nat \<times> int list \<Rightarrow> bool" where
  "dm_rel N s a \<longleftrightarrow> (case (s, a) of ((d, w), (r, q)) \<Rightarrow>
     length (blen d) = N \<and> length (bready d) = N \<and> length (phys_buf d) = N \<and> r < N \<and> received_buf d = r \<and>
     length q \<le> N \<and> exp_buf d = (r + length q) mod N \<and>
     (\<forall>i < N. bready d ! ((r + i) mod N) \<longleftrightarrow> i < length q) \<and> (\<forall>i < length q. blen d ! ((r + i) mod N) = q ! i))"

lemma irq_one_status:
  assumes "bit v 7" and "status_word N v d = Some d'" and "fmem d' = fmem d"
  shows "\<exists>w'. tst1_irq N d (w\<lparr>hw := one_status (fmem d) v (length (io w))\<rparr>) = Some (Some (True, d', w'))"
proof -
  let ?w = "w\<lparr>hw := one_status (fmem d) v (length (io w))\<rparr>"
  have ne: "AF_RDFO \<noteq> AF_ISR" "AF_RLR \<noteq> AF_ISR" "AF_RLR \<noteq> AF_RDFO" "AF_RDFD \<noteq> AF_ISR" "AF_RDFD \<noteq> AF_RDFO" "AF_RDFD \<noteq> AF_RLR"
    by (simp_all add: af_defs)
  show ?thesis
    unfolding tst1_irq_def
    by (subst irq_loop.simps, subst irq_loop.simps)
      (simp add: read_register_def write_register_def one_status_def ne assms Let_def)
qed

lemma transfer_buf_run: "i < length (phys_buf d) \<Longrightarrow> \<exists>w'. transfer_buf i d w = Some w'"
  by (simp add: transfer_buf_def Let_def)

lemma dm_complete:
  assumes "dm_rel N (d, w) (r, q)" and "length q < N" and "unat (v AND 0xf) = (r + length q) mod N"
  shows "\<exists>d'. status_word N v d = Some d' \<and> fmem d' = fmem d \<and> dm_rel N (d', w') (r, q @ [word_len v])"
proof -
  let ?k = "(r + length q) mod N"
  from assms(1) have R: "length (blen d) = N" "length (bready d) = N" "length (phys_buf d) = N" "r < N" "received_buf d = r"
    "exp_buf d = ?k" "\<And>i. i < N \<Longrightarrow> bready d ! ((r + i) mod N) \<longleftrightarrow> i < length q" "\<And>i. i < length q \<Longrightarrow> blen d ! ((r + i) mod N) = q ! i"
    by (auto simp: dm_rel_def)
  have N: "0 < N" and k: "?k < N" using R(4) by auto
  let ?d = "d\<lparr>blen := (blen d)[?k := word_len v], bready := (bready d)[?k := True], exp_buf := buf_next N (exp_buf d)\<rparr>"
  have "status_word N v d = Some ?d" using R(1,2) k assms(3) by (simp add: status_word_def word_len_def Let_def)
  moreover have "bready ?d ! ((r + i) mod N) \<longleftrightarrow> i < Suc (length q)" if "i < N" for i
    using that R(2) R(7)[OF that] mod_shift_eq[OF R(4) that assms(2)] k by (auto simp: nth_list_update)
  moreover have "blen ?d ! ((r + i) mod N) = (q @ [word_len v]) ! i" if "i < Suc (length q)" for i
  proof -
    have "i < N" using that assms(2) by simp
    then show ?thesis using that R(1) R(8)[of i] mod_shift_eq[OF R(4) _ assms(2), of i] k
      by (auto simp: nth_list_update nth_append less_Suc_eq)
  qed
  moreover have "exp_buf ?d = (r + Suc (length q)) mod N" using buf_next_mod[OF N, of "r + length q"] R(6) by simp
  ultimately show ?thesis using R assms(2) by (auto simp: dm_rel_def)
qed

lemma dm_confirm:
  assumes "dm_rel N (d, w) (r, q)" and "q \<noteq> []"
  shows "\<exists>d' w'. adm_confirm N d w = Some (0, d', w') \<and> dm_rel N (d', w') ((r + 1) mod N, tl q)"
proof -
  from assms(1) have R: "length (blen d) = N" "length (bready d) = N" "length (phys_buf d) = N" "r < N" "received_buf d = r"
    "length q \<le> N" "exp_buf d = (r + length q) mod N" "\<And>i. i < N \<Longrightarrow> bready d ! ((r + i) mod N) \<longleftrightarrow> i < length q"
    "\<And>i. i < length q \<Longrightarrow> blen d ! ((r + i) mod N) = q ! i"
    by (auto simp: dm_rel_def)
  have N: "0 < N" and q: "0 < length q" using R(4) assms(2) by auto
  have rdy: "bready d ! r" using R(8)[of 0] R(4) q by simp
  let ?d = "d\<lparr>blen := (blen d)[r := 0], bready := (bready d)[r := False]\<rparr>"
  obtain w' where t: "transfer_buf r ?d w = Some w'" using transfer_buf_run[of r ?d w] R(3,4) by auto
  let ?d' = "?d\<lparr>received_buf := buf_next N r\<rparr>"
  have run: "adm_confirm N d w = Some (0, ?d', w')"
    using R(1,2,4,5) rdy t by (simp add: adm_confirm_def Let_def)
  have nr: "buf_next N r = (r + 1) mod N" using buf_next_less[OF N R(4)] .
  have sh: "((r + 1) mod N + i) mod N = (r + Suc i) mod N" for i by (simp add: mod_simps)
  have r0: "r = (r + 0) mod N" using R(4) by simp
  have b1: "bready ?d' ! ((r + Suc i) mod N) \<longleftrightarrow> i < length (tl q)" if "i < N" for i
  proof (cases "Suc i = N")
    case True
    then have "(r + Suc i) mod N = r" using R(4) by simp
    with True R(2,4,6) show ?thesis by (auto simp: nth_list_update)
  next
    case False
    with that have "Suc i < N" by simp
    with R(8)[OF this] mod_shift_eq[OF R(4) this N] r0 R(2) show ?thesis by (auto simp: nth_list_update)
  qed
  have b2: "blen ?d' ! ((r + Suc i) mod N) = tl q ! i" if "i < length (tl q)" for i
  proof -
    have "Suc i < length q" "Suc i < N" using that R(6) by auto
    with R(9)[of "Suc i"] mod_shift_eq[OF R(4) _ N, of "Suc i"] r0 R(1) show ?thesis by (auto simp: nth_list_update nth_tl)
  qed
  have b3: "exp_buf ?d' = ((r + 1) mod N + length (tl q)) mod N" using R(7) sh[of "length (tl q)"] assms(2) by (cases q) simp_all
  have "dm_rel N (?d', w') ((r + 1) mod N, tl q)"
    unfolding dm_rel_def prod.case
  proof (intro conjI allI impI)
    fix i assume "i < N"
    then show "bready ?d' ! (((r + 1) mod N + i) mod N) \<longleftrightarrow> i < length (tl q)" unfolding sh by (rule b1)
  next
    fix i assume "i < length (tl q)"
    then show "blen ?d' ! (((r + 1) mod N + i) mod N) = tl q ! i" unfolding sh by (rule b2)
  qed (use R N nr b3 in simp_all)
  with run show ?thesis by blast
qed

interpretation dm: simulation "dm_step N sleep" "dm_spec N" "dm_rel N" for N sleep
proof
  fix s a x a' assume R: "dm_rel N s a" and x: "dm_spec N x a = Some a'"
  obtain d w r q where sa: "s = (d, w)" "a = (r, q)" by (cases s; cases a)
  show "\<exists>s'. dm_step N sleep x s = Some s' \<and> dm_rel N s' a'"
  proof (cases x)
    case (Complete v)
    with x sa have v: "length q < N" "bit v 7" "unat (v AND 0xf) = (r + length q) mod N" "a' = (r, q @ [word_len v])" by (auto split: if_splits)
    obtain d' where d': "status_word N v d = Some d'" "fmem d' = fmem d" "\<And>w'. dm_rel N (d', w') (r, q @ [word_len v])"
      using dm_complete[of N d w r q v] R sa v by (metis (no_types, lifting) option.inject)
    obtain w' where "tst1_irq N d (w\<lparr>hw := one_status (fmem d) v (length (io w))\<rparr>) = Some (Some (True, d', w'))"
      using irq_one_status[OF v(2) d'(1,2)] by blast
    with Complete sa v d'(3) show ?thesis by simp
  next
    case (Get i n)
    with x sa have g: "q \<noteq> []" "i = r" "n = hd q" "a' = (r, q)" by (auto split: if_splits)
    from R sa have S: "length (blen d) = N" "length (bready d) = N" "r < N" "received_buf d = r"
      "\<And>i. i < N \<Longrightarrow> bready d ! ((r + i) mod N) \<longleftrightarrow> i < length q" "\<And>i. i < length q \<Longrightarrow> blen d ! ((r + i) mod N) = q ! i"
      by (auto simp: dm_rel_def)
    have "bready d ! r" "blen d ! r = hd q" using S(3) S(5)[of 0] S(6)[of 0] g(1) by (auto simp: hd_conv_nth)
    with Get sa g S R show ?thesis by (auto simp: tst1_ioctl_def adm_get_def)
  next
    case Confirm
    with x sa have "q \<noteq> []" "a' = ((r + 1) mod N, tl q)" by (auto split: if_splits)
    with Confirm sa R dm_confirm[of N d w r q] show ?thesis by (auto simp: tst1_ioctl_def)
  qed
qed

lemma clear_ready:
  assumes "length rs = N"
  shows "for_range 0 N (\<lambda>i rs. arr_set rs i False) rs = Some (replicate N False)"
proof -
  have "\<exists>s'. for_range 0 N (\<lambda>i rs. arr_set rs i False) rs = Some s' \<and> (length s' = N \<and> (\<forall>j < 0 + N. \<not> s' ! j))"
    by (rule for_range_total[where P = "\<lambda>k rs. length rs = N \<and> (\<forall>j < k. \<not> rs ! j)"]) (use assms in \<open>auto simp: nth_list_update less_Suc_eq\<close>)
  then show ?thesis by (auto simp: list_eq_iff_nth_eq)
qed

lemma adm_start_rel:
  assumes "length (blen d) = N" "length (bready d) = N" "length (phys_buf d) = N" "0 < N" "\<not> is_started d"
  shows "\<exists>d' w'. tst1_ioctl N sleep ADM_START d w = Some (0, d', w') \<and> dm_rel N (d', w') (0, [])"
proof -
  let ?d = "d\<lparr>exp_buf := 0, received_buf := 0, bready := replicate N False\<rparr>"
  have "\<exists>w'. for_range 0 N (\<lambda>i w. transfer_buf i ?d w) w = Some w' \<and> True"
    by (rule for_range_total[where P = "\<lambda>_ _. True"]) (use assms(3) transfer_buf_run[of _ ?d] in auto)
  then obtain w' where t: "for_range 0 N (\<lambda>i w. transfer_buf i ?d w) w = Some w'" by blast
  show ?thesis
    using assms t clear_ready[OF assms(2)] by (simp add: tst1_ioctl_def adm_start_def Let_def dm_rel_def)
qed



text \<open>A status word whose tag is not below the number of buffers writes outside the tables.\<close>

lemma status_word_wild_tag:
  assumes "length (blen d) = N" and "N \<le> unat (v AND 0xf)"
  shows "status_word N v d = None"
  using assms by (simp add: status_word_def Let_def)

end
