(* ===== verification/Spec2Isabelle.thy ===== *)
theory Spec2Isabelle
  imports Wz_Safety Wz_Tester Test_Xdma Wz_Buffers Xdma_Lifecycle Xdma_Stash V1_Dmov
begin

text \<open>
  \<^bold>\<open>The XDMA driver with zero-copy streaming, and its DataMover predecessor.\<close>

  The repository holds two generations of a data acquisition design for PCIe boards and the Linux
  drivers for them. The second, under \<^verbatim>\<open>v2_xdma/software\<close>, is the driver of the Xilinx XDMA core extended
  with a zero-copy streaming mode (the WZ extension); the first, under \<^verbatim>\<open>v1_dmover/software\<close>, drives an
  AXI DataMover. This development is a model of both drivers in HOL, function by function, with the
  theorems that say what their operations achieve.

  \<^bold>\<open>Parts of the program and how they work together.\<close>
  A PCIe device shows several BARs; \<^verbatim>\<open>probe\<close> maps them, finds the DMA engines behind the configuration
  BAR, requests interrupt lines and creates the character devices through which a process uses the
  engines. A read or write pins the pages of the user buffer (\<^verbatim>\<open>xdma-sgm.c\<close>), translates the resulting
  scatterlist into a list of descriptors in coherent memory, queues it on an engine and sleeps until
  the interrupt handler has scheduled the work that retires completed transfers. A streaming engine
  instead runs over a ring of descriptors: either the driver's own receive ring, from which packets
  are copied to the reader, or the ring of the WZ extension, whose buffers the reader has mapped and
  which it gets and confirms block by block. The SDAccel part of the driver (clocks, resets and
  bitstream download) sits behind the ioctl of the user node.

  \<^bold>\<open>How the code is represented.\<close>
  The model is executable HOL over explicit state.
  \<^item> C integers keep their width: \<^verbatim>\<open>u32\<close> and \<^verbatim>\<open>u64\<close> are words, with wrap-around. Counters and indices that
    the code keeps in range are natural numbers or integers; error codes are integers.
  \<^item> \<^typ>\<open>xdma_engine\<close>, \<^typ>\<open>xdma_dev\<close>, \<^typ>\<open>xdma_transfer\<close>, \<^typ>\<open>xdma_desc\<close>, \<^typ>\<open>wz_ext\<close> are the structures of the
    headers. Descriptors and transfers are shared by pointer, so they live in the memories \<^const>\<open>dmem\<close>
    and \<^const>\<open>xfers\<close> of the \<^typ>\<open>world\<close>; the rest is passed along and returned updated.
  \<^item> The device, the kernel and user memory are not part of the repository. They are functions of the
    history of all interactions, kept in the \<^typ>\<open>world\<close>, and every interaction is appended to the history
    \<^const>\<open>io\<close>. What a theorem needs of them (an allocator returns fresh memory, a clock advances) is a
    hypothesis of that theorem.
  \<^item> A function returns \<^term>\<open>None\<close> when the C code would bring the kernel down: a failing \<^verbatim>\<open>BUG_ON\<close>, a NULL
    or wild pointer, an index out of an array. A loop that need not end is a
    \<^theory_text>\<open>partial_function (option)\<close> whose outer \<^term>\<open>None\<close> is divergence and whose inner \<^term>\<open>None\<close> is a
    crash; theorems about such loops prove that a result is returned, or that there is none. There is
    no fuel anywhere: all other loops are total functions with a termination proof.
  \<^item> A task that sleeps on a wait queue takes an argument \<open>sleep\<close>, what other contexts do to the engine
    or the device in the meantime. Locks do not appear: an operation under the engine lock is one step.
  \<^item> Code the repository refers to and does not contain is an argument: \<open>enable\<close> is
    \<^verbatim>\<open>interrupts_enable\<close>, which is declared and defined nowhere; the number and size of the DataMover
    buffers and its ioctl codes come from a header that is missing.

  \<^bold>\<open>Theories.\<close>
  \<^item> \<^verbatim>\<open>Prelude\<close>: word types, error codes, array access, counting loops, and the locale \<open>ring_index\<close> of a cyclic
    index, interpreted for the WZ ring, the receive ring and the DataMover ring.
  \<^item> \<^verbatim>\<open>Xdma_Types\<close>, \<^verbatim>\<open>Kworld\<close>: the data of \<^verbatim>\<open>xdma-core.h\<close>, \<^verbatim>\<open>wz-xdma.h\<close>, \<^verbatim>\<open>xdma-sgm.h\<close>; registers, kernel calls and
    shared memory.
  \<^item> \<^verbatim>\<open>Accounting\<close>: the locale \<open>slot_account\<close> of resources kept in an array, interpreted for the DMA pages, the
    DMA mappings and the BARs. \<^verbatim>\<open>Refinement\<close>: the locale \<open>simulation\<close>, interpreted for the WZ stream, the event
    nodes and the DataMover driver.
  \<^item> \<^verbatim>\<open>Xdma_Desc\<close> (\<^verbatim>\<open>xdma-core.c\<close>, descriptor functions): an allocation is a terminated linked list; the
    announced adjacency never crosses a page; addresses read back; closing makes a ring. The locale
    \<open>desc_op\<close> is the contract of the functions that write one descriptor, interpreted for all of them.
  \<^item> \<^verbatim>\<open>Xdma_Sgm\<close> (\<^verbatim>\<open>xdma-sgm.c\<close>): the scatterlist covers exactly the user buffer; failure releases every page.
  \<^item> \<^verbatim>\<open>Xdma_Engine\<close> (engine start, stop, queue, service): the order of register writes, the transfers
    that a service retires, the error path.
  \<^item> \<^verbatim>\<open>Xdma_Ring\<close> (cyclic service and polling): results consumed from the ring, the end of polling.
  \<^item> \<^verbatim>\<open>Xdma_Transfer\<close> (reads and writes): the descriptors of a scatterlist copy each byte once and in order;
    a request ends with all bytes transferred or an error.
  \<^item> \<^verbatim>\<open>Xdma_Cyclic\<close> (the receive ring): one packet is delivered, its slots and credits are returned.
  \<^item> \<^verbatim>\<open>Xdma_Irq\<close> (interrupt handlers and lines): the handler dispatches exactly what is requested; lines are
    granted all or not at all.
  \<^item> \<^verbatim>\<open>Xdma_Setup\<close> (BARs, DMA mask, engines), \<^verbatim>\<open>Xdma_Chardev\<close> (nodes, ioctls, module), \<^verbatim>\<open>Xdma_Probe\<close> (\<^verbatim>\<open>probe\<close> and
    \<^verbatim>\<open>remove\<close>): mapped BARs and created nodes are accounted for, engines own disjoint interrupt bits, minors
    are unique, a mapping stays inside its BAR, events are reported exactly once. \<^verbatim>\<open>Xdma_Nodes\<close>: all nodes of a device
    together; a failure half way leaves none, and taking them down restores the state before.
  \<^item> \<^verbatim>\<open>Xdma_Account\<close>, \<^verbatim>\<open>Xdma_Lifecycle\<close>: the life of a device. Every structure, region, BAR, line and buffer taken since
    \<^verbatim>\<open>probe\<close> is given back exactly once: by the error exits of \<^verbatim>\<open>probe\<close> wherever it fails (MSI-X apart), and by \<^verbatim>\<open>remove\<close>
    after any use that leaves the account alone. The steps are chained by the rules for \<open>ensures\<close> of \<^verbatim>\<open>Prelude\<close>.
  \<^item> \<^verbatim>\<open>Xdma_Options\<close>: the code that options of \<^verbatim>\<open>xdma-core.h\<close> turn off (chained transfers, dumps, identification of engines
    and configuration). With chaining, the queued transfers are one descriptor list.
  \<^item> \<^verbatim>\<open>Wz_Xdma\<close>, \<^verbatim>\<open>Wz_Start\<close>, \<^verbatim>\<open>Wz_Buffers\<close> (\<^verbatim>\<open>wz-xdma.c\<close>): starting builds the descriptor ring over all buffers; the
    interrupt service delivers exactly the finished blocks, in order; confirming restores exactly the
    descriptors of the block; buffers are allocated all or not at all and all released.
  \<^item> \<^verbatim>\<open>Wz_Stream\<close>: these operations together. A started engine refines a stream of blocks under every
    interleaving of write-backs, interrupts, gets and confirmations that leaves one descriptor free, and
    delivers blocks twice when none is free. \<^verbatim>\<open>Wz_Safety\<close>: an inductive step relation in which the environment may
    answer and write anything; every reachable state of a started stream is well-formed and no operation
    inside the ring crashes.
  \<^item> \<^verbatim>\<open>Wz_Tester\<close> (\<^verbatim>\<open>tester2.c\<close>, \<^verbatim>\<open>tester3.c\<close>): the programs that use a stream, over the locale \<open>block_source\<close> of what they rely
    on, interpreted with the driver: program and driver together count and return every block. \<^verbatim>\<open>Test_Xdma\<close> (\<^verbatim>\<open>test_xdma.c\<close>,
    \<^verbatim>\<open>xtest1.c\<close>): the programs that read a plain stream and test registers; what is copied fits the memory allocated for it.
  \<^item> \<^verbatim>\<open>Xdma_Clk\<close> (\<^verbatim>\<open>xdma-ioctl.c\<close>), \<^verbatim>\<open>Xdma_Bit\<close> (\<^verbatim>\<open>xdma-bit.c\<close>): the code of the SDAccel build. The gate is open after
    every ioctl, a bitstream is written in order, the header parser inverts the header format. \<^verbatim>\<open>Xdma_Stash\<close> (the parts of \<^verbatim>\<open>probe\<close> and
    \<^verbatim>\<open>remove\<close> that only this build has): the clearing bitstream left by \<^verbatim>\<open>remove\<close> is taken over by the next \<^verbatim>\<open>probe\<close>.
  \<^item> \<^verbatim>\<open>V1_Dmov\<close> (\<^verbatim>\<open>axi4s2dmov.c\<close>): the DataMover driver refines a FIFO of completed buffers.

  Some theorems state a defect precisely: a confirmation out of range, a restart after a stop, a scan
  that does not end, a failed transfer that is started again, a mapping past the end of a BAR.

  \<^bold>\<open>Build configuration.\<close> The options are those of \<^verbatim>\<open>xdma-core.h\<close>: descriptor lists are not chained, status
  dumps and forced completion are off; \<^verbatim>\<open>Xdma_Options\<close> has the other variants. \<^verbatim>\<open>probe\<close> and \<^verbatim>\<open>remove\<close> are those of the build
  without SDAccel; what that build adds to them stands apart in \<^verbatim>\<open>Xdma_Stash\<close>.

  \<^bold>\<open>Not modelled.\<close> Messages to the kernel log and to the console, and the times the test programs measure
  for them; \<^verbatim>\<open>ax_dma1.c\<close>, an unfinished rewrite of the DataMover driver: it has an incomplete expression and uses names that are declared
  nowhere, so that it has no meaning to model; \<^verbatim>\<open>tester.py\<close>, a script around the same ioctls; register constants no code uses
  (\<^verbatim>\<open>perfmon_parameters.h\<close>); the FPGA design.
\<close>

end
